(* ===== verification/Prelude.thy ===== *)
theory Prelude
  imports Main "HOL-Library.Word" "HOL-Library.AList" "HOL-Library.Char_ord"
begin

text \<open>
  The shared vocabulary of the development: the machine types of the Rust sources
  (\<open>u8\<close> to \<open>u64\<close> as words, byte strings as lists of 8-bit words, \<open>usize\<close> as
  \<open>nat\<close>), the standard-library arithmetic the code uses (\<open>saturating_sub\<close>,
  \<open>checked_sub\<close>, \<open>div_ceil\<close>, \<open>to_be_bytes\<close>, \<open>from_be_bytes\<close>), decimal and
  hexadecimal formatting of \<open>format!\<close>, and the generic lemmas about words, lists
  and association lists that the component theories use.

  Unsigned addition is the wrapping addition of words, which is what a release
  build of the crate executes.
\<close>

section \<open>Machine types\<close>

type_synonym u8 = "8 word"
type_synonym u16 = "16 word"
type_synonym u32 = "32 word"
type_synonym u64 = "64 word"
type_synonym bytes = "u8 list"

named_theorems len_simps \<open>lengths of byte strings built by the model\<close>
named_theorems word_nat \<open>moving word arithmetic to the naturals\<close>

section \<open>Standard-library arithmetic\<close>

definition saturating_sub :: "'a::len word \<Rightarrow> 'a word \<Rightarrow> 'a word" where
  "saturating_sub a b = (if b \<le> a then a - b else 0)"

definition checked_sub :: "'a::len word \<Rightarrow> 'a word \<Rightarrow> 'a word option" where
  "checked_sub a b = (if b \<le> a then Some (a - b) else None)"

definition div_ceil :: "nat \<Rightarrow> nat \<Rightarrow> nat" where
  "div_ceil a b = (a + b - 1) div b"

definition be_bytes :: "nat \<Rightarrow> 'a::len word \<Rightarrow> bytes" where
  "be_bytes n w = map (\<lambda>i. ucast (drop_bit (8 * (n - 1 - i)) w)) [0..<n]"

definition u32_be :: "u32 \<Rightarrow> bytes" where
  "u32_be = be_bytes 4"

definition u64_be :: "u64 \<Rightarrow> bytes" where
  "u64_be = be_bytes 8"

definition from_be :: "bytes \<Rightarrow> 'a::len word" where
  "from_be bs = foldl (\<lambda>acc b. acc * 256 + ucast b) 0 bs"

definition zeros :: "nat \<Rightarrow> bytes" where
  "zeros n = replicate n 0"

text \<open>A byte-string literal \<open>b"..."\<close>.\<close>

definition ascii :: "string \<Rightarrow> bytes" where
  "ascii s = map of_char s"

text \<open>\<open>Vec::resize(n, fill)\<close>: truncate or extend to exactly \<open>n\<close> elements.\<close>

definition resize :: "nat \<Rightarrow> 'a \<Rightarrow> 'a list \<Rightarrow> 'a list" where
  "resize n x xs = take n xs @ replicate (n - length xs) x"

section \<open>Formatting\<close>

definition digit :: "nat \<Rightarrow> char" where
  "digit d = char_of (48 + d)"

fun show_nat :: "nat \<Rightarrow> string" where
  "show_nat n = (if n < 10 then [digit n] else show_nat (n div 10) @ [digit (n mod 10)])"

declare show_nat.simps [simp del]

text \<open>\<open>format!("{:05}", v)\<close>: decimal, left-padded with zeros to at least the width.\<close>

definition show_padded :: "nat \<Rightarrow> nat \<Rightarrow> string" where
  "show_padded w n = (let s = show_nat n in replicate (w - length s) (digit 0) @ s)"

definition hex_digit :: "nat \<Rightarrow> char" where
  "hex_digit d = (if d < 10 then char_of (48 + d) else char_of (87 + d))"

text \<open>\<open>format!("{b:02x}")\<close> of a byte.\<close>

definition show_hex_byte :: "u8 \<Rightarrow> string" where
  "show_hex_byte b = [hex_digit (unat b div 16), hex_digit (unat b mod 16)]"

section \<open>Lemmas on words\<close>

lemma unat_add_one [word_nat]:
  fixes w :: "'a::len word"
  assumes "unat w + 1 < 2 ^ LENGTH('a)"
  shows "unat (w + 1) = unat w + 1"
proof -
  have "unat (w + 1) = (unat w + 1) mod 2 ^ LENGTH('a)"
    by (simp add: unat_word_ariths(1))
  then show ?thesis using assms by simp
qed

lemma unat_add_one_if_less [word_nat]:
  fixes w v :: "'a::len word"
  assumes "w < v"
  shows "unat (w + 1) = unat w + 1"
proof -
  have "unat w < unat v" using assms by (simp add: word_less_nat_alt)
  moreover have "unat v < 2 ^ LENGTH('a)" by simp
  ultimately show ?thesis by (intro unat_add_one) linarith
qed

lemma unat_inject [simp]: "unat a = unat b \<longleftrightarrow> a = b"
  by (simp add: word_unat_eq_iff)

lemma u32_bound: "unat (w :: u32) < 2 ^ 32"
  using unsigned_less [of w] by simp

lemma u64_bound: "unat (w :: u64) < 2 ^ 64"
  using unsigned_less [of w] by simp

lemma unat_of_nat_less: "n < 2 ^ LENGTH('a) \<Longrightarrow> unat (of_nat n :: 'a::len word) = n"
  by (simp add: unat_of_nat)

lemma of_nat_eq_iff_unat:
  "n < 2 ^ LENGTH('a) \<Longrightarrow> w = (of_nat n :: 'a::len word) \<longleftrightarrow> unat w = n"
  by (metis unat_of_nat_less unat_inject)

lemma unat_saturating_sub [word_nat]: "unat (saturating_sub a b) = unat a - unat b"
  by (auto simp: saturating_sub_def unat_sub word_le_nat_alt)

lemma saturating_sub_zero [simp]: "saturating_sub a 0 = a"
  by (simp add: saturating_sub_def)

lemma checked_sub_Some: "checked_sub a b = Some c \<longleftrightarrow> b \<le> a \<and> c = a - b"
  by (auto simp: checked_sub_def)

lemma checked_sub_None: "checked_sub a b = None \<longleftrightarrow> a < b"
  by (auto simp: checked_sub_def)

lemma word_add_one_neq [simp]:
  fixes w :: "'a::len word"
  shows "w + 1 \<noteq> w" "w \<noteq> w + 1"
  by simp_all

lemma div_ceil_mult_ge: "0 < b \<Longrightarrow> a \<le> div_ceil a b * b"
proof -
  assume b: "0 < b"
  have "a + b - 1 = (a + b - 1) div b * b + (a + b - 1) mod b"
    by simp
  moreover have "(a + b - 1) mod b \<le> b - 1"
    using b by (metis Suc_pred' less_Suc_eq_le mod_less_divisor)
  ultimately show ?thesis using b unfolding div_ceil_def by linarith
qed

lemma div_ceil_mult_less: "0 < b \<Longrightarrow> div_ceil a b * b < a + b"
proof -
  assume b: "0 < b"
  have "(a + b - 1) div b * b \<le> a + b - 1" by (rule div_times_less_eq_dividend)
  then show ?thesis using b unfolding div_ceil_def by linarith
qed

section \<open>Lemmas on byte strings\<close>

lemma length_be_bytes [simp, len_simps]: "length (be_bytes n w) = n"
  by (simp add: be_bytes_def)

lemma length_u32_be [simp, len_simps]: "length (u32_be w) = 4"
  by (simp add: u32_be_def)

lemma length_u64_be [simp, len_simps]: "length (u64_be w) = 8"
  by (simp add: u64_be_def)

lemma length_zeros [simp, len_simps]: "length (zeros n) = n"
  by (simp add: zeros_def)

lemma length_ascii [simp, len_simps]: "length (ascii s) = length s"
  by (simp add: ascii_def)

lemma length_resize [simp, len_simps]: "length (resize n x xs) = n"
  by (simp add: resize_def)

lemma resize_extend: "length xs \<le> n \<Longrightarrow> resize n x xs = xs @ replicate (n - length xs) x"
  by (simp add: resize_def)

lemma bit_be_bytes:
  assumes "i < 8 * n"
  shows "bit (be_bytes n w ! (n - 1 - i div 8)) (i mod 8) = bit w i"
proof -
  have "i div 8 < n" using assms by (simp add: less_mult_imp_div_less mult.commute)
  then have "be_bytes n w ! (n - 1 - i div 8) = ucast (drop_bit (8 * (i div 8)) w)"
    by (simp add: be_bytes_def)
  then show ?thesis by (simp add: bit_ucast_iff bit_drop_bit_eq)
qed

lemma be_bytes_inject:
  fixes v w :: "'a::len word"
  assumes eq: "be_bytes n v = be_bytes n w" and n: "LENGTH('a) \<le> 8 * n"
  shows "v = w"
proof (rule bit_word_eqI)
  fix i assume "i < LENGTH('a)"
  then have "i < 8 * n" using n by simp
  then show "bit v i = bit w i" using bit_be_bytes [of i n v] bit_be_bytes [of i n w] eq by simp
qed

lemma u32_be_inject [simp]: "u32_be v = u32_be w \<longleftrightarrow> v = w"
  using be_bytes_inject [of 4 v w] by (auto simp: u32_be_def)

lemma u64_be_inject [simp]: "u64_be v = u64_be w \<longleftrightarrow> v = w"
  using be_bytes_inject [of 8 v w] by (auto simp: u64_be_def)

lemma append_cancel_len:
  "length xs = length ys \<Longrightarrow> xs @ us = ys @ vs \<longleftrightarrow> xs = ys \<and> us = vs"
  by (rule append_eq_append_conv) simp

end
