(* ===== verification/External.thy ===== *)
theory External
  imports Prelude
begin

text \<open>
  The third-party crates the code calls, as one record of functions. Nothing is
  assumed of them here; the documented behaviour that a property relies on is a
  named predicate on the record (\<open>hash_lens\<close>, \<open>ed25519_ok\<close>, \<open>x25519_ok\<close>,
  \<open>xchacha_ok\<close>, \<open>chacha_ok\<close>, \<open>rs_ok\<close>, \<open>kem_ok\<close>, \<open>mlkem_ok\<close>) and appears as a
  hypothesis of that property. A Postcard codec of a type is a \<open>codec\<close> record,
  with \<open>codec_ok\<close> saying that decoding inverts encoding.

  \<open>demo_ext\<close> is one concrete record that satisfies every predicate; it has no
  cryptographic strength and only serves to show that the hypotheses can hold.
\<close>

section \<open>The interface\<close>

record ext =
  \<comment> \<open>\<open>hkdf\<close>: salt, input keying material, info, output length\<close>
  hkdf :: "bytes option \<Rightarrow> bytes \<Rightarrow> bytes \<Rightarrow> nat \<Rightarrow> bytes"
  \<comment> \<open>\<open>hmac\<close> and \<open>sha2\<close>\<close>
  hmac :: "bytes \<Rightarrow> bytes \<Rightarrow> bytes"
  sha256 :: "bytes \<Rightarrow> bytes"
  sha512 :: "bytes \<Rightarrow> bytes"
  \<comment> \<open>\<open>ed25519-dalek\<close>: public key of a seed, point validity, sign, verify\<close>
  ed_public :: "bytes \<Rightarrow> bytes"
  ed_point :: "bytes \<Rightarrow> bool"
  ed_sign :: "bytes \<Rightarrow> bytes \<Rightarrow> bytes"
  ed_verify :: "bytes \<Rightarrow> bytes \<Rightarrow> bytes \<Rightarrow> bool"
  \<comment> \<open>\<open>curve25519-dalek\<close>: decompress an Edwards point and map it to Montgomery form\<close>
  ed_montgomery :: "bytes \<Rightarrow> bytes"
  \<comment> \<open>\<open>x25519-dalek\<close>: public key of a secret, Diffie-Hellman\<close>
  x_public :: "bytes \<Rightarrow> bytes"
  x_dh :: "bytes \<Rightarrow> bytes \<Rightarrow> bytes"
  \<comment> \<open>\<open>chacha20poly1305\<close>: key, nonce, associated data, message\<close>
  xchacha_seal :: "bytes \<Rightarrow> bytes \<Rightarrow> bytes \<Rightarrow> bytes \<Rightarrow> bytes option"
  xchacha_open :: "bytes \<Rightarrow> bytes \<Rightarrow> bytes \<Rightarrow> bytes \<Rightarrow> bytes option"
  chacha_seal :: "bytes \<Rightarrow> bytes \<Rightarrow> bytes \<Rightarrow> bytes \<Rightarrow> bytes option"
  chacha_open :: "bytes \<Rightarrow> bytes \<Rightarrow> bytes \<Rightarrow> bytes \<Rightarrow> bytes option"
  \<comment> \<open>the display text of \<open>aead::Error\<close>\<close>
  aead_error :: string
  \<comment> \<open>\<open>reed-solomon-simd\<close>: supported shard counts, encode, decode\<close>
  rs_supports :: "nat \<Rightarrow> nat \<Rightarrow> bool"
  rs_encode :: "nat \<Rightarrow> nat \<Rightarrow> bytes list \<Rightarrow> string + bytes list"
  rs_decode :: "nat \<Rightarrow> nat \<Rightarrow> (nat \<times> bytes) list \<Rightarrow> (nat \<times> bytes) list \<Rightarrow> string + (nat \<times> bytes) list"
  \<comment> \<open>\<open>libcrux-ml-kem\<close>, incremental ML-KEM-768\<close>
  kem_kp_len :: nat
  kem_pk1_len :: nat
  kem_pk2_len :: nat
  kem_state_len :: nat
  kem_ct1_len :: nat
  kem_ct2_len :: nat
  kem_from_seed :: "bytes \<Rightarrow> bytes"
  kem_pk1 :: "bytes \<Rightarrow> bytes"
  kem_pk2 :: "bytes \<Rightarrow> bytes"
  kem_validate :: "bytes \<Rightarrow> bytes \<Rightarrow> string + unit"
  kem_encaps1 :: "bytes \<Rightarrow> bytes \<Rightarrow> string + (bytes \<times> bytes \<times> bytes)"
  kem_encaps2 :: "bytes \<Rightarrow> bytes \<Rightarrow> bytes"
  kem_decaps :: "bytes \<Rightarrow> bytes \<Rightarrow> bytes \<Rightarrow> string + bytes"
  \<comment> \<open>\<open>ml-kem\<close>, ML-KEM-1024; a decapsulation key is handled through its seed\<close>
  mlkem_ek_len :: nat
  mlkem_ct_len :: nat
  mlkem_from_seed :: "bytes \<Rightarrow> bytes"
  mlkem_to_seed :: "bytes \<Rightarrow> bytes option"
  mlkem_ek :: "bytes \<Rightarrow> bytes"
  mlkem_ek_valid :: "bytes \<Rightarrow> bool"
  mlkem_encaps :: "bytes \<Rightarrow> bytes \<Rightarrow> bytes \<times> bytes"
  mlkem_decaps :: "bytes \<Rightarrow> bytes \<Rightarrow> bytes"

text \<open>A Postcard codec of one type; the error is the display text of \<open>postcard::Error\<close>.\<close>

record 'a codec =
  enc :: "'a \<Rightarrow> string + bytes"
  dec :: "bytes \<Rightarrow> string + 'a"

section \<open>Documented behaviour\<close>

definition codec_ok :: "'a codec \<Rightarrow> bool" where
  "codec_ok c \<longleftrightarrow> (\<forall>x. \<exists>b. enc c x = Inr b \<and> dec c b = Inr x)"

text \<open>Output lengths of HKDF-SHA256 (up to the 255-block limit), HMAC-SHA256, SHA-2.\<close>

definition hash_lens :: "ext \<Rightarrow> bool" where
  "hash_lens X \<longleftrightarrow>
     (\<forall>salt ikm info n. n \<le> 255 * 32 \<longrightarrow> length (hkdf X salt ikm info n) = n) \<and>
     (\<forall>k m. length (hmac X k m) = 32) \<and>
     (\<forall>m. length (sha256 X m) = 32) \<and>
     (\<forall>m. length (sha512 X m) = 64)"

text \<open>Ed25519: an honest signature verifies; key and signature sizes.\<close>

definition ed25519_ok :: "ext \<Rightarrow> bool" where
  "ed25519_ok X \<longleftrightarrow>
     (\<forall>s. length (ed_public X s) = 32 \<and> ed_point X (ed_public X s)) \<and>
     (\<forall>s m. length (ed_sign X s m) = 64 \<and> ed_verify X (ed_public X s) m (ed_sign X s m))"

text \<open>X25519: Diffie-Hellman commutes; key sizes.\<close>

definition x25519_ok :: "ext \<Rightarrow> bool" where
  "x25519_ok X \<longleftrightarrow>
     (\<forall>a b. x_dh X a (x_public X b) = x_dh X b (x_public X a)) \<and>
     (\<forall>a. length (x_public X a) = 32) \<and>
     (\<forall>a p. length (x_dh X a p) = 32)"

text \<open>
  An AEAD never fails to encrypt, adds a 16-byte tag, and its decryption is the exact
  inverse of its encryption: it returns the message of a ciphertext it produced, and
  it accepts no other ciphertext under that key, nonce and associated data.
\<close>

definition aead_pair_ok ::
  "(bytes \<Rightarrow> bytes \<Rightarrow> bytes \<Rightarrow> bytes \<Rightarrow> bytes option) \<Rightarrow>
   (bytes \<Rightarrow> bytes \<Rightarrow> bytes \<Rightarrow> bytes \<Rightarrow> bytes option) \<Rightarrow> bool" where
  "aead_pair_ok sl op \<longleftrightarrow>
     (\<forall>k n a m. \<exists>c. sl k n a m = Some c \<and> length c = length m + 16 \<and> op k n a c = Some m) \<and>
     (\<forall>k n a c m. op k n a c = Some m \<longrightarrow> sl k n a m = Some c)"

definition xchacha_ok :: "ext \<Rightarrow> bool" where
  "xchacha_ok X \<longleftrightarrow> aead_pair_ok (xchacha_seal X) (xchacha_open X)"

definition chacha_ok :: "ext \<Rightarrow> bool" where
  "chacha_ok X \<longleftrightarrow> aead_pair_ok (chacha_seal X) (chacha_open X)"

text \<open>
  Reed-Solomon: for a supported pair of counts, encoding \<open>k\<close> shards of 32 bytes gives
  \<open>r\<close> recovery shards of 32 bytes, and decoding any \<open>k\<close> or more distinct shards of
  that codeword, not all originals present, returns every missing original.
\<close>

definition shards_from :: "(nat \<times> bytes) list \<Rightarrow> bytes list \<Rightarrow> bool" where
  "shards_from ps ss \<longleftrightarrow>
     distinct (map fst ps) \<and> (\<forall>(i, d) \<in> set ps. i < length ss \<and> d = ss ! i)"

definition rs_ok :: "ext \<Rightarrow> bool" where
  "rs_ok X \<longleftrightarrow>
     (\<forall>k r os. rs_supports X k r \<and> length os = k \<and> (\<forall>s \<in> set os. length s = 32) \<longrightarrow>
        (\<exists>rec. rs_encode X k r os = Inr rec \<and> length rec = r \<and> (\<forall>s \<in> set rec. length s = 32) \<and>
          (\<forall>po pr. shards_from po os \<and> shards_from pr rec \<and> length po < k \<and>
             k \<le> length po + length pr \<longrightarrow>
             (\<exists>m. rs_decode X k r po pr = Inr m \<and>
               (\<forall>i < k. i \<notin> fst ` set po \<longrightarrow> map_of m i = Some (os ! i))))))"

text \<open>
  The incremental KEM: parts and ciphertexts have their declared lengths, the two parts
  of one key pair validate together, and decapsulation recovers the encapsulated secret.
\<close>

definition kem_ok :: "ext \<Rightarrow> bool" where
  "kem_ok X \<longleftrightarrow>
     0 < kem_pk2_len X \<and> 0 < kem_ct1_len X \<and>
     (\<forall>seed. length seed = 64 \<longrightarrow>
        (let kp = kem_from_seed X seed in
           length kp = kem_kp_len X \<and>
           length (kem_pk1 X kp) = kem_pk1_len X \<and>
           length (kem_pk2 X kp) = kem_pk2_len X \<and>
           kem_validate X (kem_pk1 X kp) (kem_pk2 X kp) = Inr () \<and>
           (\<forall>r. length r = 32 \<longrightarrow>
              (\<exists>ct1 st ss. kem_encaps1 X (kem_pk1 X kp) r = Inr (ct1, st, ss) \<and>
                 length ct1 = kem_ct1_len X \<and> length st = kem_state_len X \<and> length ss = 32 \<and>
                 length (kem_encaps2 X st (kem_pk2 X kp)) = kem_ct2_len X \<and>
                 kem_decaps X kp ct1 (kem_encaps2 X st (kem_pk2 X kp)) = Inr ss))))"

text \<open>ML-KEM-1024: sizes, key validity, decapsulation of an honest ciphertext, seed round trip.\<close>

definition mlkem_ok :: "ext \<Rightarrow> bool" where
  "mlkem_ok X \<longleftrightarrow>
     (\<forall>dk. length (mlkem_ek X dk) = mlkem_ek_len X \<and> mlkem_ek_valid X (mlkem_ek X dk)) \<and>
     (\<forall>dk r. let (ct, ss) = mlkem_encaps X (mlkem_ek X dk) r in
        length ct = mlkem_ct_len X \<and> length ss = 32 \<and> mlkem_decaps X dk ct = ss) \<and>
     (\<forall>s. length s = 64 \<longrightarrow> mlkem_to_seed X (mlkem_from_seed X s) = Some s)"

section \<open>A concrete instance\<close>

text \<open>
  Hashes keep a prefix of their input; an AEAD appends the tag
  \<open>take 16 (ad @ zeros 16)\<close> and keeps the message; Diffie-Hellman adds the secrets
  byte-wise over the identity public key, and the Montgomery form of a point
  is its clamped encoding; the erasure code of one data shard repeats it,
  and a larger count is not supported; the KEM secret is the randomness.
\<close>

definition fit :: "nat \<Rightarrow> bytes \<Rightarrow> bytes" where
  "fit n bs = resize n 0 bs"

definition add_bytes :: "bytes \<Rightarrow> bytes \<Rightarrow> bytes" where
  "add_bytes a b = map (\<lambda>i. (a ! i) + (b ! i)) [0..<32]"

definition demo_seal :: "bytes \<Rightarrow> bytes \<Rightarrow> bytes \<Rightarrow> bytes \<Rightarrow> bytes option" where
  "demo_seal k n a m = Some (m @ fit 16 a)"

definition demo_open :: "bytes \<Rightarrow> bytes \<Rightarrow> bytes \<Rightarrow> bytes \<Rightarrow> bytes option" where
  "demo_open k n a c =
     (let m = take (length c - 16) c in
      if 16 \<le> length c \<and> drop (length c - 16) c = fit 16 a then Some m else None)"

definition demo_ext :: ext where
  "demo_ext = \<lparr>
     hkdf = (\<lambda>salt ikm info n. fit n (ikm @ info @ (case salt of None \<Rightarrow> [] | Some s \<Rightarrow> s))),
     hmac = (\<lambda>k m. fit 32 (m @ k)),
     sha256 = fit 32,
     sha512 = fit 64,
     ed_public = fit 32,
     ed_point = (\<lambda>_. True),
     ed_sign = (\<lambda>s m. fit 64 (fit 32 s @ fit 32 m)),
     ed_verify = (\<lambda>p m sig. sig = fit 64 (fit 32 p @ fit 32 m)),
     ed_montgomery = (\<lambda>p. p[0 := and (p ! 0) 248, 31 := or (and (p ! 31) 127) 64]),
     x_public = fit 32,
     x_dh = (\<lambda>a p. add_bytes (fit 32 a) (fit 32 p)),
     xchacha_seal = demo_seal,
     xchacha_open = demo_open,
     chacha_seal = demo_seal,
     chacha_open = demo_open,
     aead_error = ''aead::Error'',
     rs_supports = (\<lambda>k r. k = 1),
     rs_encode = (\<lambda>k r os. Inr (replicate r (if os = [] then [] else hd os))),
     rs_decode = (\<lambda>k r po pr. if pr = [] then Inl ''not enough shards'' else Inr [(0, snd (hd pr))]),
     kem_kp_len = 64, kem_pk1_len = 0, kem_pk2_len = 1, kem_state_len = 32,
     kem_ct1_len = 32, kem_ct2_len = 0,
     kem_from_seed = (\<lambda>s. s),
     kem_pk1 = (\<lambda>_. []),
     kem_pk2 = (\<lambda>_. [7]),
     kem_validate = (\<lambda>p1 p2. if p2 = [7] then Inr () else Inl ''InvalidPublicKey''),
     kem_encaps1 = (\<lambda>p1 r. Inr (r, r, r)),
     kem_encaps2 = (\<lambda>st p2. []),
     kem_decaps = (\<lambda>kp ct1 ct2. Inr ct1),
     mlkem_ek_len = 32, mlkem_ct_len = 32,
     mlkem_from_seed = (\<lambda>s. s),
     mlkem_to_seed = (\<lambda>dk. Some dk),
     mlkem_ek = fit 32,
     mlkem_ek_valid = (\<lambda>_. True),
     mlkem_encaps = (\<lambda>ek r. (fit 32 r, fit 32 r)),
     mlkem_decaps = (\<lambda>dk ct. ct) \<rparr>"


named_theorems demo \<open>facts about the concrete instance\<close>

lemma length_fit [simp, len_simps]: "length (fit n bs) = n"
  by (simp add: fit_def)

lemma fit_id: "length bs = n \<Longrightarrow> fit n bs = bs"
  by (simp add: fit_def resize_def)

lemma fit_fit [simp]: "fit n (fit n bs) = fit n bs"
  by (simp add: fit_id)

lemma add_bytes_commute: "add_bytes a b = add_bytes b a"
  by (simp add: add_bytes_def add.commute)

lemma demo_hash_lens [demo]: "hash_lens demo_ext"
  by (simp add: hash_lens_def demo_ext_def)

lemma demo_ed25519 [demo]: "ed25519_ok demo_ext"
  by (simp add: ed25519_ok_def demo_ext_def)

lemma demo_x25519 [demo]: "x25519_ok demo_ext"
  by (auto simp: x25519_ok_def demo_ext_def add_bytes_def add.commute)

lemma demo_aead_pair: "aead_pair_ok demo_seal demo_open"
proof -
  have inverse: "demo_seal k n a m = Some c" if "demo_open k n a c = Some m" for k n a c m
    using that
    by (auto simp: demo_open_def demo_seal_def Let_def split: if_splits)
      (metis append_take_drop_id)
  show ?thesis
    using inverse by (auto simp: aead_pair_ok_def demo_seal_def demo_open_def)
qed

lemma demo_xchacha [demo]: "xchacha_ok demo_ext"
  using demo_aead_pair by (simp add: xchacha_ok_def demo_ext_def)

lemma demo_chacha [demo]: "chacha_ok demo_ext"
  using demo_aead_pair by (simp add: chacha_ok_def demo_ext_def)

lemma shards_from_nth:
  "shards_from ps ss \<Longrightarrow> p \<in> set ps \<Longrightarrow> fst p < length ss \<and> snd p = ss ! fst p"
  by (auto simp: shards_from_def)

lemma demo_rs [demo]: "rs_ok demo_ext"
proof -
  have "snd (hd pr) = os ! 0"
    if "length os = Suc 0" and pr: "shards_from pr (replicate r (hd os))" "pr \<noteq> []"
    for os :: "bytes list" and pr r
  proof -
    have "hd pr \<in> set pr" using pr(2) by simp
    then have "snd (hd pr) = hd os"
      using shards_from_nth [OF pr(1)] by (auto simp del: hd_in_set)
    then show ?thesis using that(1) by (cases os) auto
  qed
  then show ?thesis by (auto simp: rs_ok_def demo_ext_def length_Suc_conv)
qed

lemma demo_kem [demo]: "kem_ok demo_ext"
  by (simp add: kem_ok_def demo_ext_def)

lemma demo_kem_lens [demo]:
  "kem_pk1_len demo_ext = 0" "kem_pk2_len demo_ext = 1"
  "kem_ct1_len demo_ext = 32" "kem_ct2_len demo_ext = 0"
  by (simp_all add: demo_ext_def)

lemma demo_mlkem [demo]: "mlkem_ok demo_ext"
  by (simp add: mlkem_ok_def demo_ext_def)

end
