(* ===== verification/Foundation.thy ===== *)
theory Foundation
  imports External
begin

text \<open>
  The vocabulary every layer of the crate shares: the error enum of \<open>error.rs\<close> with its
  display texts, the newtypes of \<open>types.rs\<close>, the address of \<open>address.rs\<close>, and the
  versioned record framing of \<open>serialization.rs\<close>.

  A Rust \<open>Result<T>\<close> is a value of \<open>'a res\<close>, the error on the left. The constructor
  \<open>Panic\<close> is not in the source enum: it stands for a panic (\<open>expect\<close>), so that a
  panicking branch of the code is a branch of the model.
\<close>

section \<open>Errors\<close>

datatype crypto_error =
    InvalidKey
  | InvalidSignature
  | EncryptionFailed string
  | DecryptionFailed string
  | InvalidCiphertext
  | InvalidSessionState
  | StorageError string
  | NotFound string
  | InvalidPrekeyBundle string
  | IdentityKeyChanged
  | UntrustedIdentity string
  | DuplicateMessage
  | MaxSkipExceeded u32 u32
  | ExpiredCertificate
  | InvalidCertificate string
  | Serialization string
  | MissingSenderKey
  | InvalidPadding
  | BraidErasure string
  | BraidKem string
  | Panic string

type_synonym 'a res = "crypto_error + 'a"

fun error_display :: "crypto_error \<Rightarrow> string" where
  "error_display InvalidKey = ''invalid key material''"
| "error_display InvalidSignature = ''invalid signature''"
| "error_display (EncryptionFailed s) = ''encryption failed: '' @ s"
| "error_display (DecryptionFailed s) = ''decryption failed: '' @ s"
| "error_display InvalidCiphertext = ''invalid ciphertext''"
| "error_display InvalidSessionState = ''invalid session state''"
| "error_display (StorageError s) = ''storage error: '' @ s"
| "error_display (NotFound s) = ''not found: '' @ s"
| "error_display (InvalidPrekeyBundle s) = ''invalid prekey bundle: '' @ s"
| "error_display IdentityKeyChanged = ''identity key changed''"
| "error_display (UntrustedIdentity s) = ''untrusted identity: '' @ s"
| "error_display DuplicateMessage = ''duplicate message''"
| "error_display (MaxSkipExceeded g l) =
     ''max skip exceeded: gap of '' @ show_nat (unat g) @ '' exceeds limit of '' @ show_nat (unat l)"
| "error_display ExpiredCertificate = ''expired certificate''"
| "error_display (InvalidCertificate s) = ''invalid certificate: '' @ s"
| "error_display (Serialization s) = ''serialization error: '' @ s"
| "error_display MissingSenderKey = ''missing sender key for group''"
| "error_display InvalidPadding = ''invalid message padding''"
| "error_display (BraidErasure s) = ''braid erasure contract violation: '' @ s"
| "error_display (BraidKem s) = ''braid KEM error: '' @ s"
| "error_display (Panic s) = s"

text \<open>\<open>impl From<postcard::Error> for CryptoError\<close>.\<close>

definition from_postcard :: "string \<Rightarrow> crypto_error" where
  "from_postcard e = Serialization e"

definition is_ok :: "'a res \<Rightarrow> bool" where
  "is_ok r = (case r of Inl _ \<Rightarrow> False | Inr _ \<Rightarrow> True)"

text \<open>\<open>slice::split_at\<close>, which panics when the slice is too short.\<close>

definition split_at :: "nat \<Rightarrow> 'a list \<Rightarrow> ('a list \<times> 'a list) res" where
  "split_at n xs = (if n \<le> length xs then Inr (take n xs, drop n xs) else Inl (Panic ''mid > len''))"

section \<open>Newtypes\<close>

text \<open>\<open>define_crypto_key!\<close>: 32 raw bytes behind a type of their own.\<close>

datatype root_key = RootKey (root_key_bytes: bytes)
datatype chain_key = ChainKey (chain_key_bytes: bytes)
datatype message_key = MessageKey (message_key_bytes: bytes)
datatype dh_public_key = DhPublicKey (dh_public_key_bytes: bytes)
datatype signing_public_key = SigningPublicKey (signing_public_key_bytes: bytes)
datatype signing_private_key = SigningPrivateKey (signing_private_key_bytes: bytes)

text \<open>The redacted \<open>Debug\<close> and the \<open>Display\<close> of a key type called \<open>name\<close>.\<close>

definition crypto_key_debug :: "string \<Rightarrow> bytes \<Rightarrow> string" where
  "crypto_key_debug name raw = name @ ''([REDACTED])''"

definition crypto_key_display :: "string \<Rightarrow> bytes \<Rightarrow> string" where
  "crypto_key_display name raw = ''<'' @ name @ ''>''"

text \<open>\<open>define_id!\<close>: a \<open>u32\<close> behind a type of its own.\<close>

datatype registration_id = RegistrationId (registration_id_raw: u32)
datatype device_id = DeviceId (device_id_raw: u32)
datatype pre_key_id = PreKeyId (pre_key_id_raw: u32)
datatype signed_pre_key_id = SignedPreKeyId (signed_pre_key_id_raw: u32)
datatype kyber_pre_key_id = KyberPreKeyId (kyber_pre_key_id_raw: u32)
datatype server_key_id = ServerKeyId (server_key_id_raw: u32)
datatype message_number = MessageNumber (message_number_raw: u32)
datatype chain_iteration = ChainIteration (chain_iteration_raw: u32)

definition id_display :: "u32 \<Rightarrow> string" where
  "id_display v = show_nat (unat v)"

text \<open>\<open>define_bytes!\<close>: bytes of any length; \<open>Debug\<close> and \<open>Display\<close> show the length only.\<close>

datatype ed25519_signature = Ed25519Signature (ed25519_signature_bytes: bytes)
datatype kyber_public_key = KyberPublicKey (kyber_public_key_bytes: bytes)
datatype kyber_ciphertext = KyberCiphertext (kyber_ciphertext_bytes: bytes)
datatype ciphertext = Ciphertext (ciphertext_bytes: bytes)
datatype group_id = GroupId (group_id_bytes: bytes)

definition bytes_debug :: "string \<Rightarrow> bytes \<Rightarrow> string" where
  "bytes_debug name raw = name @ ''('' @ show_nat (length raw) @ '' bytes)''"

definition bytes_display :: "string \<Rightarrow> bytes \<Rightarrow> string" where
  "bytes_display name raw = ''<'' @ name @ '' '' @ show_nat (length raw) @ '' bytes>''"

text \<open>A UUID is its 16 bytes.\<close>

type_synonym uuid = bytes

datatype sender_uuid = SenderUuid (sender_uuid_raw: uuid)
datatype timestamp = Timestamp (timestamp_secs: u64)

instantiation timestamp :: linorder
begin

definition less_eq_timestamp :: "timestamp \<Rightarrow> timestamp \<Rightarrow> bool" where
  "less_eq_timestamp a b \<longleftrightarrow> timestamp_secs a \<le> timestamp_secs b"

definition less_timestamp :: "timestamp \<Rightarrow> timestamp \<Rightarrow> bool" where
  "less_timestamp a b \<longleftrightarrow> timestamp_secs a < timestamp_secs b"

instance
  by standard (auto simp: less_eq_timestamp_def less_timestamp_def intro: timestamp.expand)

end

section \<open>Addresses\<close>

record protocol_address =
  user_id :: uuid
  device_id :: device_id

definition address_new :: "uuid \<Rightarrow> device_id \<Rightarrow> protocol_address" where
  "address_new u d = \<lparr>user_id = u, device_id = d\<rparr>"

text \<open>\<open>Display\<close>; the text of a UUID is the \<open>uuid\<close> crate's.\<close>

definition address_display :: "(uuid \<Rightarrow> string) \<Rightarrow> protocol_address \<Rightarrow> string" where
  "address_display show_uuid a =
     show_uuid (user_id a) @ '':'' @ id_display (device_id_raw (device_id a))"

section \<open>Versioned records\<close>

definition MAGIC :: bytes where
  "MAGIC = ascii ''HWCR''"

definition CURRENT_VERSION :: u8 where
  "CURRENT_VERSION = 1"

definition serialize :: "'a codec \<Rightarrow> 'a \<Rightarrow> bytes res" where
  "serialize c v =
     (case enc c v of
        Inl e \<Rightarrow> Inl (from_postcard e)
      | Inr body \<Rightarrow> Inr (MAGIC @ [CURRENT_VERSION] @ body))"

definition deserialize :: "'a codec \<Rightarrow> bytes \<Rightarrow> 'a res" where
  "deserialize c data =
     (if length data < 5 then Inl (Serialization ''data too short'')
      else if take 4 data \<noteq> MAGIC then Inl (Serialization ''invalid magic bytes'')
      else if data ! 4 \<noteq> CURRENT_VERSION
        then Inl (Serialization (''unsupported version: '' @ show_nat (unat (data ! 4))))
      else (case dec c (drop 5 data) of
              Inl e \<Rightarrow> Inl (from_postcard e)
            | Inr v \<Rightarrow> Inr v))"

section \<open>Properties\<close>

lemma is_ok_simps [simp]: "is_ok (Inl e) = False" "is_ok (Inr v) = True"
  by (simp_all add: is_ok_def)

lemma length_MAGIC [simp, len_simps]: "length MAGIC = 4"
  by (simp add: MAGIC_def)

lemma codec_okD: "codec_ok c \<Longrightarrow> enc c x = Inr b \<Longrightarrow> dec c b = Inr x"
  unfolding codec_ok_def by (metis Inr_inject)

lemma codec_ok_enc: "codec_ok c \<Longrightarrow> \<exists>b. enc c x = Inr b"
  unfolding codec_ok_def by blast

lemma deserialize_frame:
  "deserialize c (MAGIC @ [CURRENT_VERSION] @ body) =
     (case dec c body of Inl e \<Rightarrow> Inl (Serialization e) | Inr v \<Rightarrow> Inr v)"
  by (simp add: deserialize_def nth_append from_postcard_def split: sum.splits)

text \<open>A codec that inverts at one value.\<close>

definition codec_inverts :: "'a codec \<Rightarrow> 'a \<Rightarrow> bool" where
  "codec_inverts c x \<longleftrightarrow> (\<exists>b. enc c x = Inr b \<and> dec c b = Inr x)"

lemma codec_ok_inverts: "codec_ok c \<longleftrightarrow> (\<forall>x. codec_inverts c x)"
  by (simp add: codec_ok_def codec_inverts_def)

lemma serialize_total: "codec_ok c \<Longrightarrow> \<exists>b. serialize c v = Inr b"
  using codec_ok_enc [of c v] by (auto simp: serialize_def)

lemma deserialize_serialize: "codec_ok c \<Longrightarrow> serialize c v = Inr b \<Longrightarrow> deserialize c b = Inr v"
  by (auto simp: serialize_def deserialize_frame [simplified] codec_okD split: sum.splits)

lemma deserialize_serialize_at: "codec_inverts c v \<Longrightarrow> \<exists>b. serialize c v = Inr b \<and> deserialize c b = Inr v"
  by (auto simp: serialize_def codec_inverts_def deserialize_frame [simplified])

text \<open>What a successful \<open>deserialize\<close> proves about its input.\<close>

lemma deserialize_accepts:
  assumes "deserialize c data = Inr v"
  shows "\<exists>body. data = MAGIC @ [CURRENT_VERSION] @ body \<and> dec c body = Inr v"
proof -
  from assms have len: "5 \<le> length data" and m: "take 4 data = MAGIC"
    and ver: "data ! 4 = CURRENT_VERSION" and d: "dec c (drop 5 data) = Inr v"
    by (auto simp: deserialize_def split: if_splits sum.splits)
  have "data = take 4 data @ data ! 4 # drop 5 data"
    using len id_take_nth_drop [of 4 data] by simp
  then show ?thesis using m ver d by auto
qed

end
