(* ===== verification/Interfaces.thy ===== *)
theory Interfaces
  imports Foundation
begin

text \<open>
  The interfaces between components, as locales. Each is interpreted in the theory of
  every component that provides it.

  \<^item> \<open>kv_map\<close>: what the code relies on of \<open>HashMap\<close> and \<open>BTreeMap\<close>.
  \<^item> \<open>sym_chain\<close>: a symmetric KDF chain. Its position counts the steps taken, its
    schedule gives the key of every position still ahead.
    \<open>stepped_chain\<close> gives it from a step function.
  \<^item> \<open>key_receiver\<close>: a receiver that accepts messages in any order, yields for each
    what the sender's schedule says, and yields it once.
  \<^item> \<open>sealed_box\<close>: authenticated encryption of one blob under a key and a context.
\<close>

section \<open>Maps\<close>

locale kv_map =
  fixes lookup :: "'m \<Rightarrow> 'k \<Rightarrow> 'v option"
    and insert_kv :: "'k \<Rightarrow> 'v \<Rightarrow> 'm \<Rightarrow> 'm"
    and remove_kv :: "'k \<Rightarrow> 'm \<Rightarrow> 'm"
    and size_kv :: "'m \<Rightarrow> nat"
    and invar :: "'m \<Rightarrow> bool"
  assumes lookup_insert: "invar m \<Longrightarrow> lookup (insert_kv k v m) = (lookup m)(k \<mapsto> v)"
    and lookup_remove: "invar m \<Longrightarrow> lookup (remove_kv k m) = (lookup m)(k := None)"
    and size_dom: "invar m \<Longrightarrow> size_kv m = card (dom (lookup m))"
    and finite_dom: "invar m \<Longrightarrow> finite (dom (lookup m))"
    and invar_insert: "invar m \<Longrightarrow> invar (insert_kv k v m)"
    and invar_remove: "invar m \<Longrightarrow> invar (remove_kv k m)"
begin

lemma size_insert: "invar m \<Longrightarrow> size_kv (insert_kv k v m) \<le> Suc (size_kv m)"
  by (simp add: size_dom lookup_insert invar_insert card_insert_if finite_dom)

lemma size_insert_new:
  "invar m \<Longrightarrow> lookup m k = None \<Longrightarrow> size_kv (insert_kv k v m) = Suc (size_kv m)"
  by (simp add: size_dom lookup_insert invar_insert finite_dom domIff)

lemma size_remove: "invar m \<Longrightarrow> size_kv (remove_kv k m) \<le> size_kv m"
  by (simp add: size_dom lookup_remove invar_remove finite_dom card_Diff1_le)

lemma size_remove_present:
  assumes "invar m" and "lookup m k = Some v"
  shows "Suc (size_kv (remove_kv k m)) = size_kv m"
proof -
  have "k \<in> dom (lookup m)" using assms(2) by auto
  then show ?thesis
    using assms(1) card_Suc_Diff1 [of "dom (lookup m)" k]
    by (simp add: size_dom lookup_remove invar_remove finite_dom)
qed

end

section \<open>Symmetric chains\<close>

locale sym_chain =
  fixes advance :: "'c \<Rightarrow> 'c \<times> 'k"
    and pos :: "'c \<Rightarrow> nat"
    and key :: "'c \<Rightarrow> nat \<Rightarrow> 'k"
    and limit :: nat
  assumes advance_pos: "Suc (pos c) < limit \<Longrightarrow> pos (fst (advance c)) = Suc (pos c)"
    and advance_key: "snd (advance c) = key c (pos c)"
    and advance_later:
      "Suc (pos c) < limit \<Longrightarrow> pos c < n \<Longrightarrow> key (fst (advance c)) n = key c n"
begin

primrec advance_n :: "nat \<Rightarrow> 'c \<Rightarrow> 'c \<times> 'k list" where
  "advance_n 0 c = (c, [])"
| "advance_n (Suc k) c =
     (let (c1, x) = advance c; (c2, xs) = advance_n k c1 in (c2, x # xs))"

text \<open>The keys still ahead, up to the last position the counter can reach.\<close>

definition follows :: "(nat \<Rightarrow> 'k) \<Rightarrow> 'c \<Rightarrow> bool" where
  "follows K c \<longleftrightarrow> (\<forall>n. pos c \<le> n \<and> Suc n < limit \<longrightarrow> key c n = K n)"

lemma followsD: "follows K c \<Longrightarrow> pos c \<le> n \<Longrightarrow> Suc n < limit \<Longrightarrow> key c n = K n"
  by (simp add: follows_def)

lemma follows_self: "follows (key c) c"
  by (simp add: follows_def)

lemma follows_advance:
  assumes "follows K c" and "Suc (pos c) < limit"
  shows "follows K (fst (advance c))" and "snd (advance c) = K (pos c)"
  using assms advance_pos [of c] advance_later [of c]
  by (auto simp: follows_def advance_key)

lemma advance_n_pos: "pos c + k < limit \<Longrightarrow> pos (fst (advance_n k c)) = pos c + k"
  by (induction k arbitrary: c) (auto simp: advance_pos Let_def split_beta)

lemma advance_n_follows:
  "follows K c \<Longrightarrow> pos c + k < limit \<Longrightarrow>
     follows K (fst (advance_n k c)) \<and> snd (advance_n k c) = map K [pos c..<pos c + k]"
proof (induction k arbitrary: c)
  case 0
  then show ?case by simp
next
  case (Suc k)
  have lim: "Suc (pos c) < limit" using Suc.prems(2) by simp
  have f: "follows K (fst (advance c))" and k: "snd (advance c) = K (pos c)"
    using follows_advance [OF Suc.prems(1) lim] by simp_all
  have "pos (fst (advance c)) + k < limit"
    using advance_pos [OF lim] Suc.prems(2) by simp
  from Suc.IH [OF f this] advance_pos [OF lim] k show ?case
    by (simp add: Let_def split_beta upt_rec)
qed

end

text \<open>
  A chain given by a step function and the key it yields at each state: its schedule is the
  key of the iterated step.
\<close>

locale stepped_chain =
  fixes step :: "'c \<Rightarrow> 'c" and out :: "'c \<Rightarrow> 'k" and pos :: "'c \<Rightarrow> nat" and limit :: nat
  assumes step_pos: "Suc (pos c) < limit \<Longrightarrow> pos (step c) = Suc (pos c)"
begin

definition sched :: "'c \<Rightarrow> nat \<Rightarrow> 'k" where
  "sched c n = out ((step ^^ (n - pos c)) c)"

lemma sched_step: "Suc (pos c) < limit \<Longrightarrow> pos c < n \<Longrightarrow> sched (step c) n = sched c n"
proof -
  assume lim: "Suc (pos c) < limit" and n: "pos c < n"
  then have "n - pos c = Suc (n - pos (step c))" by (simp add: step_pos)
  then have "(step ^^ (n - pos c)) c = (step ^^ (n - pos (step c))) (step c)"
    by (simp add: funpow_swap1)
  then show ?thesis by (simp add: sched_def)
qed

end

sublocale stepped_chain \<subseteq> sym_chain "\<lambda>c. (step c, out c)" pos sched limit
  by unfold_locales (simp_all add: step_pos sched_step, simp add: sched_def)

section \<open>Receivers that tolerate reordering\<close>

locale key_receiver =
  fixes recv :: "'s \<Rightarrow> 'm \<Rightarrow> 's \<times> 'r option"
    and idx :: "'m \<Rightarrow> 'i"
    and good :: "('m \<Rightarrow> 'r) \<Rightarrow> 's \<Rightarrow> bool"
    and spent :: "'s \<Rightarrow> 'i \<Rightarrow> bool"
  assumes recv_good: "good K s \<Longrightarrow> good K (fst (recv s m))"
    and recv_result: "good K s \<Longrightarrow> snd (recv s m) = Some r \<Longrightarrow> r = K m"
    and recv_unspent: "good K s \<Longrightarrow> snd (recv s m) = Some r \<Longrightarrow> \<not> spent s (idx m)"
    and recv_spends: "good K s \<Longrightarrow> snd (recv s m) = Some r \<Longrightarrow> spent (fst (recv s m)) (idx m)"
    and spent_stays: "good K s \<Longrightarrow> spent s i \<Longrightarrow> spent (fst (recv s m)) i"
begin

text \<open>The accepted messages of a delivery sequence, with what each yielded.\<close>

primrec deliver :: "'s \<Rightarrow> 'm list \<Rightarrow> ('m \<times> 'r) list" where
  "deliver s [] = []"
| "deliver s (m # ms) =
     (let (s', r) = recv s m in
      (case r of None \<Rightarrow> deliver s' ms | Some x \<Rightarrow> (m, x) # deliver s' ms))"

lemma deliver_sound:
  "good K s \<Longrightarrow> (m, r) \<in> set (deliver s ms) \<Longrightarrow> r = K m"
proof (induction ms arbitrary: s)
  case Nil
  then show ?case by simp
next
  case (Cons a ms)
  have "good K (fst (recv s a))" using Cons.prems(1) by (rule recv_good)
  with Cons show ?case
    by (auto simp: Let_def split_beta split: option.splits dest: recv_result [OF Cons.prems(1)])
qed

lemma deliver_not_spent:
  "good K s \<Longrightarrow> spent s i \<Longrightarrow> (m, r) \<in> set (deliver s ms) \<Longrightarrow> idx m \<noteq> i"
proof (induction ms arbitrary: s)
  case Nil
  then show ?case by simp
next
  case (Cons a ms)
  have g: "good K (fst (recv s a))" using Cons.prems(1) by (rule recv_good)
  have sp: "spent (fst (recv s a)) i" using Cons.prems(1,2) by (rule spent_stays)
  show ?case
    using Cons.prems Cons.IH [OF g sp] recv_unspent [OF Cons.prems(1)]
    by (auto simp: Let_def split_beta split: option.splits)
qed

lemma deliver_once: "good K s \<Longrightarrow> distinct (map (idx \<circ> fst) (deliver s ms))"
proof (induction ms arbitrary: s)
  case Nil
  then show ?case by simp
next
  case (Cons a ms)
  have g: "good K (fst (recv s a))" using Cons.prems(1) by (rule recv_good)
  show ?case
  proof (cases "snd (recv s a)")
    case None
    with Cons.IH [OF g] show ?thesis by (simp add: Let_def split_beta)
  next
    case (Some r)
    have "spent (fst (recv s a)) (idx a)" using Cons.prems(1) Some by (rule recv_spends)
    note fresh = deliver_not_spent [OF g this]
    have "idx a \<notin> (idx \<circ> fst) ` set (deliver (fst (recv s a)) ms)"
    proof
      assume "idx a \<in> (idx \<circ> fst) ` set (deliver (fst (recv s a)) ms)"
      then obtain m x where "(m, x) \<in> set (deliver (fst (recv s a)) ms)" and "idx a = idx m"
        by auto
      with fresh show False by metis
    qed
    with Some Cons.IH [OF g] show ?thesis by (simp add: Let_def split_beta)
  qed
qed

end

section \<open>Authenticated encryption of a blob\<close>

locale sealed_box =
  fixes ok :: "'x \<Rightarrow> bool"
    and seal_box :: "'x \<Rightarrow> 'k \<Rightarrow> 'n \<Rightarrow> bytes \<Rightarrow> 'a \<Rightarrow> bytes res"
    and open_box :: "'x \<Rightarrow> 'k \<Rightarrow> bytes \<Rightarrow> 'a \<Rightarrow> bytes res"
    and nonce_ok :: "'n \<Rightarrow> bool"
  assumes seal_total: "ok X \<Longrightarrow> nonce_ok n \<Longrightarrow> \<exists>c. seal_box X k n p a = Inr c"
    and open_seal: "ok X \<Longrightarrow> nonce_ok n \<Longrightarrow> seal_box X k n p a = Inr c \<Longrightarrow> open_box X k c a = Inr p"
    and open_only_sealed:
      "ok X \<Longrightarrow> open_box X k c a = Inr p \<Longrightarrow> \<exists>n. nonce_ok n \<and> seal_box X k n p a = Inr c"
begin

lemma round_trip:
  assumes "ok X" and "nonce_ok n"
  obtains c where "seal_box X k n p a = Inr c" and "open_box X k c a = Inr p"
  using seal_total [OF assms] open_seal [OF assms] by blast

text \<open>Sealing is injective in the plaintext: one blob never opens to two plaintexts.\<close>

lemma seal_inject:
  assumes "ok X" "nonce_ok n" "nonce_ok n'"
    and "seal_box X k n p a = Inr c" and "seal_box X k n' p' a = Inr c"
  shows "p = p'"
  using open_seal [OF assms(1,2,4)] open_seal [OF assms(1,3,5)] by simp

lemma open_iff_sealed:
  assumes "ok X"
  shows "open_box X k c a = Inr p \<longleftrightarrow> (\<exists>n. nonce_ok n \<and> seal_box X k n p a = Inr c)"
  using open_seal [OF assms] open_only_sealed [OF assms] by blast

end

section \<open>The map interface for \<open>HashMap\<close> and \<open>BTreeMap\<close>\<close>

text \<open>
  A \<open>HashMap\<close> is an association list with distinct keys, in an order the code never
  depends on; a \<open>BTreeMap\<close> is one kept in ascending key order, the order its
  iterators follow.
\<close>

type_synonym ('k, 'v) hashmap = "('k \<times> 'v) list"
type_synonym ('k, 'v) btree = "('k \<times> 'v) list"

fun btree_insert :: "'k::linorder \<Rightarrow> 'v \<Rightarrow> ('k, 'v) btree \<Rightarrow> ('k, 'v) btree" where
  "btree_insert k v [] = [(k, v)]"
| "btree_insert k v ((k', v') # m) =
     (if k < k' then (k, v) # (k', v') # m
      else if k = k' then (k, v) # m
      else (k', v') # btree_insert k v m)"

definition btree_remove :: "'k::linorder \<Rightarrow> ('k, 'v) btree \<Rightarrow> ('k, 'v) btree" where
  "btree_remove k m = filter (\<lambda>(k', _). k' \<noteq> k) m"

definition btree_invar :: "('k::linorder, 'v) btree \<Rightarrow> bool" where
  "btree_invar m \<longleftrightarrow> sorted_wrt (<) (map fst m)"

definition hashmap_invar :: "('k, 'v) hashmap \<Rightarrow> bool" where
  "hashmap_invar m \<longleftrightarrow> distinct (map fst m)"

lemma map_of_btree_insert [simp]:
  "map_of (btree_insert k v m) = (map_of m)(k \<mapsto> v)"
  by (induction k v m rule: btree_insert.induct) (auto simp: fun_eq_iff)

lemma set_btree_insert: "fst ` set (btree_insert k v m) = insert k (fst ` set m)"
  by (induction k v m rule: btree_insert.induct) auto

lemma btree_invar_insert [simp]: "btree_invar m \<Longrightarrow> btree_invar (btree_insert k v m)"
proof (induction k v m rule: btree_insert.induct)
  case (2 k v k' v' m)
  have "k < k' \<Longrightarrow> \<forall>x \<in> fst ` set m. k < x"
    using "2.prems" by (auto simp: btree_invar_def)
  then show ?case
    using 2 set_btree_insert [of k v m] by (auto simp: btree_invar_def)
qed (simp add: btree_invar_def)

lemma map_of_btree_remove [simp]: "map_of (btree_remove k m) = (map_of m)(k := None)"
  by (induction m) (auto simp: btree_remove_def fun_eq_iff)

lemma btree_invar_remove [simp]: "btree_invar m \<Longrightarrow> btree_invar (btree_remove k m)"
  by (induction m) (auto simp: btree_invar_def btree_remove_def)

lemma btree_invar_Nil [simp]: "btree_invar []"
  by (simp add: btree_invar_def)

lemma btree_invar_distinct: "btree_invar m \<Longrightarrow> distinct (map fst m)"
  unfolding btree_invar_def using strict_sorted_iff by blast

lemma hashmap_invar_Nil [simp]: "hashmap_invar []"
  by (simp add: hashmap_invar_def)

lemma length_distinct_alist: "distinct (map fst m) \<Longrightarrow> length m = card (dom (map_of m))"
  by (metis distinct_card dom_map_of_conv_image_fst length_map list.set_map)

interpretation btree_map: kv_map map_of btree_insert btree_remove length btree_invar
  by unfold_locales
    (auto simp: length_distinct_alist btree_invar_distinct finite_dom_map_of)

interpretation hash_map: kv_map map_of AList.update AList.delete length hashmap_invar
  by unfold_locales
    (auto simp: length_distinct_alist hashmap_invar_def finite_dom_map_of update_conv'
      delete_conv' distinct_update distinct_delete)

end
