(* ===== verification/Erasure.thy ===== *)
theory Erasure
  imports Interfaces
begin

text \<open>
  \<open>protocol/braid/erasure.rs\<close>: the streaming erasure code of the braid. The codec itself
  (\<open>reed-solomon-simd\<close>) is external; its law is \<open>rs_ok\<close>. A \<open>&mut self\<close> method
  returns the updated value; \<open>add_chunk\<close> leaves the decoder unchanged when it fails.

  \<open>erasure_fits\<close> collects what the lemmas need of a message length: the codec supports
  its shard counts and every shard index fits the 16-bit index of a codeword.
\<close>

section \<open>Model\<close>

definition CHUNK_BYTES :: nat where
  "CHUNK_BYTES = 32"

definition erasure_err :: "string \<Rightarrow> crypto_error" where
  "erasure_err msg = BraidErasure msg"

definition data_shards_for :: "nat \<Rightarrow> nat" where
  "data_shards_for len = max (div_ceil len CHUNK_BYTES) 1"

definition RECOVERY_MULTIPLE :: nat where
  "RECOVERY_MULTIPLE = 8"

definition MAX_RECOVERY_SHARDS :: nat where
  "MAX_RECOVERY_SHARDS = 1024"

definition recovery_shards_for :: "nat \<Rightarrow> nat" where
  "recovery_shards_for len = min (data_shards_for len * RECOVERY_MULTIPLE) MAX_RECOVERY_SHARDS"

record chunk =
  chunk_index :: u16
  chunk_data :: bytes

record encoder =
  shards :: "bytes list"
  cursor :: nat

text \<open>\<open>chunks_exact\<close>: the full blocks of a slice, a shorter remainder dropped.\<close>

definition chunks_exact :: "nat \<Rightarrow> 'a list \<Rightarrow> 'a list list" where
  "chunks_exact n xs = map (\<lambda>i. take n (drop (i * n) xs)) [0..<length xs div n]"

definition encoder_new :: "ext \<Rightarrow> bytes \<Rightarrow> encoder res" where
  "encoder_new X data =
     (if data = [] then Inl (erasure_err ''cannot encode an empty message'')
      else (let k = data_shards_for (length data);
                padded = resize (k * CHUNK_BYTES) 0 data;
                originals = chunks_exact CHUNK_BYTES padded;
                r = recovery_shards_for (length data)
            in case rs_encode X k r originals of
                 Inl e \<Rightarrow> Inl (erasure_err (''rs encode: '' @ e))
               | Inr recovery \<Rightarrow> Inr \<lparr>shards = originals @ recovery, cursor = 0\<rparr>))"

definition next_chunk :: "encoder \<Rightarrow> encoder \<times> chunk" where
  "next_chunk e =
     (let index = cursor e mod length (shards e)
      in (e\<lparr>cursor := cursor e + 1\<rparr>,
          \<lparr>chunk_index = of_nat index, chunk_data = shards e ! index\<rparr>))"

record decoder =
  dec_len :: nat
  data_shards :: nat
  recovery_shards :: nat
  received :: "(u16, bytes) btree"

definition decoder_new :: "nat \<Rightarrow> decoder" where
  "decoder_new len =
     \<lparr>dec_len = len, data_shards = data_shards_for len,
      recovery_shards = recovery_shards_for len, received = []\<rparr>"

definition total_shards :: "decoder \<Rightarrow> nat" where
  "total_shards d = data_shards d + recovery_shards d"

definition add_chunk :: "decoder \<Rightarrow> chunk \<Rightarrow> decoder res" where
  "add_chunk d c =
     (if length (chunk_data c) \<noteq> CHUNK_BYTES then Inl (erasure_err ''codeword has wrong length'')
      else if unat (chunk_index c) \<ge> total_shards d
        then Inl (erasure_err ''codeword index out of range'')
      else Inr (case map_of (received d) (chunk_index c) of
                  Some _ \<Rightarrow> d
                | None \<Rightarrow> d\<lparr>received := btree_insert (chunk_index c) (chunk_data c) (received d)\<rparr>))"

definition has_message :: "decoder \<Rightarrow> bool" where
  "has_message d \<longleftrightarrow> length (received d) \<ge> data_shards d"

definition decoder_reset :: "decoder \<Rightarrow> decoder" where
  "decoder_reset d = d\<lparr>received := []\<rparr>"

text \<open>The output loop of \<open>message\<close>, over the shard indices still to copy.\<close>

fun gather :: "(u16, bytes) btree \<Rightarrow> (nat \<times> bytes) list \<Rightarrow> nat list \<Rightarrow> bytes res" where
  "gather rcv restored [] = Inr []"
| "gather rcv restored (i # is) =
     (case (case map_of rcv (of_nat i) of
              Some d \<Rightarrow> Inr d
            | None \<Rightarrow> (case map_of restored i of
                         Some d \<Rightarrow> Inr d
                       | None \<Rightarrow> Inl (erasure_err ''reconstruction incomplete''))) of
        Inl e \<Rightarrow> Inl e
      | Inr bs \<Rightarrow> (case gather rcv restored is of Inl e \<Rightarrow> Inl e | Inr rest \<Rightarrow> Inr (bs @ rest)))"

text \<open>The \<open>restored\<close> binding of \<open>message\<close>: the missing data shards, from the codec.\<close>

definition restored_shards :: "ext \<Rightarrow> decoder \<Rightarrow> (nat \<times> bytes) list res" where
  "restored_shards X d =
     (let k = data_shards d
      in if list_all (\<lambda>i. map_of (received d) (of_nat i) \<noteq> None) [0..<unat (of_nat k :: u16)]
         then Inr []
         else (let present = map (\<lambda>(i, v). (unat i, v)) (filter (\<lambda>(i, _). unat i < k) (received d));
                   recovery = map (\<lambda>(i, v). (unat i - k, v)) (filter (\<lambda>(i, _). unat i \<ge> k) (received d))
               in case rs_decode X k (recovery_shards d) present recovery of
                    Inl e \<Rightarrow> Inl (erasure_err (''rs decode: '' @ e))
                  | Inr m \<Rightarrow> Inr m))"

definition decoder_message :: "ext \<Rightarrow> decoder \<Rightarrow> bytes option res" where
  "decoder_message X d =
     (if \<not> has_message d then Inr None
      else (case restored_shards X d of
              Inl e \<Rightarrow> Inl e
            | Inr restored \<Rightarrow>
                (case gather (received d) restored [0..<data_shards d] of
                   Inl e \<Rightarrow> Inl e
                 | Inr out \<Rightarrow> Inr (Some (take (dec_len d) out)))))"

section \<open>Shards of a message\<close>

definition erasure_fits :: "ext \<Rightarrow> nat \<Rightarrow> bool" where
  "erasure_fits X len \<longleftrightarrow>
     0 < len \<and> rs_supports X (data_shards_for len) (recovery_shards_for len) \<and>
     data_shards_for len + recovery_shards_for len \<le> 2 ^ 16"

definition originals_of :: "bytes \<Rightarrow> bytes list" where
  "originals_of data = chunks_exact CHUNK_BYTES (resize (data_shards_for (length data) * CHUNK_BYTES) 0 data)"

text \<open>The codewords of a message, empty when the codec refuses it.\<close>

definition shards_of :: "ext \<Rightarrow> bytes \<Rightarrow> bytes list" where
  "shards_of X data = (case encoder_new X data of Inl _ \<Rightarrow> [] | Inr e \<Rightarrow> shards e)"

lemma data_shards_for_pos [simp]: "0 < data_shards_for n"
  by (simp add: data_shards_for_def)

lemma data_shards_for_ge: "n \<le> data_shards_for n * CHUNK_BYTES"
proof -
  have "n \<le> div_ceil n CHUNK_BYTES * CHUNK_BYTES"
    by (rule div_ceil_mult_ge) (simp add: CHUNK_BYTES_def)
  also have "\<dots> \<le> data_shards_for n * CHUNK_BYTES"
    by (simp add: data_shards_for_def)
  finally show ?thesis .
qed

lemma length_chunks_exact [simp]: "length (chunks_exact n xs) = length xs div n"
  by (simp add: chunks_exact_def)

lemma chunks_exact_nth:
  "i < length xs div n \<Longrightarrow> chunks_exact n xs ! i = take n (drop (i * n) xs)"
  by (simp add: chunks_exact_def)

lemma concat_blocks:
  "concat (map (\<lambda>i. take n (drop (i * n) xs)) [0..<k]) = take (k * n) xs"
proof (induction k)
  case (Suc k)
  have "take (Suc k * n) xs = take (k * n) xs @ take n (drop (k * n) xs)"
    using take_add [of "k * n" n xs] by (simp add: add.commute)
  with Suc show ?case by simp
qed simp

lemma length_originals_of [simp]:
  "length (originals_of data) = data_shards_for (length data)"
  by (simp add: originals_of_def CHUNK_BYTES_def)

lemma originals_of_block:
  "s \<in> set (originals_of data) \<Longrightarrow> length s = CHUNK_BYTES"
proof -
  have "length (take 32 (drop (i * 32) xs)) = 32" if "i < k" "length xs = k * 32"
    for i k and xs :: bytes
  proof -
    have "i * 32 + 32 \<le> k * 32" using that(1) by simp
    then show ?thesis using that(2) by simp
  qed
  then show "s \<in> set (originals_of data) \<Longrightarrow> length s = CHUNK_BYTES"
    by (auto simp: originals_of_def chunks_exact_def CHUNK_BYTES_def)
qed

lemma concat_originals_of:
  "concat (map ((!) (originals_of data)) [0..<data_shards_for (length data)])
     = resize (data_shards_for (length data) * CHUNK_BYTES) 0 data"
proof -
  let ?p = "resize (data_shards_for (length data) * CHUNK_BYTES) 0 data"
  have k: "length ?p div CHUNK_BYTES = data_shards_for (length data)"
    by (simp add: CHUNK_BYTES_def)
  have "map ((!) (originals_of data)) [0..<data_shards_for (length data)]
      = map (\<lambda>i. take CHUNK_BYTES (drop (i * CHUNK_BYTES) ?p)) [0..<data_shards_for (length data)]"
    using chunks_exact_nth [of _ ?p CHUNK_BYTES] k
    by (intro map_cong refl) (auto simp only: originals_of_def atLeastLessThan_iff set_upt)
  then have "concat (map ((!) (originals_of data)) [0..<data_shards_for (length data)])
      = take (data_shards_for (length data) * CHUNK_BYTES) ?p"
    by (simp only: concat_blocks)
  then show ?thesis by simp
qed

lemma rs_okE:
  assumes "rs_ok X" and "rs_supports X k r" and "length os = k" and "\<forall>s \<in> set os. length s = 32"
  obtains rec where "rs_encode X k r os = Inr rec" and "length rec = r"
    and "\<forall>s \<in> set rec. length s = 32"
    and "\<forall>po pr. shards_from po os \<and> shards_from pr rec \<and> length po < k \<and>
           k \<le> length po + length pr \<longrightarrow>
           (\<exists>m. rs_decode X k r po pr = Inr m \<and> (\<forall>i < k. i \<notin> fst ` set po \<longrightarrow> map_of m i = Some (os ! i)))"
proof -
  note law = assms(1) [unfolded rs_ok_def, THEN spec, THEN spec, THEN spec, THEN mp,
      OF conjI [OF assms(2) conjI [OF assms(3,4)]]]
  show thesis using law that by blast
qed

lemma rs_encode_ok:
  assumes "rs_ok X" and "rs_supports X k r" and "length os = k" and "\<forall>s \<in> set os. length s = 32"
  shows "\<exists>rec. rs_encode X k r os = Inr rec \<and> length rec = r \<and> (\<forall>s \<in> set rec. length s = 32)"
  by (rule rs_okE [OF assms]) simp

lemma encoder_new_shards:
  assumes "rs_ok X" and "erasure_fits X (length data)"
  obtains recovery where
    "encoder_new X data = Inr \<lparr>shards = originals_of data @ recovery, cursor = 0\<rparr>"
    and "rs_encode X (data_shards_for (length data)) (recovery_shards_for (length data))
           (originals_of data) = Inr recovery"
    and "length recovery = recovery_shards_for (length data)"
    and "\<forall>s \<in> set recovery. length s = CHUNK_BYTES"
proof -
  let ?k = "data_shards_for (length data)" and ?r = "recovery_shards_for (length data)"
  have sup: "rs_supports X ?k ?r" and ne: "data \<noteq> []"
    using assms(2) by (auto simp: erasure_fits_def)
  have "\<forall>s \<in> set (originals_of data). length s = 32"
    using originals_of_block by (auto simp: CHUNK_BYTES_def)
  from rs_encode_ok [OF assms(1) sup length_originals_of this]
  obtain recovery where enc: "rs_encode X ?k ?r (originals_of data) = Inr recovery"
    and rest: "length recovery = ?r" "\<forall>s \<in> set recovery. length s = CHUNK_BYTES"
    unfolding CHUNK_BYTES_def by blast
  have "encoder_new X data = Inr \<lparr>shards = originals_of data @ recovery, cursor = 0\<rparr>"
    using ne enc by (simp add: encoder_new_def originals_of_def Let_def)
  then show thesis using that enc rest by blast
qed

lemma shards_of_encoder:
  "encoder_new X data = Inr e \<Longrightarrow> shards_of X data = shards e \<and> cursor e = 0"
  by (auto simp: shards_of_def encoder_new_def Let_def split: if_splits sum.splits)

lemma encoder_new_fits:
  assumes "rs_ok X" and "erasure_fits X (length data)"
  shows "encoder_new X data = Inr \<lparr>shards = shards_of X data, cursor = 0\<rparr>"
proof -
  from encoder_new_shards [OF assms] obtain recovery where
    "encoder_new X data = Inr \<lparr>shards = originals_of data @ recovery, cursor = 0\<rparr>" by blast
  then show ?thesis by (simp add: shards_of_def)
qed

lemma shards_of_props:
  assumes "rs_ok X" and "erasure_fits X (length data)"
  shows "length (shards_of X data) = data_shards_for (length data) + recovery_shards_for (length data)"
    and "s \<in> set (shards_of X data) \<Longrightarrow> length s = CHUNK_BYTES"
    and "i < data_shards_for (length data) \<Longrightarrow> shards_of X data ! i = originals_of data ! i"
proof -
  obtain recovery where
    e: "encoder_new X data = Inr \<lparr>shards = originals_of data @ recovery, cursor = 0\<rparr>"
    and "rs_encode X (data_shards_for (length data)) (recovery_shards_for (length data))
           (originals_of data) = Inr recovery"
    and len: "length recovery = recovery_shards_for (length data)"
    and blk: "\<forall>s \<in> set recovery. length s = CHUNK_BYTES"
    by (rule encoder_new_shards [OF assms])
  have sh: "shards_of X data = originals_of data @ recovery"
    using e by (simp add: shards_of_def)
  show "length (shards_of X data) = data_shards_for (length data) + recovery_shards_for (length data)"
    using sh len by simp
  show "s \<in> set (shards_of X data) \<Longrightarrow> length s = CHUNK_BYTES"
    using sh blk originals_of_block by auto
  show "i < data_shards_for (length data) \<Longrightarrow> shards_of X data ! i = originals_of data ! i"
    using sh by (simp add: nth_append)
qed

section \<open>Decoding\<close>

text \<open>A decoder for \<open>data\<close> that holds only genuine codewords of \<open>data\<close>.\<close>

definition collects :: "ext \<Rightarrow> bytes \<Rightarrow> decoder \<Rightarrow> bool" where
  "collects X data d \<longleftrightarrow>
     dec_len d = length data \<and> data_shards d = data_shards_for (length data) \<and>
     recovery_shards d = recovery_shards_for (length data) \<and> btree_invar (received d) \<and>
     (\<forall>(i, v) \<in> set (received d). unat i < length (shards_of X data) \<and> v = shards_of X data ! unat i)"

definition shard_chunk :: "ext \<Rightarrow> bytes \<Rightarrow> nat \<Rightarrow> chunk" where
  "shard_chunk X data i = \<lparr>chunk_index = of_nat i, chunk_data = shards_of X data ! i\<rparr>"

lemma collects_new [simp]: "collects X data (decoder_new (length data))"
  by (simp add: collects_def decoder_new_def)

lemma collects_shape:
  assumes "collects X data d"
  shows "dec_len d = length data" "data_shards d = data_shards_for (length data)"
    "recovery_shards d = recovery_shards_for (length data)" "btree_invar (received d)"
  using assms by (simp_all add: collects_def)

lemma collects_lookup:
  "collects X data d \<Longrightarrow> map_of (received d) i = Some v \<Longrightarrow>
     unat i < length (shards_of X data) \<and> v = shards_of X data ! unat i"
  by (auto simp: collects_def dest: map_of_SomeD)

lemma set_btree_insert_pairs:
  "set (btree_insert k v m) \<subseteq> insert (k, v) (set m)"
  by (induction k v m rule: btree_insert.induct) auto

lemma add_chunk_collects:
  assumes "rs_ok X" and "erasure_fits X (length data)" and "collects X data d"
    and "i < length (shards_of X data)"
  shows "\<exists>d'. add_chunk d (shard_chunk X data i) = Inr d' \<and> collects X data d' \<and>
           fst ` set (received d') = insert (of_nat i) (fst ` set (received d))"
proof -
  note shape = collects_shape [OF assms(3)]
  note sh = shards_of_props [OF assms(1,2)]
  have "length (shards_of X data) \<le> 2 ^ 16"
    using sh(1) assms(2) by (simp add: erasure_fits_def)
  then have i: "unat (of_nat i :: u16) = i"
    using assms(4) by (simp add: unat_of_nat)
  have ok: "length (shards_of X data ! i) = CHUNK_BYTES" "i < total_shards d"
    using sh(2) nth_mem [OF assms(4)] assms(4) sh(1) shape by (auto simp: total_shards_def)
  show ?thesis
  proof (cases "map_of (received d) (of_nat i)")
    case (Some v)
    then have "of_nat i \<in> fst ` set (received d)" by (force dest: map_of_SomeD)
    then show ?thesis using Some ok assms(3) i
      by (auto simp: add_chunk_def shard_chunk_def)
  next
    case None
    let ?d = "d\<lparr>received := btree_insert (of_nat i) (shards_of X data ! i) (received d)\<rparr>"
    have "collects X data ?d"
      using assms(3,4) shape(4) i set_btree_insert_pairs [of "of_nat i" "shards_of X data ! i" "received d"]
      unfolding collects_def by (auto simp: decoder_new_def)
    then show ?thesis using None ok i
      by (auto simp: add_chunk_def shard_chunk_def set_btree_insert)
  qed
qed

lemma gather_shards:
  assumes "\<And>i v. i \<in> set is \<Longrightarrow> map_of rcv (of_nat i) = Some v \<Longrightarrow> v = os ! i"
    and "\<And>i. i \<in> set is \<Longrightarrow> map_of rcv (of_nat i) = None \<Longrightarrow> map_of restored i = Some (os ! i)"
  shows "gather rcv restored is = Inr (concat (map ((!) os) is))"
  using assms by (induction "is") (auto split: option.splits)

abbreviation present_shards :: "nat \<Rightarrow> (u16, bytes) btree \<Rightarrow> (nat \<times> bytes) list" where
  "present_shards k m \<equiv> map (\<lambda>(i, v). (unat i, v)) (filter (\<lambda>(i, _). unat i < k) m)"

abbreviation recovery_part :: "nat \<Rightarrow> (u16, bytes) btree \<Rightarrow> (nat \<times> bytes) list" where
  "recovery_part k m \<equiv> map (\<lambda>(i, v). (unat i - k, v)) (filter (\<lambda>(i, _). unat i \<ge> k) m)"

lemma distinct_fst_map:
  assumes "distinct (map fst m)" and "inj_on f (fst ` set m)"
  shows "distinct (map fst (map (\<lambda>(i, v). (f i, v)) m))"
proof -
  have "map fst (map (\<lambda>(i, v). (f i, v)) m) = map f (map fst m)"
    by (simp add: comp_def case_prod_beta)
  then show ?thesis using assms by (simp only: distinct_map) (simp add: distinct_map)
qed

lemma distinct_filter_fst: "btree_invar m \<Longrightarrow> distinct (map fst (filter P m))"
  by (simp add: distinct_map_filter btree_invar_distinct)

lemma distinct_present: "btree_invar m \<Longrightarrow> distinct (map fst (present_shards k m))"
  by (intro distinct_fst_map distinct_filter_fst) (auto simp: inj_on_def)

lemma distinct_recovery: "btree_invar m \<Longrightarrow> distinct (map fst (recovery_part k m))"
  by (intro distinct_fst_map distinct_filter_fst) (auto simp: inj_on_def eq_diff_iff)

lemma length_partition: "length (present_shards k m) + length (recovery_part k m) = length m"
  by (induction m) auto

lemma fst_present: "fst ` set (present_shards k m) = unat ` {i \<in> fst ` set m. unat i < k}"
  by force

text \<open>With every data shard index below \<open>2 ^ 16\<close>, a missing index leaves fewer than \<open>k\<close> present.\<close>

lemma length_present_less:
  assumes "btree_invar m" and "j < k" and "k \<le> 2 ^ 16" and "map_of m (of_nat j) = None"
  shows "length (present_shards k m) < k"
proof -
  have j: "unat (of_nat j :: u16) = j" using assms(2,3) by (simp add: unat_of_nat)
  have "length (present_shards k m) = card (fst ` set (present_shards k m))"
    using distinct_card [OF distinct_present [OF assms(1), of k]] by (simp only: length_map list.set_map)
  moreover have "fst ` set (present_shards k m) \<subset> {..<k}"
  proof -
    have "j \<notin> fst ` set (present_shards k m)"
      using assms(4) j by (force simp: map_of_eq_None_iff)
    moreover have "fst ` set (present_shards k m) \<subseteq> {..<k}" by auto
    ultimately show ?thesis using assms(2) by blast
  qed
  ultimately show ?thesis using psubset_card_mono [of "{..<k}"] by simp
qed

lemma data_shards_fit: "erasure_fits X n \<Longrightarrow> data_shards_for n < 2 ^ 16"
  by (auto simp: erasure_fits_def recovery_shards_for_def RECOVERY_MULTIPLE_def
      MAX_RECOVERY_SHARDS_def min_def split: if_splits)

lemma shards_from_present:
  assumes "btree_invar m" and "k = length os"
    and "\<And>i v. (i, v) \<in> set m \<Longrightarrow> unat i < k \<Longrightarrow> v = os ! unat i"
  shows "shards_from (present_shards k m) os"
  using assms(2,3) distinct_present [OF assms(1), of k] by (auto simp: shards_from_def)

lemma shards_from_recovery:
  assumes "btree_invar m" and "k = length os"
    and "\<And>i v. (i, v) \<in> set m \<Longrightarrow> unat i < length (os @ rec) \<and> v = (os @ rec) ! unat i"
  shows "shards_from (recovery_part k m) rec"
proof -
  have "unat i - k < length rec \<and> v = rec ! (unat i - k)" if "(i, v) \<in> set m" "k \<le> unat i" for i v
    using assms(2) assms(3) [OF that(1)] that(2) by (auto simp: nth_append)
  then show ?thesis using distinct_recovery [OF assms(1), of k] by (auto simp: shards_from_def)
qed

text \<open>The codec, given genuine codewords, supplies every data shard that is missing.\<close>

lemma restored_shards_collects:
  assumes "rs_ok X" and "erasure_fits X (length data)" and "collects X data d" and "has_message d"
  shows "\<exists>m. restored_shards X d = Inr m \<and>
           (\<forall>i < data_shards_for (length data).
              map_of (received d) (of_nat i) = None \<longrightarrow> map_of m i = Some (originals_of data ! i))"
proof -
  let ?k = "data_shards_for (length data)" and ?r = "recovery_shards_for (length data)"
  let ?m = "received d"
  note shape = collects_shape [OF assms(3)]
  have fits: "?k < 2 ^ 16" and sup: "rs_supports X ?k ?r"
    using assms(2) data_shards_fit by (auto simp: erasure_fits_def)
  show ?thesis
  proof (cases "\<forall>i < ?k. map_of ?m (of_nat i) \<noteq> None")
    case True
    then show ?thesis using fits shape
      by (simp add: restored_shards_def Let_def list_all_iff unat_of_nat_less)
  next
    case False
    then obtain j where j: "j < ?k" "map_of ?m (of_nat j) = None" by auto
    have blocks: "\<forall>s \<in> set (originals_of data). length s = 32"
      using originals_of_block by (auto simp: CHUNK_BYTES_def)
    obtain rec where enc: "rs_encode X ?k ?r (originals_of data) = Inr rec"
      and "length rec = ?r" and "\<forall>s \<in> set rec. length s = 32"
      and law: "\<forall>po pr. shards_from po (originals_of data) \<and> shards_from pr rec \<and> length po < ?k \<and>
           ?k \<le> length po + length pr \<longrightarrow>
           (\<exists>m. rs_decode X ?k ?r po pr = Inr m \<and>
             (\<forall>i < ?k. i \<notin> fst ` set po \<longrightarrow> map_of m i = Some (originals_of data ! i)))"
      by (rule rs_okE [OF assms(1) sup length_originals_of blocks])
    have sh: "shards_of X data = originals_of data @ rec"
      using enc assms(2)
      by (auto simp: shards_of_def encoder_new_def originals_of_def [symmetric] Let_def erasure_fits_def)
    have gen: "unat i < length (originals_of data @ rec) \<and> v = (originals_of data @ rec) ! unat i"
      if "(i, v) \<in> set ?m" for i v
      using that assms(3) sh by (auto simp: collects_def)
    have "shards_from (present_shards ?k ?m) (originals_of data)"
      using gen by (intro shards_from_present shape) (fastforce simp: nth_append)+
    moreover have "shards_from (recovery_part ?k ?m) rec"
      using gen by (intro shards_from_recovery shape) auto
    moreover have "length (present_shards ?k ?m) < ?k"
      using length_present_less [OF shape(4) j(1) _ j(2)] fits by simp
    moreover have "?k \<le> length (present_shards ?k ?m) + length (recovery_part ?k ?m)"
      using assms(4) shape by (simp only: length_partition has_message_def)
    ultimately obtain m where m: "rs_decode X ?k ?r (present_shards ?k ?m) (recovery_part ?k ?m) = Inr m"
      "\<forall>i < ?k. i \<notin> fst ` set (present_shards ?k ?m) \<longrightarrow> map_of m i = Some (originals_of data ! i)"
      using law by metis
    have "i \<notin> fst ` set (present_shards ?k ?m)" if "i < ?k" "map_of ?m (of_nat i) = None" for i
      using that fits by (force simp: map_of_eq_None_iff unat_of_nat_less)
    moreover have "restored_shards X d = Inr m"
    proof -
      have "\<not> list_all (\<lambda>i. map_of ?m (of_nat i) \<noteq> None) [0..<unat (of_nat ?k :: u16)]"
        using j fits by (auto simp: list_all_iff unat_of_nat_less intro!: bexI [of _ j])
      then show ?thesis using m(1) shape by (simp add: restored_shards_def Let_def)
    qed
    ultimately show ?thesis using m(2) by blast
  qed
qed

lemma decoder_message_collects:
  assumes "rs_ok X" and "erasure_fits X (length data)" and "collects X data d"
  shows "decoder_message X d = Inr (if has_message d then Some data else None)"
proof (cases "has_message d")
  case False
  then show ?thesis by (simp add: decoder_message_def)
next
  case True
  let ?k = "data_shards_for (length data)"
  note shape = collects_shape [OF assms(3)]
  from restored_shards_collects [OF assms True] obtain m where m: "restored_shards X d = Inr m"
    and rest: "\<forall>i < ?k. map_of (received d) (of_nat i) = None \<longrightarrow> map_of m i = Some (originals_of data ! i)"
    by blast
  have "v = originals_of data ! i" if "i < ?k" "map_of (received d) (of_nat i) = Some v" for i v
    using collects_lookup [OF assms(3) that(2)] that(1) data_shards_fit [OF assms(2)]
      shards_of_props(3) [OF assms(1,2) that(1)] by (simp add: unat_of_nat_less)
  then have "gather (received d) m [0..<?k] = Inr (concat (map ((!) (originals_of data)) [0..<?k]))"
    using rest by (intro gather_shards) auto
  then show ?thesis
    using m True shape data_shards_for_ge [of "length data"]
    by (simp add: decoder_message_def concat_originals_of resize_def)
qed

section \<open>Streams\<close>

text \<open>The first \<open>n\<close> codewords an encoder emits, and a decoder fed a list of codewords.\<close>

primrec emit :: "nat \<Rightarrow> encoder \<Rightarrow> chunk list" where
  "emit 0 e = []"
| "emit (Suc n) e = (let (e', c) = next_chunk e in c # emit n e')"

fun add_chunks :: "decoder \<Rightarrow> chunk list \<Rightarrow> decoder res" where
  "add_chunks d [] = Inr d"
| "add_chunks d (c # cs) = (case add_chunk d c of Inl e \<Rightarrow> Inl e | Inr d' \<Rightarrow> add_chunks d' cs)"

lemma emit_conv:
  "emit n e = map (\<lambda>j. let i = (cursor e + j) mod length (shards e) in
                    \<lparr>chunk_index = of_nat i, chunk_data = shards e ! i\<rparr>) [0..<n]"
proof (induction n arbitrary: e)
  case (Suc n)
  have "[0..<Suc n] = 0 # map Suc [0..<n]" by (metis map_Suc_upt upt_conv_Cons zero_less_Suc)
  with Suc show ?case by (simp add: next_chunk_def Let_def)
qed simp

lemma length_emit [simp]: "length (emit n e) = n"
  by (simp add: emit_conv)

lemma add_chunks_collects:
  assumes "rs_ok X" and "erasure_fits X (length data)"
  shows "collects X data d \<Longrightarrow> \<forall>c \<in> set cs. \<exists>i < length (shards_of X data). c = shard_chunk X data i \<Longrightarrow>
    \<exists>d'. add_chunks d cs = Inr d' \<and> collects X data d' \<and>
      fst ` set (received d') = fst ` set (received d) \<union> chunk_index ` set cs"
proof (induction cs arbitrary: d)
  case (Cons c cs)
  then obtain i where i: "i < length (shards_of X data)" "c = shard_chunk X data i" by auto
  from add_chunk_collects [OF assms Cons.prems(1) i(1)] obtain d1 where
    d1: "add_chunk d c = Inr d1" "collects X data d1"
    "fst ` set (received d1) = insert (of_nat i) (fst ` set (received d))"
    using i(2) by auto
  with Cons.IH [OF d1(2)] Cons.prems(2) i(2) show ?case by (auto simp: shard_chunk_def)
qed simp

lemma has_message_card:
  "btree_invar (received d) \<Longrightarrow> has_message d \<longleftrightarrow> data_shards d \<le> card (fst ` set (received d))"
  using distinct_card [OF btree_invar_distinct, of "received d"] by (simp add: has_message_def)

lemma emit_shard_chunk:
  assumes "encoder_new X data = Inr e" and "0 < length (shards e)" and "c \<in> set (emit n (e\<lparr>cursor := p\<rparr>))"
  shows "\<exists>i < length (shards_of X data). c = shard_chunk X data i"
proof -
  obtain j where c: "c = \<lparr>chunk_index = of_nat ((p + j) mod length (shards e)),
      chunk_data = shards e ! ((p + j) mod length (shards e))\<rparr>"
    using assms(3) by (auto simp: emit_conv Let_def)
  then show ?thesis
    using shards_of_encoder [OF assms(1)] assms(2)
    by (intro exI [of _ "(p + j) mod length (shards e)"]) (simp add: shard_chunk_def)
qed

lemma erasure_recovery_helper:
  assumes "rs_ok X" and "erasure_fits X (length data)"
    and "encoder_new X data = Inr e" and "set cs \<subseteq> set (emit n (e\<lparr>cursor := p\<rparr>))"
  shows "\<exists>d. add_chunks (decoder_new (length data)) cs = Inr d \<and>
           decoder_message X d =
             Inr (if data_shards_for (length data) \<le> card (chunk_index ` set cs) then Some data else None)"
proof -
  have "0 < length (shards e)"
    using shards_of_props(1) [OF assms(1,2)] shards_of_encoder [OF assms(3)] by simp
  then have "\<forall>c \<in> set cs. \<exists>i < length (shards_of X data). c = shard_chunk X data i"
    using emit_shard_chunk [OF assms(3)] assms(4) by blast
  from add_chunks_collects [OF assms(1,2) collects_new this] obtain d where
    d: "add_chunks (decoder_new (length data)) cs = Inr d" "collects X data d"
    "fst ` set (received d) = chunk_index ` set cs"
    by (auto simp: decoder_new_def)
  then show ?thesis
    using decoder_message_collects [OF assms(1,2) d(2)] collects_shape [OF d(2)]
    by (simp add: has_message_card)
qed

lemma mod_shift_inj: "inj_on (\<lambda>j. (p + j) mod N) {..<N :: nat}"
proof -
  have "a = b" if "a \<le> b" "b < N" "(p + a) mod N = (p + b) mod N" for a b
  proof -
    have "N dvd (p + b) - (p + a)" using that mod_eq_dvd_iff_nat [of "p + a" "p + b" N] by simp
    then show ?thesis using that by (auto dest!: dvd_imp_le)
  qed
  note le = this
  show ?thesis
  proof (rule inj_onI)
    fix a b assume "a \<in> {..<N}" "b \<in> {..<N}" "(p + a) mod N = (p + b) mod N"
    then show "a = b" using le [of a b] le [of b a] by (cases "a \<le> b") auto
  qed
qed

lemma distinct_emit:
  assumes "n \<le> length (shards e)" and "length (shards e) \<le> 2 ^ 16"
  shows "distinct (map chunk_index (emit n e))"
proof -
  let ?N = "length (shards e)"
  have "inj_on (\<lambda>j. of_nat ((cursor e + j) mod ?N) :: u16) {..<?N}"
  proof (rule inj_onI)
    fix a b assume ab: "a \<in> {..<?N}" "b \<in> {..<?N}"
      and eq: "(of_nat ((cursor e + a) mod ?N) :: u16) = of_nat ((cursor e + b) mod ?N)"
    have "0 < ?N" using ab by auto
    then have "(cursor e + j) mod ?N < 2 ^ LENGTH(16)" for j
      using assms(2) mod_less_divisor [of ?N "cursor e + j"] by (simp del: mod_less_divisor)
    then have "(cursor e + a) mod ?N = (cursor e + b) mod ?N"
      using arg_cong [OF eq, of unat] by (simp add: unat_of_nat_less)
    then show "a = b" using mod_shift_inj [of "cursor e" ?N] ab by (simp add: inj_on_def)
  qed
  then have "inj_on (\<lambda>j. of_nat ((cursor e + j) mod ?N) :: u16) (set [0..<n])"
    using assms(1) by (auto elim: inj_on_subset)
  then show ?thesis by (simp add: emit_conv distinct_map comp_def Let_def inj_on_def)
qed

section \<open>Properties\<close>

text \<open>
  C40. Erasure recovery. Take the codewords of a message from any stretch of the encoder's
  stream and deliver any of them, in any order and with any repetitions: the decoder
  accepts them all, returns exactly the message once it holds as many distinct codewords
  as there are data shards, and returns nothing before that.
\<close>

theorem erasure_recovery:
  assumes "rs_ok X" and "erasure_fits X (length data)"
    and "encoder_new X data = Inr e" and "set cs \<subseteq> set (emit n (e\<lparr>cursor := p\<rparr>))"
  shows "\<exists>d. add_chunks (decoder_new (length data)) cs = Inr d \<and>
           decoder_message X d =
             Inr (if data_shards_for (length data) \<le> card (chunk_index ` set cs) then Some data else None)"
  using assms by (rule erasure_recovery_helper)

theorem erasure_recovery_witness:
  "\<exists>e d. encoder_new demo_ext [1, 2, 3] = Inr e \<and>
     add_chunks (decoder_new (length [1, 2, 3 :: u8])) [emit 9 e ! 4] = Inr d \<and> decoder_message demo_ext d = Inr (Some [1, 2, 3])"
proof -
  have fit: "erasure_fits demo_ext (length [1, 2, 3 :: u8])"
    by (simp add: erasure_fits_def demo_ext_def data_shards_for_def recovery_shards_for_def
        div_ceil_def CHUNK_BYTES_def RECOVERY_MULTIPLE_def MAX_RECOVERY_SHARDS_def)
  obtain e where e: "encoder_new demo_ext [1, 2, 3] = Inr e"
    using encoder_new_fits [OF demo_rs fit] by blast
  then have "e\<lparr>cursor := 0\<rparr> = e" using shards_of_encoder [OF e] by simp
  then have "set [emit 9 e ! 4] \<subseteq> set (emit 9 (e\<lparr>cursor := 0\<rparr>))" by (simp add: emit_conv)
  from erasure_recovery [OF demo_rs fit e this] show ?thesis
    using e by (simp add: data_shards_for_def div_ceil_def CHUNK_BYTES_def)
qed

text \<open>
  No re-sends before the pool is exhausted. From any point of its stream, an encoder
  emits pairwise distinct codewords for as many steps as it has data and recovery shards
  together: so any window of data-shard-count codewords, from a stream that has started
  long before, completes a decoder.
\<close>

theorem erasure_window:
  assumes "rs_ok X" and "erasure_fits X (length data)" and "encoder_new X data = Inr e"
  shows "distinct (map chunk_index
           (emit (data_shards_for (length data) + recovery_shards_for (length data)) (e\<lparr>cursor := p\<rparr>))) \<and>
         (\<exists>d. add_chunks (decoder_new (length data))
                (emit (data_shards_for (length data)) (e\<lparr>cursor := p\<rparr>)) = Inr d \<and>
              decoder_message X d = Inr (Some data))"
proof -
  let ?k = "data_shards_for (length data)" and ?e = "e\<lparr>cursor := p\<rparr>"
  let ?n = "?k + recovery_shards_for (length data)"
  have "length (shards e) = ?n" "?n \<le> 2 ^ 16"
    using shards_of_props(1) [OF assms(1,2)] shards_of_encoder [OF assms(3)] assms(2)
    by (simp_all add: erasure_fits_def)
  then have dist: "distinct (map chunk_index (emit n ?e))" if "n \<le> ?n" for n
    using distinct_emit [of n ?e] that by simp
  have "card (chunk_index ` set (emit ?k ?e)) = ?k"
    using distinct_card [OF dist [of ?k]] by (simp add: length_emit)
  with erasure_recovery_helper [OF assms subset_refl, of ?k p] dist [of ?n] show ?thesis by simp
qed

theorem erasure_window_witness:
  "\<exists>e. encoder_new demo_ext [1, 2, 3] = Inr e \<and> distinct (map chunk_index (emit 9 (e\<lparr>cursor := 5\<rparr>)))"
proof -
  have fit: "erasure_fits demo_ext (length [1, 2, 3 :: u8])"
    by (simp add: erasure_fits_def demo_ext_def data_shards_for_def recovery_shards_for_def
        div_ceil_def CHUNK_BYTES_def RECOVERY_MULTIPLE_def MAX_RECOVERY_SHARDS_def)
  obtain e where e: "encoder_new demo_ext [1, 2, 3] = Inr e"
    using encoder_new_fits [OF demo_rs fit] by blast
  with erasure_window [OF demo_rs fit e, of 5] show ?thesis
    by (simp add: data_shards_for_def recovery_shards_for_def div_ceil_def CHUNK_BYTES_def
        RECOVERY_MULTIPLE_def MAX_RECOVERY_SHARDS_def)
qed

end
