(* ===== verification/Braid_Kem.thy ===== *)
theory Braid_Kem
  imports Foundation
begin

text \<open>
  \<open>protocol/braid/kem.rs\<close>: the size-checked wrapper over the external incremental
  ML-KEM-768. Key pairs, encapsulation states and ciphertext parts are byte strings whose
  declared lengths are parameters of the interface.
\<close>

definition SEED_LEN :: nat where
  "SEED_LEN = 64"

definition ENCAPS_RANDOMNESS_LEN :: nat where
  "ENCAPS_RANDOMNESS_LEN = 32"

definition SHARED_SECRET_LEN :: nat where
  "SHARED_SECRET_LEN = 32"

definition kem_err :: "string \<Rightarrow> crypto_error" where
  "kem_err e = BraidKem e"

definition size_err :: "string \<Rightarrow> crypto_error" where
  "size_err what = BraidKem (''wrong byte length for '' @ what)"

definition pk1_len :: "ext \<Rightarrow> nat" where
  "pk1_len X = kem_pk1_len X"

definition pk2_len :: "ext \<Rightarrow> nat" where
  "pk2_len X = kem_pk2_len X"

definition ct1_len :: "ext \<Rightarrow> nat" where
  "ct1_len X = kem_ct1_len X"

definition ct2_len :: "ext \<Rightarrow> nat" where
  "ct2_len X = kem_ct2_len X"

definition generate_keypair :: "ext \<Rightarrow> bytes \<Rightarrow> bytes" where
  "generate_keypair X seed = kem_from_seed X seed"

definition public_key_parts :: "ext \<Rightarrow> bytes \<Rightarrow> (bytes \<times> bytes) res" where
  "public_key_parts X keypair =
     (if length keypair \<noteq> kem_kp_len X then Inl (size_err ''keypair'')
      else Inr (kem_pk1 X keypair, kem_pk2 X keypair))"

definition validate_public_key :: "ext \<Rightarrow> bytes \<Rightarrow> bytes \<Rightarrow> unit res" where
  "validate_public_key X pk1 pk2 =
     (case kem_validate X pk1 pk2 of Inl e \<Rightarrow> Inl (kem_err e) | Inr _ \<Rightarrow> Inr ())"

definition encapsulate1 :: "ext \<Rightarrow> bytes \<Rightarrow> bytes \<Rightarrow> (bytes \<times> bytes \<times> bytes) res" where
  "encapsulate1 X pk1 randomness =
     (case kem_encaps1 X pk1 randomness of Inl e \<Rightarrow> Inl (kem_err e) | Inr out \<Rightarrow> Inr out)"

definition encapsulate2 :: "ext \<Rightarrow> bytes \<Rightarrow> bytes \<Rightarrow> bytes res" where
  "encapsulate2 X st pk2 =
     (if length st \<noteq> kem_state_len X then Inl (size_err ''encaps state'')
      else if length pk2 \<noteq> kem_pk2_len X then Inl (size_err ''pk2'')
      else Inr (kem_encaps2 X st pk2))"

definition decapsulate :: "ext \<Rightarrow> bytes \<Rightarrow> bytes \<Rightarrow> bytes \<Rightarrow> bytes res" where
  "decapsulate X keypair ct1 ct2 =
     (if length ct1 \<noteq> kem_ct1_len X then Inl (size_err ''ct1'')
      else if length ct2 \<noteq> kem_ct2_len X then Inl (size_err ''ct2'')
      else (case kem_decaps X keypair ct1 ct2 of Inl e \<Rightarrow> Inl (kem_err e) | Inr ss \<Rightarrow> Inr ss))"

section \<open>An honest exchange\<close>

lemma kem_okD:
  assumes "kem_ok X" and "length seed = SEED_LEN"
  defines "kp \<equiv> generate_keypair X seed"
  shows "public_key_parts X kp = Inr (kem_pk1 X kp, kem_pk2 X kp)"
    and "length (kem_pk1 X kp) = pk1_len X" and "length (kem_pk2 X kp) = pk2_len X"
    and "validate_public_key X (kem_pk1 X kp) (kem_pk2 X kp) = Inr ()"
  using assms
  by (simp_all add: kem_ok_def SEED_LEN_def generate_keypair_def public_key_parts_def pk1_len_def
      pk2_len_def validate_public_key_def Let_def)

lemma kem_lengths_pos:
  assumes "kem_ok X" shows "0 < pk2_len X" and "0 < ct1_len X"
  using assms by (simp_all add: kem_ok_def pk2_len_def ct1_len_def Let_def)

lemma kem_encapsulates:
  assumes "kem_ok X" and "length seed = SEED_LEN" and "length r = ENCAPS_RANDOMNESS_LEN"
  defines "kp \<equiv> generate_keypair X seed"
  shows "\<exists>ct1 st ss ct2. encapsulate1 X (kem_pk1 X kp) r = Inr (ct1, st, ss) \<and>
           length ct1 = ct1_len X \<and> length ss = SHARED_SECRET_LEN \<and>
           encapsulate2 X st (kem_pk2 X kp) = Inr ct2 \<and> length ct2 = ct2_len X \<and>
           decapsulate X kp ct1 ct2 = Inr ss"
proof -
  from assms obtain ct1 st ss where "kem_encaps1 X (kem_pk1 X kp) r = Inr (ct1, st, ss)"
    "length ct1 = kem_ct1_len X" "length st = kem_state_len X" "length ss = 32"
    "length (kem_encaps2 X st (kem_pk2 X kp)) = kem_ct2_len X"
    "kem_decaps X kp ct1 (kem_encaps2 X st (kem_pk2 X kp)) = Inr ss"
    "length (kem_pk2 X kp) = kem_pk2_len X"
    unfolding kem_ok_def Let_def SEED_LEN_def ENCAPS_RANDOMNESS_LEN_def generate_keypair_def by metis
  then show ?thesis
    by (simp add: encapsulate1_def encapsulate2_def decapsulate_def ct1_len_def ct2_len_def
        SHARED_SECRET_LEN_def)
qed

end
