(* ===== verification/Kdf.thy ===== *)
theory Kdf
  imports Foundation
begin

text \<open>
  \<open>primitives/kdf.rs\<close>: the key derivation functions of the Double Ratchet, of the sparse
  post-quantum ratchet (SPQR) and of the hybrid combiner.

  \<open>hkdf_sha256\<close> panics beyond 8160 bytes; every caller in the crate passes a constant
  length below that, so the callers use \<open>hkdf_okm\<close>, the value it returns there
  (\<open>hkdf_sha256_okm\<close>). Copying a slice into an array is \<open>take\<close> and \<open>drop\<close>.
\<close>

section \<open>Outputs\<close>

record root_key_output =
  rk_root_key :: root_key
  rk_chain_key :: chain_key

record chain_key_output =
  ck_chain_key :: chain_key
  ck_message_key :: message_key

record scka_chains =
  scka_root_key :: root_key
  scka_chain_key_0 :: chain_key
  scka_chain_key_1 :: chain_key

section \<open>Functions\<close>

definition kdf_rk :: "ext \<Rightarrow> root_key \<Rightarrow> bytes \<Rightarrow> root_key_output" where
  "kdf_rk X rk dh_output =
     (let okm = hkdf X (Some (root_key_bytes rk)) dh_output (ascii ''HushwireRatchet'') 64
      in \<lparr>rk_root_key = RootKey (take 32 okm), rk_chain_key = ChainKey (take 32 (drop 32 okm))\<rparr>)"

definition kdf_ck :: "ext \<Rightarrow> chain_key \<Rightarrow> chain_key_output" where
  "kdf_ck X ck =
     (let mk = hmac X (chain_key_bytes ck) [0x01];
          new_ck = hmac X (chain_key_bytes ck) [0x02]
      in \<lparr>ck_chain_key = ChainKey new_ck, ck_message_key = MessageKey mk\<rparr>)"

definition hkdf_sha256 :: "ext \<Rightarrow> bytes \<Rightarrow> bytes option \<Rightarrow> bytes \<Rightarrow> nat \<Rightarrow> bytes res" where
  "hkdf_sha256 X ikm salt info output_len =
     (if output_len \<le> 255 * 32 then Inr (hkdf X salt ikm info output_len)
      else Inl (Panic ''requested HKDF output length is valid''))"

definition hkdf_okm :: "ext \<Rightarrow> bytes \<Rightarrow> bytes option \<Rightarrow> bytes \<Rightarrow> nat \<Rightarrow> bytes" where
  "hkdf_okm X ikm salt info output_len = hkdf X salt ikm info output_len"

definition SPQR_PROTOCOL_INFO :: bytes where
  "SPQR_PROTOCOL_INFO = ascii ''HushwireSPQR''"

definition TR_PROTOCOL_INFO :: bytes where
  "TR_PROTOCOL_INFO = ascii ''HushwireTripleRatchet''"

definition split_scka_chains :: "bytes \<Rightarrow> scka_chains" where
  "split_scka_chains okm =
     \<lparr>scka_root_key = RootKey (take 32 okm),
      scka_chain_key_0 = ChainKey (take 32 (drop 32 okm)),
      scka_chain_key_1 = ChainKey (take 32 (drop 64 okm))\<rparr>"

definition kdf_scka_init :: "ext \<Rightarrow> bytes \<Rightarrow> scka_chains" where
  "kdf_scka_init X sk =
     (let info = SPQR_PROTOCOL_INFO @ ascii ''Chain Start'';
          okm = hkdf_okm X sk (Some (zeros 32)) info 96
      in split_scka_chains okm)"

definition kdf_scka_rk :: "ext \<Rightarrow> root_key \<Rightarrow> bytes \<Rightarrow> scka_chains" where
  "kdf_scka_rk X rk scka_output =
     (let info = SPQR_PROTOCOL_INFO @ ascii ''Chain Add Epoch'';
          okm = hkdf_okm X scka_output (Some (root_key_bytes rk)) info 96
      in split_scka_chains okm)"

definition kdf_scka_ck :: "ext \<Rightarrow> chain_key \<Rightarrow> u32 \<Rightarrow> chain_key_output" where
  "kdf_scka_ck X ck ctr =
     (let info = SPQR_PROTOCOL_INFO @ ascii '':Chain Step'';
          okm = hkdf_okm X (u32_be ctr) (Some (chain_key_bytes ck)) info 64
      in \<lparr>ck_chain_key = ChainKey (take 32 okm), ck_message_key = MessageKey (take 32 (drop 32 okm))\<rparr>)"

definition kdf_hybrid :: "ext \<Rightarrow> message_key \<Rightarrow> bytes \<Rightarrow> message_key" where
  "kdf_hybrid X ec_mk pq_mk =
     MessageKey (hkdf_okm X (message_key_bytes ec_mk) (Some pq_mk) TR_PROTOCOL_INFO 32)"

section \<open>Lemmas\<close>

lemma hash_lensD [len_simps]:
  assumes "hash_lens X"
  shows "n \<le> 255 * 32 \<Longrightarrow> length (hkdf X salt ikm info n) = n"
    and "length (hmac X k m) = 32"
    and "length (sha256 X m) = 32"
    and "length (sha512 X m) = 64"
  using assms by (simp_all add: hash_lens_def)

lemma hkdf_sha256_okm:
  "n \<le> 255 * 32 \<Longrightarrow> hkdf_sha256 X ikm salt info n = Inr (hkdf_okm X ikm salt info n)"
  by (simp add: hkdf_sha256_def hkdf_okm_def)

text \<open>Every derived key has the 32 bytes its array type promises.\<close>

lemma kdf_key_lengths:
  assumes "hash_lens X"
  shows "length (root_key_bytes (rk_root_key (kdf_rk X rk dh))) = 32"
    and "length (chain_key_bytes (rk_chain_key (kdf_rk X rk dh))) = 32"
    and "length (message_key_bytes (ck_message_key (kdf_ck X ck))) = 32"
    and "length (chain_key_bytes (ck_chain_key (kdf_ck X ck))) = 32"
    and "length (message_key_bytes (kdf_hybrid X mk pq)) = 32"
    and "length (message_key_bytes (ck_message_key (kdf_scka_ck X ck n))) = 32"
    and "length (chain_key_bytes (ck_chain_key (kdf_scka_ck X ck n))) = 32"
  using assms
  by (simp_all add: kdf_rk_def kdf_ck_def kdf_hybrid_def kdf_scka_ck_def hkdf_okm_def Let_def hash_lensD)

lemma split_scka_chains_lengths:
  assumes "96 \<le> length okm"
  shows "length (root_key_bytes (scka_root_key (split_scka_chains okm))) = 32"
    and "length (chain_key_bytes (scka_chain_key_0 (split_scka_chains okm))) = 32"
    and "length (chain_key_bytes (scka_chain_key_1 (split_scka_chains okm))) = 32"
  using assms by (simp_all add: split_scka_chains_def)

end
