(* ===== verification/Braid_Auth.thy ===== *)
theory Braid_Auth
  imports Kdf
begin

text \<open>
  \<open>protocol/braid/auth.rs\<close>: the epoch key derivation \<open>kdf_ok\<close> and the authenticator, a
  pair of keys ratcheted by every epoch's secret, that MACs headers and ciphertexts.
  The three streamed \<open>update\<close> calls of the MAC hash the concatenation of their inputs.
\<close>

definition PROTOCOL_INFO :: bytes where
  "PROTOCOL_INFO = ascii ''HushwireBraid_MLKEM768_SHA-256''"

definition KEY_LEN :: nat where
  "KEY_LEN = 32"

definition epoch_bytes :: "u64 \<Rightarrow> bytes" where
  "epoch_bytes epoch = u64_be epoch"

definition kdf_ok :: "ext \<Rightarrow> bytes \<Rightarrow> u64 \<Rightarrow> bytes" where
  "kdf_ok X ss epoch =
     (let salt = zeros KEY_LEN;
          info = PROTOCOL_INFO @ ascii '':SCKA Key'' @ epoch_bytes epoch
      in hkdf_okm X ss (Some salt) info KEY_LEN)"

definition kdf_auth :: "ext \<Rightarrow> bytes \<Rightarrow> bytes \<Rightarrow> u64 \<Rightarrow> bytes \<times> bytes" where
  "kdf_auth X rk update_key epoch =
     (let info = PROTOCOL_INFO @ ascii '':Authenticator Update'' @ epoch_bytes epoch;
          okm = hkdf_okm X update_key (Some rk) info (2 * KEY_LEN)
      in (take KEY_LEN okm, drop KEY_LEN okm))"

record authenticator =
  auth_root_key :: bytes
  auth_mac_key :: bytes

definition auth_update :: "ext \<Rightarrow> u64 \<Rightarrow> bytes \<Rightarrow> authenticator \<Rightarrow> authenticator" where
  "auth_update X epoch key a =
     (let (root, mac) = kdf_auth X (auth_root_key a) key epoch
      in a\<lparr>auth_root_key := root, auth_mac_key := mac\<rparr>)"

definition auth_init :: "ext \<Rightarrow> u64 \<Rightarrow> bytes \<Rightarrow> authenticator" where
  "auth_init X epoch key =
     auth_update X epoch key \<lparr>auth_root_key = zeros KEY_LEN, auth_mac_key = zeros KEY_LEN\<rparr>"

definition auth_mac :: "ext \<Rightarrow> authenticator \<Rightarrow> bytes \<Rightarrow> u64 \<Rightarrow> bytes \<Rightarrow> bytes" where
  "auth_mac X a label epoch data =
     hmac X (auth_mac_key a) (PROTOCOL_INFO @ label @ epoch_bytes epoch @ data)"

definition mac_hdr :: "ext \<Rightarrow> authenticator \<Rightarrow> u64 \<Rightarrow> bytes \<Rightarrow> bytes" where
  "mac_hdr X a epoch hdr = auth_mac X a (ascii '':ekheader'') epoch hdr"

definition mac_ct :: "ext \<Rightarrow> authenticator \<Rightarrow> u64 \<Rightarrow> bytes \<Rightarrow> bytes" where
  "mac_ct X a epoch ct = auth_mac X a (ascii '':ciphertext'') epoch ct"

text \<open>The private \<open>verify\<close> of the module.\<close>

definition mac_verify :: "bytes \<Rightarrow> bytes \<Rightarrow> unit res" where
  "mac_verify computed expected =
     (if length expected \<noteq> 32 then Inl (BraidKem ''MAC has wrong length'')
      else if computed = expected then Inr ()
      else Inl InvalidSignature)"

definition vfy_hdr :: "ext \<Rightarrow> authenticator \<Rightarrow> u64 \<Rightarrow> bytes \<Rightarrow> bytes \<Rightarrow> unit res" where
  "vfy_hdr X a epoch hdr expected = mac_verify (mac_hdr X a epoch hdr) expected"

definition vfy_ct :: "ext \<Rightarrow> authenticator \<Rightarrow> u64 \<Rightarrow> bytes \<Rightarrow> bytes \<Rightarrow> unit res" where
  "vfy_ct X a epoch ct expected = mac_verify (mac_ct X a epoch ct) expected"

section \<open>Lemmas\<close>

lemma mac_verify_ok: "mac_verify m e = Inr u \<longleftrightarrow> length e = 32 \<and> m = e"
  by (simp add: mac_verify_def)

lemma length_mac_hdr [len_simps]: "hash_lens X \<Longrightarrow> length (mac_hdr X a e h) = 32"
  by (simp add: mac_hdr_def auth_mac_def hash_lensD)

lemma length_mac_ct [len_simps]: "hash_lens X \<Longrightarrow> length (mac_ct X a e c) = 32"
  by (simp add: mac_ct_def auth_mac_def hash_lensD)

lemma vfy_hdr_mac: "hash_lens X \<Longrightarrow> vfy_hdr X a e h (mac_hdr X a e h) = Inr ()"
  by (simp add: vfy_hdr_def mac_verify_def length_mac_hdr)

lemma vfy_ct_mac: "hash_lens X \<Longrightarrow> vfy_ct X a e c (mac_ct X a e c) = Inr ()"
  by (simp add: vfy_ct_def mac_verify_def length_mac_ct)

lemma vfy_hdr_accepts: "vfy_hdr X a e h m = Inr u \<longleftrightarrow> length m = 32 \<and> m = mac_hdr X a e h"
  by (auto simp: vfy_hdr_def mac_verify_ok)

lemma vfy_ct_accepts: "vfy_ct X a e c m = Inr u \<longleftrightarrow> length m = 32 \<and> m = mac_ct X a e c"
  by (auto simp: vfy_ct_def mac_verify_ok)

lemma auth_update_lengths:
  assumes "hash_lens X"
  shows "length (auth_root_key (auth_update X e k a)) = 32"
    and "length (auth_mac_key (auth_update X e k a)) = 32"
  using assms
  by (simp_all add: auth_update_def kdf_auth_def Let_def hkdf_okm_def hash_lensD KEY_LEN_def)

text \<open>The MAC input determines the label, the epoch and the data: headers and ciphertexts
  of any epochs never share a MAC input.\<close>

lemma mac_inputs_separate:
  "PROTOCOL_INFO @ ascii '':ekheader'' @ epoch_bytes e @ h
     \<noteq> PROTOCOL_INFO @ ascii '':ciphertext'' @ epoch_bytes e' @ c"
  by (simp add: ascii_def)

lemma mac_input_inject:
  "PROTOCOL_INFO @ label @ epoch_bytes e @ h = PROTOCOL_INFO @ label @ epoch_bytes e' @ h'
     \<longleftrightarrow> e = e' \<and> h = h'"
  by (simp add: epoch_bytes_def)

end
