(* ===== verification/Braid_Machine.thy ===== *)
theory Braid_Machine
  imports Erasure Braid_Kem Braid_Auth
begin

text \<open>
  \<open>protocol/braid/state_machine.rs\<close>: the 11-state machine that agrees one secret per
  epoch. \<open>state\<close> has the constructors of the source enum, their fields in the order the
  source lists them. Each arm of \<open>State::send\<close> is a definition of its own
  (\<open>send_\<dots>\<close>), as is each \<open>recv_\<dots>\<close> function; \<open>state_send\<close> and \<open>state_receive\<close>
  dispatch. \<open>transition\<close> is the transactional wrapper.

  The random bytes a send draws come from \<open>rng\<close>, which yields as many bytes as asked for.
\<close>

section \<open>Data\<close>

definition MAC_SIZE :: nat where
  "MAC_SIZE = 32"

definition INITIAL_EPOCH :: u64 where
  "INITIAL_EPOCH = 1"

definition proto_err :: "string \<Rightarrow> crypto_error" where
  "proto_err msg = BraidKem msg"

datatype msg_type = Idle | Hdr | Ek | EkCt1Ack | Ct1 | Ct2

record message =
  msg_epoch :: u64
  mtype :: msg_type
  msg_chunk :: "chunk option"

definition message_idle :: "u64 \<Rightarrow> message" where
  "message_idle epoch = \<lparr>msg_epoch = epoch, mtype = Idle, msg_chunk = None\<rparr>"

definition message_carrying :: "u64 \<Rightarrow> msg_type \<Rightarrow> chunk \<Rightarrow> message" where
  "message_carrying epoch mt c = \<lparr>msg_epoch = epoch, mtype = mt, msg_chunk = Some c\<rparr>"

record epoch_secret =
  es_epoch :: u64
  es_secret :: bytes

record scka_send =
  send_msg :: message
  sending_epoch :: u64
  send_output_key :: "epoch_secret option"

record scka_receive =
  receiving_epoch :: u64
  recv_output_key :: "epoch_secret option"

datatype state =
    \<comment> \<open>epoch, auth\<close>
    KeysUnsampled u64 authenticator
    \<comment> \<open>epoch, auth, dk, ek_vector, header_enc\<close>
  | KeysSampled u64 authenticator bytes bytes encoder
    \<comment> \<open>epoch, auth, dk, ct1_dec, ek_enc\<close>
  | HeaderSent u64 authenticator bytes decoder encoder
    \<comment> \<open>epoch, auth, dk, ct1, ek_enc\<close>
  | Ct1Received u64 authenticator bytes bytes encoder
    \<comment> \<open>epoch, auth, dk, ct1, ct2_dec\<close>
  | EkSentCt1Received u64 authenticator bytes bytes decoder
    \<comment> \<open>epoch, auth, hdr_dec\<close>
  | NoHeaderReceived u64 authenticator decoder
    \<comment> \<open>epoch, auth, header, ek_dec\<close>
  | HeaderReceived u64 authenticator bytes decoder
    \<comment> \<open>epoch, auth, header, encaps_secret, ct1, ct1_enc, ek_dec\<close>
  | Ct1Sampled u64 authenticator bytes bytes bytes encoder decoder
    \<comment> \<open>epoch, auth, encaps_secret, ct1, ek_vector, ct1_enc\<close>
  | EkReceivedCt1Sampled u64 authenticator bytes bytes bytes encoder
    \<comment> \<open>epoch, auth, encaps_secret, header, ct1, ek_dec\<close>
  | Ct1Acknowledged u64 authenticator bytes bytes bytes decoder
    \<comment> \<open>epoch, auth, ct2_enc\<close>
  | Ct2Sampled u64 authenticator encoder
  | Poisoned

type_synonym transition = "(state \<times> epoch_secret option) res"
type_synonym send_transition = "(state \<times> message \<times> epoch_secret option) res"

definition build_ct2_encoder ::
  "ext \<Rightarrow> authenticator \<Rightarrow> u64 \<Rightarrow> bytes \<Rightarrow> bytes \<Rightarrow> bytes \<Rightarrow> encoder res" where
  "build_ct2_encoder X auth epoch encaps_secret ek_vector ct1 =
     (case encapsulate2 X encaps_secret ek_vector of
        Inl e \<Rightarrow> Inl e
      | Inr ct2 \<Rightarrow>
          (let ct = ct1 @ ct2;
               mac = mac_ct X auth epoch ct;
               payload = ct2 @ mac
           in encoder_new X payload))"

fun state_epoch :: "state \<Rightarrow> u64" where
  "state_epoch (KeysUnsampled epoch _) = epoch"
| "state_epoch (KeysSampled epoch _ _ _ _) = epoch"
| "state_epoch (HeaderSent epoch _ _ _ _) = epoch"
| "state_epoch (Ct1Received epoch _ _ _ _) = epoch"
| "state_epoch (EkSentCt1Received epoch _ _ _ _) = epoch"
| "state_epoch (NoHeaderReceived epoch _ _) = epoch"
| "state_epoch (HeaderReceived epoch _ _ _) = epoch"
| "state_epoch (Ct1Sampled epoch _ _ _ _ _ _) = epoch"
| "state_epoch (EkReceivedCt1Sampled epoch _ _ _ _ _) = epoch"
| "state_epoch (Ct1Acknowledged epoch _ _ _ _ _) = epoch"
| "state_epoch (Ct2Sampled epoch _ _) = epoch"
| "state_epoch Poisoned = 0"

section \<open>Sending\<close>

definition send_keys_unsampled :: "ext \<Rightarrow> (nat \<Rightarrow> bytes) \<Rightarrow> u64 \<Rightarrow> authenticator \<Rightarrow> send_transition" where
  "send_keys_unsampled X rng epoch auth =
     (let seed = rng SEED_LEN;
          dk = generate_keypair X seed
      in case public_key_parts X dk of
           Inl e \<Rightarrow> Inl e
         | Inr (header, ek_vector) \<Rightarrow>
             (let mac = mac_hdr X auth epoch header;
                  header_with_mac = header @ mac
              in case encoder_new X header_with_mac of
                   Inl e \<Rightarrow> Inl e
                 | Inr header_enc \<Rightarrow>
                     (let (header_enc, c) = next_chunk header_enc
                      in Inr (KeysSampled epoch auth dk ek_vector header_enc,
                              message_carrying epoch Hdr c, None))))"

definition send_keys_sampled ::
  "u64 \<Rightarrow> authenticator \<Rightarrow> bytes \<Rightarrow> bytes \<Rightarrow> encoder \<Rightarrow> send_transition" where
  "send_keys_sampled epoch auth dk ek_vector header_enc =
     (let (header_enc, c) = next_chunk header_enc
      in Inr (KeysSampled epoch auth dk ek_vector header_enc, message_carrying epoch Hdr c, None))"

definition send_header_sent ::
  "u64 \<Rightarrow> authenticator \<Rightarrow> bytes \<Rightarrow> decoder \<Rightarrow> encoder \<Rightarrow> send_transition" where
  "send_header_sent epoch auth dk ct1_dec ek_enc =
     (let (ek_enc, c) = next_chunk ek_enc
      in Inr (HeaderSent epoch auth dk ct1_dec ek_enc, message_carrying epoch Ek c, None))"

definition send_ct1_received ::
  "u64 \<Rightarrow> authenticator \<Rightarrow> bytes \<Rightarrow> bytes \<Rightarrow> encoder \<Rightarrow> send_transition" where
  "send_ct1_received epoch auth dk ct1 ek_enc =
     (let (ek_enc, c) = next_chunk ek_enc
      in Inr (Ct1Received epoch auth dk ct1 ek_enc, message_carrying epoch EkCt1Ack c, None))"

definition send_header_received ::
  "ext \<Rightarrow> (nat \<Rightarrow> bytes) \<Rightarrow> u64 \<Rightarrow> authenticator \<Rightarrow> bytes \<Rightarrow> decoder \<Rightarrow> send_transition" where
  "send_header_received X rng epoch auth header ek_dec =
     (let randomness = rng ENCAPS_RANDOMNESS_LEN
      in case encapsulate1 X header randomness of
           Inl e \<Rightarrow> Inl e
         | Inr (ct1, encaps_secret, raw_ss) \<Rightarrow>
             (let ss = kdf_ok X raw_ss epoch;
                  auth = auth_update X epoch ss auth
              in case encoder_new X ct1 of
                   Inl e \<Rightarrow> Inl e
                 | Inr ct1_enc \<Rightarrow>
                     (let (ct1_enc, c) = next_chunk ct1_enc
                      in Inr (Ct1Sampled epoch auth header encaps_secret ct1 ct1_enc ek_dec,
                              message_carrying epoch Ct1 c,
                              Some \<lparr>es_epoch = epoch, es_secret = ss\<rparr>))))"

definition send_ct1_sampled ::
  "u64 \<Rightarrow> authenticator \<Rightarrow> bytes \<Rightarrow> bytes \<Rightarrow> bytes \<Rightarrow> encoder \<Rightarrow> decoder \<Rightarrow> send_transition" where
  "send_ct1_sampled epoch auth header encaps_secret ct1 ct1_enc ek_dec =
     (let (ct1_enc, c) = next_chunk ct1_enc
      in Inr (Ct1Sampled epoch auth header encaps_secret ct1 ct1_enc ek_dec,
              message_carrying epoch Ct1 c, None))"

definition send_ek_received_ct1_sampled ::
  "u64 \<Rightarrow> authenticator \<Rightarrow> bytes \<Rightarrow> bytes \<Rightarrow> bytes \<Rightarrow> encoder \<Rightarrow> send_transition" where
  "send_ek_received_ct1_sampled epoch auth encaps_secret ct1 ek_vector ct1_enc =
     (let (ct1_enc, c) = next_chunk ct1_enc
      in Inr (EkReceivedCt1Sampled epoch auth encaps_secret ct1 ek_vector ct1_enc,
              message_carrying epoch Ct1 c, None))"

definition send_ct2_sampled :: "u64 \<Rightarrow> authenticator \<Rightarrow> encoder \<Rightarrow> send_transition" where
  "send_ct2_sampled epoch auth ct2_enc =
     (let (ct2_enc, c) = next_chunk ct2_enc
      in Inr (Ct2Sampled epoch auth ct2_enc, message_carrying epoch Ct2 c, None))"

text \<open>The arms that only report that there is nothing to stream.\<close>

definition send_idle :: "u64 \<Rightarrow> state \<Rightarrow> send_transition" where
  "send_idle epoch st = Inr (st, message_idle epoch, None)"

fun state_send :: "ext \<Rightarrow> (nat \<Rightarrow> bytes) \<Rightarrow> state \<Rightarrow> send_transition" where
  "state_send X rng (KeysUnsampled epoch auth) = send_keys_unsampled X rng epoch auth"
| "state_send X rng (KeysSampled epoch auth dk ek_vector header_enc) =
     send_keys_sampled epoch auth dk ek_vector header_enc"
| "state_send X rng (HeaderSent epoch auth dk ct1_dec ek_enc) =
     send_header_sent epoch auth dk ct1_dec ek_enc"
| "state_send X rng (Ct1Received epoch auth dk ct1 ek_enc) =
     send_ct1_received epoch auth dk ct1 ek_enc"
| "state_send X rng (EkSentCt1Received epoch auth dk ct1 ct2_dec) =
     send_idle epoch (EkSentCt1Received epoch auth dk ct1 ct2_dec)"
| "state_send X rng (NoHeaderReceived epoch auth hdr_dec) =
     send_idle epoch (NoHeaderReceived epoch auth hdr_dec)"
| "state_send X rng (HeaderReceived epoch auth header ek_dec) =
     send_header_received X rng epoch auth header ek_dec"
| "state_send X rng (Ct1Sampled epoch auth header encaps_secret ct1 ct1_enc ek_dec) =
     send_ct1_sampled epoch auth header encaps_secret ct1 ct1_enc ek_dec"
| "state_send X rng (EkReceivedCt1Sampled epoch auth encaps_secret ct1 ek_vector ct1_enc) =
     send_ek_received_ct1_sampled epoch auth encaps_secret ct1 ek_vector ct1_enc"
| "state_send X rng (Ct1Acknowledged epoch auth encaps_secret header ct1 ek_dec) =
     send_idle epoch (Ct1Acknowledged epoch auth encaps_secret header ct1 ek_dec)"
| "state_send X rng (Ct2Sampled epoch auth ct2_enc) = send_ct2_sampled epoch auth ct2_enc"
| "state_send X rng Poisoned = Inl (proto_err ''braid state poisoned'')"

section \<open>Receiving\<close>

text \<open>The private \<open>add_chunk\<close> of the module: the codeword of a message, into a decoder.\<close>

definition add_msg_chunk :: "decoder \<Rightarrow> message \<Rightarrow> decoder res" where
  "add_msg_chunk d msg =
     (case msg_chunk msg of
        None \<Rightarrow> Inl (proto_err ''message missing codeword'')
      | Some c \<Rightarrow> add_chunk d c)"

definition recv_keys_sampled ::
  "ext \<Rightarrow> message \<Rightarrow> u64 \<Rightarrow> authenticator \<Rightarrow> bytes \<Rightarrow> bytes \<Rightarrow> encoder \<Rightarrow> transition" where
  "recv_keys_sampled X msg epoch auth dk ek_vector header_enc =
     (if msg_epoch msg = epoch \<and> mtype msg = Ct1
      then (case add_msg_chunk (decoder_new (ct1_len X)) msg of
              Inl e \<Rightarrow> Inl e
            | Inr ct1_dec \<Rightarrow>
                (case encoder_new X ek_vector of
                   Inl e \<Rightarrow> Inl e
                 | Inr ek_enc \<Rightarrow> Inr (HeaderSent epoch auth dk ct1_dec ek_enc, None)))
      else Inr (KeysSampled epoch auth dk ek_vector header_enc, None))"

definition recv_header_sent ::
  "ext \<Rightarrow> message \<Rightarrow> u64 \<Rightarrow> authenticator \<Rightarrow> bytes \<Rightarrow> decoder \<Rightarrow> encoder \<Rightarrow> transition" where
  "recv_header_sent X msg epoch auth dk ct1_dec ek_enc =
     (if msg_epoch msg = epoch \<and> mtype msg = Ct1
      then (case add_msg_chunk ct1_dec msg of
              Inl e \<Rightarrow> Inl e
            | Inr ct1_dec \<Rightarrow>
                (case decoder_message X ct1_dec of
                   Inl e \<Rightarrow> Inl e
                 | Inr (Some ct1) \<Rightarrow> Inr (Ct1Received epoch auth dk ct1 ek_enc, None)
                 | Inr None \<Rightarrow> Inr (HeaderSent epoch auth dk ct1_dec ek_enc, None)))
      else Inr (HeaderSent epoch auth dk ct1_dec ek_enc, None))"

definition recv_ct1_received ::
  "ext \<Rightarrow> message \<Rightarrow> u64 \<Rightarrow> authenticator \<Rightarrow> bytes \<Rightarrow> bytes \<Rightarrow> encoder \<Rightarrow> transition" where
  "recv_ct1_received X msg epoch auth dk ct1 ek_enc =
     (if msg_epoch msg = epoch \<and> mtype msg = Ct2
      then (case add_msg_chunk (decoder_new (ct2_len X + MAC_SIZE)) msg of
              Inl e \<Rightarrow> Inl e
            | Inr ct2_dec \<Rightarrow> Inr (EkSentCt1Received epoch auth dk ct1 ct2_dec, None))
      else Inr (Ct1Received epoch auth dk ct1 ek_enc, None))"

definition recv_ek_sent_ct1_received ::
  "ext \<Rightarrow> message \<Rightarrow> u64 \<Rightarrow> authenticator \<Rightarrow> bytes \<Rightarrow> bytes \<Rightarrow> decoder \<Rightarrow> transition" where
  "recv_ek_sent_ct1_received X msg epoch auth dk ct1 ct2_dec =
     (if msg_epoch msg = epoch \<and> mtype msg = Ct2
      then (case add_msg_chunk ct2_dec msg of
              Inl e \<Rightarrow> Inl e
            | Inr ct2_dec \<Rightarrow>
                (case decoder_message X ct2_dec of
                   Inl e \<Rightarrow> Inl e
                 | Inr None \<Rightarrow> Inr (EkSentCt1Received epoch auth dk ct1 ct2_dec, None)
                 | Inr (Some ct2_with_mac) \<Rightarrow>
                     (case split_at (ct2_len X) ct2_with_mac of
                        Inl e \<Rightarrow> Inl e
                      | Inr (ct2, mac) \<Rightarrow>
                          (case decapsulate X dk ct1 ct2 of
                             Inl e \<Rightarrow> Inl e
                           | Inr raw_ss \<Rightarrow>
                               (let ss = kdf_ok X raw_ss epoch;
                                    next_auth = auth_update X epoch ss auth;
                                    ct = ct1 @ ct2
                                in if is_ok (vfy_ct X next_auth epoch ct mac)
                                   then Inr (NoHeaderReceived (epoch + 1) next_auth
                                               (decoder_new (pk1_len X + MAC_SIZE)),
                                             Some \<lparr>es_epoch = epoch, es_secret = ss\<rparr>)
                                   else Inr (EkSentCt1Received epoch auth dk ct1
                                               (decoder_reset ct2_dec), None))))))
      else Inr (EkSentCt1Received epoch auth dk ct1 ct2_dec, None))"

definition recv_no_header_received ::
  "ext \<Rightarrow> message \<Rightarrow> u64 \<Rightarrow> authenticator \<Rightarrow> decoder \<Rightarrow> transition" where
  "recv_no_header_received X msg epoch auth hdr_dec =
     (if msg_epoch msg = epoch \<and> mtype msg = Hdr
      then (case add_msg_chunk hdr_dec msg of
              Inl e \<Rightarrow> Inl e
            | Inr hdr_dec \<Rightarrow>
                (case decoder_message X hdr_dec of
                   Inl e \<Rightarrow> Inl e
                 | Inr None \<Rightarrow> Inr (NoHeaderReceived epoch auth hdr_dec, None)
                 | Inr (Some header_with_mac) \<Rightarrow>
                     (case split_at (pk1_len X) header_with_mac of
                        Inl e \<Rightarrow> Inl e
                      | Inr (header, mac) \<Rightarrow>
                          if is_ok (vfy_hdr X auth epoch header mac)
                          then Inr (HeaderReceived epoch auth header (decoder_new (pk2_len X)), None)
                          else Inr (NoHeaderReceived epoch auth (decoder_reset hdr_dec), None))))
      else Inr (NoHeaderReceived epoch auth hdr_dec, None))"

definition recv_ct1_sampled ::
  "ext \<Rightarrow> message \<Rightarrow> u64 \<Rightarrow> authenticator \<Rightarrow> bytes \<Rightarrow> bytes \<Rightarrow> bytes \<Rightarrow> encoder \<Rightarrow> decoder \<Rightarrow> transition" where
  "recv_ct1_sampled X msg epoch auth header encaps_secret ct1 ct1_enc ek_dec =
     (let is_ek = (msg_epoch msg = epoch \<and> mtype msg = Ek);
          is_ack = (msg_epoch msg = epoch \<and> mtype msg = EkCt1Ack)
      in if is_ek \<or> is_ack
         then (case add_msg_chunk ek_dec msg of
                 Inl e \<Rightarrow> Inl e
               | Inr ek_dec \<Rightarrow>
                   (case decoder_message X ek_dec of
                      Inl e \<Rightarrow> Inl e
                    | Inr (Some ek_vector) \<Rightarrow>
                        (case validate_public_key X header ek_vector of
                           Inl e \<Rightarrow> Inl e
                         | Inr _ \<Rightarrow>
                             if is_ack
                             then (case build_ct2_encoder X auth epoch encaps_secret ek_vector ct1 of
                                     Inl e \<Rightarrow> Inl e
                                   | Inr ct2_enc \<Rightarrow> Inr (Ct2Sampled epoch auth ct2_enc, None))
                             else Inr (EkReceivedCt1Sampled epoch auth encaps_secret ct1 ek_vector ct1_enc,
                                       None))
                    | Inr None \<Rightarrow>
                        if is_ack
                        then Inr (Ct1Acknowledged epoch auth encaps_secret header ct1 ek_dec, None)
                        else Inr (Ct1Sampled epoch auth header encaps_secret ct1 ct1_enc ek_dec, None)))
         else Inr (Ct1Sampled epoch auth header encaps_secret ct1 ct1_enc ek_dec, None))"

definition recv_ek_received_ct1_sampled ::
  "ext \<Rightarrow> message \<Rightarrow> u64 \<Rightarrow> authenticator \<Rightarrow> bytes \<Rightarrow> bytes \<Rightarrow> bytes \<Rightarrow> encoder \<Rightarrow> transition" where
  "recv_ek_received_ct1_sampled X msg epoch auth encaps_secret ct1 ek_vector ct1_enc =
     (if msg_epoch msg = epoch \<and> mtype msg = EkCt1Ack
      then (case build_ct2_encoder X auth epoch encaps_secret ek_vector ct1 of
              Inl e \<Rightarrow> Inl e
            | Inr ct2_enc \<Rightarrow> Inr (Ct2Sampled epoch auth ct2_enc, None))
      else Inr (EkReceivedCt1Sampled epoch auth encaps_secret ct1 ek_vector ct1_enc, None))"

definition recv_ct1_acknowledged ::
  "ext \<Rightarrow> message \<Rightarrow> u64 \<Rightarrow> authenticator \<Rightarrow> bytes \<Rightarrow> bytes \<Rightarrow> bytes \<Rightarrow> decoder \<Rightarrow> transition" where
  "recv_ct1_acknowledged X msg epoch auth encaps_secret header ct1 ek_dec =
     (if msg_epoch msg = epoch \<and> mtype msg = EkCt1Ack
      then (case add_msg_chunk ek_dec msg of
              Inl e \<Rightarrow> Inl e
            | Inr ek_dec \<Rightarrow>
                (case decoder_message X ek_dec of
                   Inl e \<Rightarrow> Inl e
                 | Inr (Some ek_vector) \<Rightarrow>
                     (case validate_public_key X header ek_vector of
                        Inl e \<Rightarrow> Inl e
                      | Inr _ \<Rightarrow>
                          (case build_ct2_encoder X auth epoch encaps_secret ek_vector ct1 of
                             Inl e \<Rightarrow> Inl e
                           | Inr ct2_enc \<Rightarrow> Inr (Ct2Sampled epoch auth ct2_enc, None)))
                 | Inr None \<Rightarrow> Inr (Ct1Acknowledged epoch auth encaps_secret header ct1 ek_dec, None)))
      else Inr (Ct1Acknowledged epoch auth encaps_secret header ct1 ek_dec, None))"

definition recv_ct2_sampled :: "message \<Rightarrow> u64 \<Rightarrow> authenticator \<Rightarrow> encoder \<Rightarrow> transition" where
  "recv_ct2_sampled msg epoch auth ct2_enc =
     (if msg_epoch msg = epoch + 1 then Inr (KeysUnsampled (epoch + 1) auth, None)
      else Inr (Ct2Sampled epoch auth ct2_enc, None))"

fun state_receive :: "ext \<Rightarrow> state \<Rightarrow> message \<Rightarrow> transition" where
  "state_receive X (KeysSampled epoch auth dk ek_vector header_enc) msg =
     recv_keys_sampled X msg epoch auth dk ek_vector header_enc"
| "state_receive X (HeaderSent epoch auth dk ct1_dec ek_enc) msg =
     recv_header_sent X msg epoch auth dk ct1_dec ek_enc"
| "state_receive X (Ct1Received epoch auth dk ct1 ek_enc) msg =
     recv_ct1_received X msg epoch auth dk ct1 ek_enc"
| "state_receive X (EkSentCt1Received epoch auth dk ct1 ct2_dec) msg =
     recv_ek_sent_ct1_received X msg epoch auth dk ct1 ct2_dec"
| "state_receive X (NoHeaderReceived epoch auth hdr_dec) msg =
     recv_no_header_received X msg epoch auth hdr_dec"
| "state_receive X (Ct1Sampled epoch auth header encaps_secret ct1 ct1_enc ek_dec) msg =
     recv_ct1_sampled X msg epoch auth header encaps_secret ct1 ct1_enc ek_dec"
| "state_receive X (EkReceivedCt1Sampled epoch auth encaps_secret ct1 ek_vector ct1_enc) msg =
     recv_ek_received_ct1_sampled X msg epoch auth encaps_secret ct1 ek_vector ct1_enc"
| "state_receive X (Ct1Acknowledged epoch auth encaps_secret header ct1 ek_dec) msg =
     recv_ct1_acknowledged X msg epoch auth encaps_secret header ct1 ek_dec"
| "state_receive X (Ct2Sampled epoch auth ct2_enc) msg = recv_ct2_sampled msg epoch auth ct2_enc"
| "state_receive X (KeysUnsampled epoch auth) msg = Inr (KeysUnsampled epoch auth, None)"
| "state_receive X (HeaderReceived epoch auth header ek_dec) msg =
     Inr (HeaderReceived epoch auth header ek_dec, None)"
| "state_receive X Poisoned msg = Inr (Poisoned, None)"

section \<open>The session object\<close>

record braid_state =
  braid_phase :: state

definition init_sender :: "ext \<Rightarrow> bytes \<Rightarrow> braid_state" where
  "init_sender X auth_seed =
     \<lparr>braid_phase = KeysUnsampled INITIAL_EPOCH (auth_init X INITIAL_EPOCH auth_seed)\<rparr>"

definition init_receiver :: "ext \<Rightarrow> bytes \<Rightarrow> braid_state" where
  "init_receiver X auth_seed =
     \<lparr>braid_phase = NoHeaderReceived INITIAL_EPOCH (auth_init X INITIAL_EPOCH auth_seed)
                      (decoder_new (pk1_len X + MAC_SIZE))\<rparr>"

definition transition :: "braid_state \<Rightarrow> (state \<Rightarrow> (state \<times> 'a) res) \<Rightarrow> braid_state \<times> 'a res" where
  "transition b f =
     (let snapshot = braid_phase b;
          st = braid_phase b;
          b = b\<lparr>braid_phase := Poisoned\<rparr>
      in case f st of
           Inr (nxt, out) \<Rightarrow> (b\<lparr>braid_phase := nxt\<rparr>, Inr out)
         | Inl e \<Rightarrow> (b\<lparr>braid_phase := snapshot\<rparr>, Inl e))"

definition braid_send :: "ext \<Rightarrow> (nat \<Rightarrow> bytes) \<Rightarrow> braid_state \<Rightarrow> braid_state \<times> scka_send res" where
  "braid_send X rng b =
     (let (b, r) = transition b (\<lambda>st. case state_send X rng st of
                                   Inl e \<Rightarrow> Inl e
                                 | Inr (nxt, msg, secret) \<Rightarrow> Inr (nxt, (msg, secret)))
      in case r of
           Inl e \<Rightarrow> (b, Inl e)
         | Inr (msg, output_key) \<Rightarrow>
             (let se = saturating_sub (state_epoch (braid_phase b)) 1
              in (b, Inr \<lparr>send_msg = msg, sending_epoch = se, send_output_key = output_key\<rparr>)))"

definition braid_receive :: "ext \<Rightarrow> braid_state \<Rightarrow> message \<Rightarrow> braid_state \<times> scka_receive res" where
  "braid_receive X b msg =
     (let re = saturating_sub (msg_epoch msg) 1;
          (b, r) = transition b (\<lambda>st. state_receive X st msg)
      in case r of
           Inl e \<Rightarrow> (b, Inl e)
         | Inr output_key \<Rightarrow> (b, Inr \<lparr>receiving_epoch = re, recv_output_key = output_key\<rparr>))"

end
