(* ===== verification/Spqr.thy ===== *)
theory Spqr
  imports Braid_Machine Interfaces
begin

text \<open>
  \<open>protocol/ratchet/spqr.rs\<close>: the sparse post-quantum ratchet, one braid plus a pair of
  KDF chains per epoch. The two \<open>BTreeMap\<close>s are association lists in key order; a
  \<open>get_mut\<close> that changes an entry re-inserts it. An operation that can fail returns the
  state it leaves behind together with its result, since \<open>&mut self\<close> keeps what was
  changed before an error.

  \<open>ratchet_receive_key\<close> is split where the code is: the braid step and the new epoch
  first, then \<open>derive_receive_key\<close>, which finds or derives the message key.
\<close>

section \<open>Chains\<close>

definition MAX_SKIP :: u32 where
  "MAX_SKIP = 2000"

datatype direction = A2B | B2A

record scka_chain =
  sc_ck :: chain_key
  sc_n :: u32

definition scka_new :: "chain_key \<Rightarrow> scka_chain" where
  "scka_new ck = \<lparr>sc_ck = ck, sc_n = 0\<rparr>"

definition scka_advance :: "ext \<Rightarrow> scka_chain \<Rightarrow> scka_chain \<times> u32 \<times> message_key" where
  "scka_advance X c =
     (let n = sc_n c + 1;
          out = kdf_scka_ck X (sc_ck c) n
      in (c\<lparr>sc_n := n, sc_ck := ck_chain_key out\<rparr>, n, ck_message_key out))"

record epoch_chains =
  ec_send :: "scka_chain option"
  ec_recv :: "scka_chain option"

definition braid_auth_seed :: "ext \<Rightarrow> bytes \<Rightarrow> bytes" where
  "braid_auth_seed X ss = hkdf_okm X ss None (ascii ''HushwireBraid:auth_seed'') 32"

section \<open>State\<close>

record spqr_state =
  spqr_braid :: braid_state
  spqr_rk :: root_key
  spqr_epoch :: u64
  kdfchains :: "(u64, epoch_chains) btree"
  mkskipped :: "(u64, (u32, message_key) btree) btree"
  direction :: direction

definition spqr_assign :: "direction \<Rightarrow> chain_key \<Rightarrow> chain_key \<Rightarrow> chain_key \<times> chain_key" where
  "spqr_assign d ck0 ck1 = (case d of A2B \<Rightarrow> (ck0, ck1) | B2A \<Rightarrow> (ck1, ck0))"

definition spqr_init :: "ext \<Rightarrow> bytes \<Rightarrow> direction \<Rightarrow> spqr_state" where
  "spqr_init X ss d =
     (let sk = braid_auth_seed X ss;
          braid = (case d of A2B \<Rightarrow> init_sender X sk | B2A \<Rightarrow> init_receiver X sk);
          chains = kdf_scka_init X sk;
          (send_ck, recv_ck) = spqr_assign d (scka_chain_key_0 chains) (scka_chain_key_1 chains)
      in \<lparr>spqr_braid = braid, spqr_rk = scka_root_key chains, spqr_epoch = 0,
          kdfchains = btree_insert 0
            \<lparr>ec_send = Some (scka_new send_ck), ec_recv = Some (scka_new recv_ck)\<rparr> [],
          mkskipped = [], direction = d\<rparr>)"

definition spqr_new_sender :: "ext \<Rightarrow> bytes \<Rightarrow> spqr_state" where
  "spqr_new_sender X ss = spqr_init X ss A2B"

definition spqr_new_receiver :: "ext \<Rightarrow> bytes \<Rightarrow> spqr_state" where
  "spqr_new_receiver X ss = spqr_init X ss B2A"

text \<open>The texts of the module's errors.\<close>

definition non_consecutive_error :: "u64 \<Rightarrow> u64 \<Rightarrow> crypto_error" where
  "non_consecutive_error have_epoch got =
     BraidKem (''non-consecutive SPQR epoch: have '' @ show_nat (unat have_epoch) @
               '', got '' @ show_nat (unat got))"

definition no_chain_error :: "string \<Rightarrow> u64 \<Rightarrow> crypto_error" where
  "no_chain_error which epoch =
     BraidKem (''no SPQR '' @ which @ '' chain for epoch '' @ show_nat (unat epoch))"

definition replay_error :: "u64 \<Rightarrow> u32 \<Rightarrow> u32 \<Rightarrow> crypto_error" where
  "replay_error epoch n cur =
     BraidKem (''SPQR replay or duplicate: epoch '' @ show_nat (unat epoch) @ '' message '' @
               show_nat (unat n) @ '' <= current '' @ show_nat (unat cur))"

definition mismatch_error :: "u32 \<Rightarrow> u32 \<Rightarrow> crypto_error" where
  "mismatch_error n expected =
     BraidKem (''SPQR counter mismatch: advanced to '' @ show_nat (unat n) @
               '', expected '' @ show_nat (unat expected))"

section \<open>Epochs\<close>

definition add_epoch :: "ext \<Rightarrow> u64 \<Rightarrow> bytes \<Rightarrow> spqr_state \<Rightarrow> spqr_state \<times> unit res" where
  "add_epoch X key_epoch epoch_secret s =
     (if spqr_epoch s + 1 \<noteq> key_epoch
      then (s, Inl (non_consecutive_error (spqr_epoch s) key_epoch))
      else (let chains = kdf_scka_rk X (spqr_rk s) epoch_secret;
                (send_ck, recv_ck) =
                  spqr_assign (direction s) (scka_chain_key_0 chains) (scka_chain_key_1 chains)
            in (s\<lparr>spqr_rk := scka_root_key chains,
                  kdfchains := btree_insert key_epoch
                    \<lparr>ec_send = Some (scka_new send_ck), ec_recv = Some (scka_new recv_ck)\<rparr> (kdfchains s),
                  spqr_epoch := key_epoch\<rparr>, Inr ())))"

definition clear_old_epochs :: "u64 \<Rightarrow> spqr_state \<Rightarrow> spqr_state" where
  "clear_old_epochs se s =
     (case checked_sub se 2 of
        None \<Rightarrow> s
      | Some old \<Rightarrow> s\<lparr>kdfchains := btree_remove old (kdfchains s),
                      mkskipped := btree_remove old (mkskipped s)\<rparr>)"

section \<open>Sending\<close>

text \<open>Forward secrecy: forget the send chain of the epoch before the sending one.\<close>

definition drop_previous_send :: "u64 \<Rightarrow> spqr_state \<Rightarrow> spqr_state" where
  "drop_previous_send se s =
     (case checked_sub se 1 of
        None \<Rightarrow> s
      | Some prev \<Rightarrow>
          (case map_of (kdfchains s) prev of
             None \<Rightarrow> s
           | Some c \<Rightarrow> s\<lparr>kdfchains := btree_insert prev (c\<lparr>ec_send := None\<rparr>) (kdfchains s)\<rparr>))"

definition take_send_key :: "ext \<Rightarrow> u64 \<Rightarrow> spqr_state \<Rightarrow> spqr_state \<times> (u32 \<times> message_key) res" where
  "take_send_key X se s =
     (let missing = (s, Inl (no_chain_error ''send'' se))
      in case map_of (kdfchains s) se of
           None \<Rightarrow> missing
         | Some c \<Rightarrow>
             (case ec_send c of
                None \<Rightarrow> missing
              | Some chain \<Rightarrow>
                  (let (chain, pq_n, pq_mk) = scka_advance X chain
                   in (s\<lparr>kdfchains := btree_insert se (c\<lparr>ec_send := Some chain\<rparr>) (kdfchains s)\<rparr>,
                       Inr (pq_n, pq_mk)))))"

definition ratchet_send_key ::
  "ext \<Rightarrow> (nat \<Rightarrow> bytes) \<Rightarrow> spqr_state \<Rightarrow> spqr_state \<times> (message \<times> u32 \<times> message_key) res" where
  "ratchet_send_key X rng s =
     (let (b, r) = braid_send X rng (spqr_braid s);
          s = s\<lparr>spqr_braid := b\<rparr>
      in case r of
           Inl e \<Rightarrow> (s, Inl e)
         | Inr sent \<Rightarrow>
             (let se = sending_epoch sent;
                  (s, added) =
                    (case send_output_key sent of
                       None \<Rightarrow> (s, Inr ())
                     | Some es \<Rightarrow>
                         (case add_epoch X (es_epoch es) (es_secret es) s of
                            (s, Inl e) \<Rightarrow> (s, Inl e)
                          | (s, Inr _) \<Rightarrow> (clear_old_epochs se s, Inr ())))
              in case added of
                   Inl e \<Rightarrow> (s, Inl e)
                 | Inr _ \<Rightarrow>
                     (case take_send_key X se (drop_previous_send se s) of
                        (s, Inl e) \<Rightarrow> (s, Inl e)
                      | (s, Inr (pq_n, pq_mk)) \<Rightarrow> (s, Inr (send_msg sent, pq_n, pq_mk)))))"

section \<open>Receiving\<close>

definition try_skipped :: "u64 \<Rightarrow> u32 \<Rightarrow> spqr_state \<Rightarrow> spqr_state \<times> message_key option" where
  "try_skipped epoch n s =
     (case map_of (mkskipped s) epoch of
        None \<Rightarrow> (s, None)
      | Some inner \<Rightarrow>
          (case map_of inner n of
             None \<Rightarrow> (s, None)
           | Some mk \<Rightarrow>
               (let inner = btree_remove n inner
                in (if inner = [] then s\<lparr>mkskipped := btree_remove epoch (mkskipped s)\<rparr>
                    else s\<lparr>mkskipped := btree_insert epoch inner (mkskipped s)\<rparr>, Some mk))))"

text \<open>The \<open>while chain.n < until\<close> loop, collecting the skipped numbers and keys.\<close>

function skip_loop :: "ext \<Rightarrow> u32 \<Rightarrow> scka_chain \<Rightarrow> scka_chain \<times> (u32 \<times> message_key) list" where
  "skip_loop X until c =
     (if sc_n c < until
      then (let (c, entry) = scka_advance X c; (c, rest) = skip_loop X until c in (c, entry # rest))
      else (c, []))"
  by pat_completeness auto
termination
proof (relation "measure (\<lambda>(X, until, c). unat until - unat (sc_n c))", goal_cases)
  case (2 X until c x c1 e)
  then have "sc_n c1 = sc_n c + 1" by (auto simp: scka_advance_def Let_def)
  then have "unat (sc_n c1) = unat (sc_n c) + 1" using 2(1) by (simp add: unat_add_one_if_less)
  then show ?case using 2(1) by (simp add: word_less_nat_alt)
qed simp

declare skip_loop.simps [simp del]

definition skip_message_keys :: "ext \<Rightarrow> u64 \<Rightarrow> u32 \<Rightarrow> spqr_state \<Rightarrow> spqr_state \<times> unit res" where
  "skip_message_keys X epoch until s =
     (case map_of (kdfchains s) epoch of
        None \<Rightarrow> (s, Inr ())
      | Some ec \<Rightarrow>
          (case ec_recv ec of
             None \<Rightarrow> (s, Inr ())
           | Some chain \<Rightarrow>
               (if sc_n chain + MAX_SKIP < until
                then (s, Inl (MaxSkipExceeded (until - sc_n chain) MAX_SKIP))
                else (let (chain, skipped) = skip_loop X until chain;
                          s = s\<lparr>kdfchains := btree_insert epoch (ec\<lparr>ec_recv := Some chain\<rparr>) (kdfchains s)\<rparr>
                      in if skipped = [] then (s, Inr ())
                         else (let inner = (case map_of (mkskipped s) epoch of None \<Rightarrow> [] | Some m \<Rightarrow> m);
                                   inner = fold (\<lambda>(n, mk). btree_insert n mk) skipped inner
                               in (s\<lparr>mkskipped := btree_insert epoch inner (mkskipped s)\<rparr>, Inr ()))))))"

definition recv_chain :: "spqr_state \<Rightarrow> u64 \<Rightarrow> scka_chain option" where
  "recv_chain s epoch = Option.bind (map_of (kdfchains s) epoch) ec_recv"

text \<open>The trailing advance of \<open>ratchet_receive_key\<close>.\<close>

definition advance_recv :: "ext \<Rightarrow> u64 \<Rightarrow> u32 \<Rightarrow> spqr_state \<Rightarrow> spqr_state \<times> message_key res" where
  "advance_recv X epoch pq_n s =
     (let missing = (s, Inl (no_chain_error ''recv'' epoch))
      in case map_of (kdfchains s) epoch of
           None \<Rightarrow> missing
         | Some ec \<Rightarrow>
             (case ec_recv ec of
                None \<Rightarrow> missing
              | Some chain \<Rightarrow>
                  (let (chain, n, mk) = scka_advance X chain;
                       s = s\<lparr>kdfchains := btree_insert epoch (ec\<lparr>ec_recv := Some chain\<rparr>) (kdfchains s)\<rparr>
                   in if n \<noteq> pq_n
                      then (s, Inl (mismatch_error n pq_n))
                      else (s, Inr mk))))"

definition derive_receive_key :: "ext \<Rightarrow> u64 \<Rightarrow> u32 \<Rightarrow> spqr_state \<Rightarrow> spqr_state \<times> message_key res" where
  "derive_receive_key X epoch pq_n s =
     (case try_skipped epoch pq_n s of
        (s, Some mk) \<Rightarrow> (s, Inr mk)
      | (s, None) \<Rightarrow>
          (let replay = (case recv_chain s epoch of None \<Rightarrow> None | Some c \<Rightarrow>
                           if pq_n \<le> sc_n c then Some (sc_n c) else None)
           in case replay of
                Some cur \<Rightarrow> (s, Inl (replay_error epoch pq_n cur))
              | None \<Rightarrow>
                  (case skip_message_keys X epoch (saturating_sub pq_n 1) s of
                     (s, Inl e) \<Rightarrow> (s, Inl e)
                   | (s, Inr _) \<Rightarrow> advance_recv X epoch pq_n s)))"

definition ratchet_receive_key ::
  "ext \<Rightarrow> message \<Rightarrow> u32 \<Rightarrow> spqr_state \<Rightarrow> spqr_state \<times> message_key res" where
  "ratchet_receive_key X msg pq_n s =
     (let (b, r) = braid_receive X (spqr_braid s) msg;
          s = s\<lparr>spqr_braid := b\<rparr>
      in case r of
           Inl e \<Rightarrow> (s, Inl e)
         | Inr rcv \<Rightarrow>
             (let (s, added) =
                (case recv_output_key rcv of
                   None \<Rightarrow> (s, Inr ())
                 | Some es \<Rightarrow> add_epoch X (es_epoch es) (es_secret es) s)
              in case added of
                   Inl e \<Rightarrow> (s, Inl e)
                 | Inr _ \<Rightarrow> derive_receive_key X (receiving_epoch rcv) pq_n s))"

end
