(* ===== verification/Keys.thy ===== *)
theory Keys
  imports Kdf
begin

text \<open>
  \<open>primitives/keys.rs\<close>: Ed25519 identity keys, the X25519 keys derived from them, and
  ephemeral X25519 key pairs. A \<open>SigningKey\<close> is determined by its seed, so an
  identity key pair is its seed; a \<open>VerifyingKey\<close> is its 32-byte encoding.
  The random bytes of \<open>generate\<close> are an argument.

  The only law relating the two key families is \<open>identity_dh_ok\<close>: the Montgomery form
  of an Ed25519 public key is the X25519 public key of the clamped, hashed seed.
\<close>

section \<open>Identity keys\<close>

datatype identity_key_pair = IdentityKeyPair (identity_seed: bytes)

datatype identity_public_key = IdentityPublicKey (identity_public_bytes: bytes)

definition identity_generate :: "bytes \<Rightarrow> identity_key_pair" where
  "identity_generate rand = IdentityKeyPair rand"

definition identity_from_seed :: "bytes \<Rightarrow> identity_key_pair" where
  "identity_from_seed seed = IdentityKeyPair seed"

definition public_key :: "ext \<Rightarrow> identity_key_pair \<Rightarrow> identity_public_key" where
  "public_key X kp = IdentityPublicKey (ed_public X (identity_seed kp))"

definition sign :: "ext \<Rightarrow> identity_key_pair \<Rightarrow> bytes \<Rightarrow> bytes" where
  "sign X kp data = ed_sign X (identity_seed kp) data"

definition x25519_private_key :: "ext \<Rightarrow> identity_key_pair \<Rightarrow> bytes" where
  "x25519_private_key X kp =
     (let hash = sha512 X (identity_seed kp);
          scalar = take 32 hash;
          scalar = scalar[0 := and (scalar ! 0) 248];
          scalar = scalar[31 := and (scalar ! 31) 127];
          scalar = scalar[31 := or (scalar ! 31) 64]
      in scalar)"

definition identity_from_bytes :: "ext \<Rightarrow> bytes \<Rightarrow> identity_public_key res" where
  "identity_from_bytes X bs = (if ed_point X bs then Inr (IdentityPublicKey bs) else Inl InvalidKey)"

definition verify :: "ext \<Rightarrow> identity_public_key \<Rightarrow> bytes \<Rightarrow> bytes \<Rightarrow> unit res" where
  "verify X pk data signature =
     (if length signature \<noteq> 64 then Inl InvalidSignature
      else if ed_verify X (identity_public_bytes pk) data signature then Inr ()
      else Inl InvalidSignature)"

definition to_x25519 :: "ext \<Rightarrow> identity_public_key \<Rightarrow> bytes res" where
  "to_x25519 X pk =
     (if ed_point X (identity_public_bytes pk) then Inr (ed_montgomery X (identity_public_bytes pk))
      else Inl (Panic ''valid Ed25519 public key always decompresses''))"

definition x25519_public_key :: "ext \<Rightarrow> identity_key_pair \<Rightarrow> bytes res" where
  "x25519_public_key X kp = to_x25519 X (public_key X kp)"

text \<open>\<open>PartialEq\<close>: a constant-time comparison of the encodings.\<close>

definition identity_eq :: "identity_public_key \<Rightarrow> identity_public_key \<Rightarrow> bool" where
  "identity_eq a b \<longleftrightarrow> identity_public_bytes a = identity_public_bytes b"

text \<open>Serde: an identity key travels as its bytes and is re-validated on the way in.\<close>

definition identity_codec :: "ext \<Rightarrow> bytes codec \<Rightarrow> identity_public_key codec" where
  "identity_codec X c =
     \<lparr>enc = (\<lambda>pk. enc c (identity_public_bytes pk)),
      dec = (\<lambda>bs. case dec c bs of
               Inl e \<Rightarrow> Inl e
             | Inr raw \<Rightarrow> (case identity_from_bytes X raw of
                             Inl e \<Rightarrow> Inl (error_display e)
                           | Inr pk \<Rightarrow> Inr pk))\<rparr>"

section \<open>Ephemeral keys\<close>

record ephemeral_key_pair =
  eph_secret :: bytes
  eph_public :: bytes

definition ephemeral_generate :: "ext \<Rightarrow> bytes \<Rightarrow> ephemeral_key_pair" where
  "ephemeral_generate X rand = \<lparr>eph_secret = rand, eph_public = x_public X rand\<rparr>"

datatype shared_secret = SharedSecret (shared_secret_bytes: bytes)

definition diffie_hellman :: "ext \<Rightarrow> ephemeral_key_pair \<Rightarrow> bytes \<Rightarrow> shared_secret" where
  "diffie_hellman X kp their_public = SharedSecret (x_dh X (eph_secret kp) their_public)"

section \<open>Lemmas\<close>

definition identity_dh_ok :: "ext \<Rightarrow> bool" where
  "identity_dh_ok X \<longleftrightarrow>
     (\<forall>kp. length (identity_seed kp) = 32 \<longrightarrow>
        ed_montgomery X (ed_public X (identity_seed kp)) = x_public X (x25519_private_key X kp))"

lemma demo_identity_dh [demo]: "identity_dh_ok demo_ext"
proof -
  have "take 32 (fit 64 s) = s" "fit 64 s ! 0 = s ! 0" "fit 64 s ! 31 = s ! 31" if "length s = 32" for s
    using that by (simp_all add: fit_def resize_def nth_append)
  then show ?thesis by (simp add: identity_dh_ok_def demo_ext_def x25519_private_key_def Let_def fit_id)
qed

lemma x25519D:
  assumes "x25519_ok X"
  shows "x_dh X a (x_public X b) = x_dh X b (x_public X a)"
    and "length (x_public X a) = 32" and "length (x_dh X a p) = 32"
  using assms by (auto simp: x25519_ok_def)

lemma ed25519D:
  assumes "ed25519_ok X"
  shows "length (ed_public X s) = 32" and "ed_point X (ed_public X s)"
    and "length (ed_sign X s m) = 64" and "ed_verify X (ed_public X s) m (ed_sign X s m)"
  using assms by (simp_all add: ed25519_ok_def)

lemma verify_sign [simp]: "ed25519_ok X \<Longrightarrow> verify X (public_key X kp) m (sign X kp m) = Inr ()"
  by (simp add: verify_def public_key_def sign_def ed25519D)

lemma verify_accepts:
  "verify X pk m s = Inr u \<longleftrightarrow> length s = 64 \<and> ed_verify X (identity_public_bytes pk) m s"
  by (simp add: verify_def)

lemma verify_rejects: "verify X pk m s = Inl e \<Longrightarrow> e = InvalidSignature"
  by (auto simp: verify_def split: if_splits)

lemma to_x25519_from_bytes: "identity_from_bytes X bs = Inr pk \<Longrightarrow> \<exists>m. to_x25519 X pk = Inr m"
  by (auto simp: identity_from_bytes_def to_x25519_def split: if_splits)

lemma x25519_public_key_private:
  assumes "ed25519_ok X" and "identity_dh_ok X" and "length (identity_seed kp) = 32"
  shows "x25519_public_key X kp = Inr (x_public X (x25519_private_key X kp))"
  using assms by (simp add: x25519_public_key_def to_x25519_def public_key_def ed25519D identity_dh_ok_def)

lemma to_x25519_public_key:
  assumes "ed25519_ok X" and "identity_dh_ok X" and "length (identity_seed kp) = 32"
  shows "to_x25519 X (public_key X kp) = Inr (x_public X (x25519_private_key X kp))"
  using x25519_public_key_private [OF assms] by (simp add: x25519_public_key_def)

lemma identity_eq_iff: "identity_eq a b \<longleftrightarrow> a = b"
  by (auto simp: identity_eq_def intro: identity_public_key.expand)

lemma x25519_scalar_clamped:
  assumes "hash_lens X"
  shows "length (x25519_private_key X kp) = 32"
    and "and (x25519_private_key X kp ! 0) 7 = 0"
    and "and (x25519_private_key X kp ! 31) 192 = 64"
proof -
  have len: "32 \<le> length (sha512 X (identity_seed kp))" using assms by (simp add: hash_lens_def)
  then show "length (x25519_private_key X kp) = 32"
    by (simp add: x25519_private_key_def Let_def)
  have 0: "and (and w 248) 7 = 0" for w :: u8 by (simp add: and.assoc)
  have 31: "and (or (and w 127) 64) 192 = 64" for w :: u8
    by (simp add: bit.conj_disj_distrib2 and.assoc)
  show "and (x25519_private_key X kp ! 0) 7 = 0" "and (x25519_private_key X kp ! 31) 192 = 64"
    using len 0 31 by (simp_all add: x25519_private_key_def Let_def)
qed

end
