(* ===== verification/Pqxdh.thy ===== *)
theory Pqxdh
  imports Keys
begin

text \<open>
  \<open>protocol/prekey.rs\<close> and \<open>protocol/pqxdh.rs\<close>: prekey bundles and the post-quantum X3DH
  handshake. The randomness of the ephemeral key pair and of the ML-KEM encapsulation are
  arguments. A \<open>DecapsulationKey\<close> is the external crate's, handled as its bytes.
\<close>

section \<open>Prekeys\<close>

record one_time_pre_key =
  opk_id :: pre_key_id
  opk_public :: dh_public_key

record kyber_pre_key =
  kpk_id :: kyber_pre_key_id
  kpk_public :: bytes
  kpk_signature :: bytes
  kpk_is_last_resort :: bool

record pre_key_bundle =
  pb_registration_id :: registration_id
  pb_device_id :: device_id
  pb_identity_key :: identity_public_key
  pb_signed_pre_key_id :: signed_pre_key_id
  pb_signed_pre_key_public :: dh_public_key
  pb_signed_pre_key_signature :: bytes
  pb_one_time_pre_key :: "one_time_pre_key option"
  pb_kyber_pre_key :: kyber_pre_key

record pqxdh_initial_message =
  im_registration_id :: registration_id
  im_ephemeral_public_key :: dh_public_key
  im_signed_pre_key_id :: signed_pre_key_id
  im_one_time_pre_key_id :: "pre_key_id option"
  im_kyber_pre_key_id :: kyber_pre_key_id
  im_kyber_ciphertext :: bytes
  im_identity_key :: identity_public_key

record pqxdh_output =
  px_shared_secret :: bytes
  px_initial_message :: pqxdh_initial_message

section \<open>Handshake\<close>

definition PQXDH_INFO :: bytes where
  "PQXDH_INFO = ascii ''HushwireProtocol''"

definition ek_from_bytes :: "ext \<Rightarrow> bytes \<Rightarrow> bytes res" where
  "ek_from_bytes X bs =
     (if length bs \<noteq> mlkem_ek_len X then Inl (InvalidPrekeyBundle ''wrong ML-KEM-1024 key length'')
      else if mlkem_ek_valid X bs then Inr bs
      else Inl (InvalidPrekeyBundle ''invalid ML-KEM-1024 public key''))"

text \<open>\<open>SK = HKDF(0xFF*32 || DH1 || DH2 || DH3 [|| DH4] || SS)\<close>, the same on both sides.\<close>

definition pqxdh_secret :: "ext \<Rightarrow> bytes \<Rightarrow> bytes \<Rightarrow> bytes \<Rightarrow> bytes \<Rightarrow> bytes \<Rightarrow> bytes" where
  "pqxdh_secret X dh1 dh2 dh3 dh4 ss =
     (let dh_material = replicate 32 0xFF @ dh1 @ dh2 @ dh3 @ dh4 @ ss
      in hkdf_okm X dh_material (Some (zeros 32)) PQXDH_INFO 32)"

definition process_prekey_bundle ::
  "ext \<Rightarrow> bytes \<Rightarrow> bytes \<Rightarrow> identity_key_pair \<Rightarrow> pre_key_bundle \<Rightarrow> pqxdh_output res" where
  "process_prekey_bundle X eph_rand kem_rand our_identity b =
     (case verify X (pb_identity_key b) (dh_public_key_bytes (pb_signed_pre_key_public b))
             (pb_signed_pre_key_signature b) of
        Inl e \<Rightarrow> Inl e
      | Inr _ \<Rightarrow>
     (case verify X (pb_identity_key b) (kpk_public (pb_kyber_pre_key b)) (kpk_signature (pb_kyber_pre_key b)) of
        Inl e \<Rightarrow> Inl e
      | Inr _ \<Rightarrow>
     (let ephemeral = ephemeral_generate X eph_rand;
          our_x25519 = x25519_private_key X our_identity
      in case to_x25519 X (pb_identity_key b) of
           Inl e \<Rightarrow> Inl e
         | Inr their_x25519 \<Rightarrow>
     (let spk_x25519 = dh_public_key_bytes (pb_signed_pre_key_public b);
          dh1 = x_dh X our_x25519 spk_x25519;
          dh2 = shared_secret_bytes (diffie_hellman X ephemeral their_x25519);
          dh3 = shared_secret_bytes (diffie_hellman X ephemeral spk_x25519);
          (dh4, opk) =
            (case pb_one_time_pre_key b of
               None \<Rightarrow> ([], None)
             | Some k \<Rightarrow> (shared_secret_bytes (diffie_hellman X ephemeral (dh_public_key_bytes (opk_public k))),
                          Some (opk_id k)))
      in case ek_from_bytes X (kpk_public (pb_kyber_pre_key b)) of
           Inl e \<Rightarrow> Inl e
         | Inr ek \<Rightarrow>
             (let (ct, ss) = mlkem_encaps X ek kem_rand
              in Inr \<lparr>px_shared_secret = pqxdh_secret X dh1 dh2 dh3 dh4 ss,
                      px_initial_message =
                        \<lparr>im_registration_id = RegistrationId 0,
                         im_ephemeral_public_key = DhPublicKey (eph_public ephemeral),
                         im_signed_pre_key_id = pb_signed_pre_key_id b,
                         im_one_time_pre_key_id = opk,
                         im_kyber_pre_key_id = kpk_id (pb_kyber_pre_key b),
                         im_kyber_ciphertext = ct,
                         im_identity_key = public_key X our_identity\<rparr>\<rparr>)))))"

definition process_initial_message ::
  "ext \<Rightarrow> identity_key_pair \<Rightarrow> bytes \<Rightarrow> bytes option \<Rightarrow> bytes \<Rightarrow> pqxdh_initial_message \<Rightarrow> bytes res" where
  "process_initial_message X our_identity spk_private opk_private dk im =
     (let our_x25519 = x25519_private_key X our_identity
      in case to_x25519 X (im_identity_key im) of
           Inl e \<Rightarrow> Inl e
         | Inr their_x25519 \<Rightarrow>
     (let ek_x25519 = dh_public_key_bytes (im_ephemeral_public_key im);
          dh1 = x_dh X spk_private their_x25519;
          dh2 = x_dh X our_x25519 ek_x25519;
          dh3 = x_dh X spk_private ek_x25519;
          dh4 = (case im_one_time_pre_key_id im of
                   None \<Rightarrow> Inr []
                 | Some _ \<Rightarrow>
                     (case opk_private of
                        None \<Rightarrow> Inl (InvalidPrekeyBundle ''missing one-time prekey private'')
                      | Some opk \<Rightarrow> Inr (x_dh X opk ek_x25519)))
      in case dh4 of
           Inl e \<Rightarrow> Inl e
         | Inr dh4 \<Rightarrow>
             (let ct = im_kyber_ciphertext im
              in if length ct \<noteq> mlkem_ct_len X then Inl InvalidCiphertext
                 else Inr (pqxdh_secret X dh1 dh2 dh3 dh4 (mlkem_decaps X dk ct)))))"

definition generate_kyber_keypair :: "ext \<Rightarrow> bytes \<Rightarrow> bytes \<times> bytes" where
  "generate_kyber_keypair X seed = (let dk = mlkem_from_seed X seed in (dk, mlkem_ek X dk))"

definition dk_to_seed_bytes :: "ext \<Rightarrow> bytes \<Rightarrow> bytes res" where
  "dk_to_seed_bytes X dk =
     (case mlkem_to_seed X dk of
        None \<Rightarrow> Inl (Panic ''ML-KEM-1024 key generated from seed'')
      | Some seed \<Rightarrow> Inr seed)"

definition dk_from_seed_bytes :: "ext \<Rightarrow> bytes \<Rightarrow> bytes" where
  "dk_from_seed_bytes X seed = mlkem_from_seed X seed"

section \<open>Agreement\<close>

text \<open>The bundle that Bob publishes for his secrets.\<close>

definition publishes ::
  "ext \<Rightarrow> identity_key_pair \<Rightarrow> bytes \<Rightarrow> (pre_key_id \<times> bytes) option \<Rightarrow> bytes \<Rightarrow> pre_key_bundle \<Rightarrow> bool" where
  "publishes X bob spk opk dk b \<longleftrightarrow>
     pb_identity_key b = public_key X bob \<and>
     pb_signed_pre_key_public b = DhPublicKey (x_public X spk) \<and>
     pb_signed_pre_key_signature b = sign X bob (x_public X spk) \<and>
     pb_one_time_pre_key b = map_option (\<lambda>(i, k). \<lparr>opk_id = i, opk_public = DhPublicKey (x_public X k)\<rparr>) opk \<and>
     kpk_public (pb_kyber_pre_key b) = mlkem_ek X dk \<and>
     kpk_signature (pb_kyber_pre_key b) = sign X bob (mlkem_ek X dk)"

lemma mlkemD:
  assumes "mlkem_ok X"
  shows "ek_from_bytes X (mlkem_ek X dk) = Inr (mlkem_ek X dk)"
    and "length (fst (mlkem_encaps X (mlkem_ek X dk) r)) = mlkem_ct_len X"
    and "mlkem_decaps X dk (fst (mlkem_encaps X (mlkem_ek X dk) r)) = snd (mlkem_encaps X (mlkem_ek X dk) r)"
    and "length s = 64 \<Longrightarrow> mlkem_to_seed X (mlkem_from_seed X s) = Some s"
  using assms by (auto simp: mlkem_ok_def ek_from_bytes_def split_beta)

lemma pqxdh_agree:
  assumes X: "ed25519_ok X" "x25519_ok X" "identity_dh_ok X" "mlkem_ok X"
    and seeds: "length (identity_seed alice) = 32" "length (identity_seed bob) = 32"
    and pub: "publishes X bob spk opk dk b"
  shows "\<exists>out. process_prekey_bundle X eph_rand kem_rand alice b = Inr out \<and>
           process_initial_message X bob spk (map_option snd opk) dk (px_initial_message out)
             = Inr (px_shared_secret out) \<and>
           im_identity_key (px_initial_message out) = public_key X alice"
proof -
  note p = pub [unfolded publishes_def]
  note ab = to_x25519_public_key [OF X(1,3) seeds(1)] to_x25519_public_key [OF X(1,3) seeds(2)]
  show ?thesis
    using p ab mlkemD [OF X(4)] X(1) x25519D(1) [OF X(2)]
    by (cases opk)
      (auto simp: process_prekey_bundle_def process_initial_message_def Let_def split_beta
        ephemeral_generate_def diffie_hellman_def)
qed

text \<open>What a successful handshake has checked, in the order it checks.\<close>

lemma process_prekey_bundle_checks:
  assumes "process_prekey_bundle X er kr a b = Inr out"
  shows "verify X (pb_identity_key b) (dh_public_key_bytes (pb_signed_pre_key_public b)) (pb_signed_pre_key_signature b) = Inr ()"
    and "verify X (pb_identity_key b) (kpk_public (pb_kyber_pre_key b)) (kpk_signature (pb_kyber_pre_key b)) = Inr ()"
    and "ek_from_bytes X (kpk_public (pb_kyber_pre_key b)) = Inr (kpk_public (pb_kyber_pre_key b))"
    and "im_one_time_pre_key_id (px_initial_message out) = map_option opk_id (pb_one_time_pre_key b)"
  using assms
  by (auto simp: process_prekey_bundle_def Let_def split_beta ek_from_bytes_def
      split: sum.splits option.splits if_splits)

lemma process_prekey_bundle_bad_signature:
  assumes "verify X (pb_identity_key b) (dh_public_key_bytes (pb_signed_pre_key_public b)) (pb_signed_pre_key_signature b) \<noteq> Inr () \<or>
    verify X (pb_identity_key b) (kpk_public (pb_kyber_pre_key b)) (kpk_signature (pb_kyber_pre_key b)) \<noteq> Inr ()"
  shows "process_prekey_bundle X er kr a b = Inl InvalidSignature"
  using assms verify_rejects
  by (auto simp: process_prekey_bundle_def split: sum.splits)


section \<open>Properties\<close>

definition demo_bob :: identity_key_pair where
  "demo_bob = IdentityKeyPair (zeros 32)"

definition demo_bundle :: pre_key_bundle where
  "demo_bundle =
     \<lparr>pb_registration_id = RegistrationId 100, pb_device_id = DeviceId 1,
      pb_identity_key = public_key demo_ext demo_bob,
      pb_signed_pre_key_id = SignedPreKeyId 5,
      pb_signed_pre_key_public = DhPublicKey (x_public demo_ext (replicate 32 3)),
      pb_signed_pre_key_signature = sign demo_ext demo_bob (x_public demo_ext (replicate 32 3)),
      pb_one_time_pre_key = Some \<lparr>opk_id = PreKeyId 1, opk_public = DhPublicKey (x_public demo_ext (replicate 32 4))\<rparr>,
      pb_kyber_pre_key =
        \<lparr>kpk_id = KyberPreKeyId 10, kpk_public = mlkem_ek demo_ext (zeros 64),
         kpk_signature = sign demo_ext demo_bob (mlkem_ek demo_ext (zeros 64)), kpk_is_last_resort = False\<rparr>\<rparr>"

text \<open>
  C22. Handshake agreement. Against a bundle that Bob published, with or without a one-time
  prekey, Alice's side succeeds, and Bob's side derives from her initial message exactly the
  secret she holds, bound to her identity key.
\<close>

theorem pqxdh_agreement:
  assumes "ed25519_ok X" and "x25519_ok X" and "identity_dh_ok X" and "mlkem_ok X"
    and "length (identity_seed alice) = 32" and "length (identity_seed bob) = 32"
    and "publishes X bob spk opk dk b"
  shows "\<exists>out. process_prekey_bundle X eph_rand kem_rand alice b = Inr out \<and>
           process_initial_message X bob spk (map_option snd opk) dk (px_initial_message out)
             = Inr (px_shared_secret out) \<and>
           im_identity_key (px_initial_message out) = public_key X alice"
  by (rule pqxdh_agree [OF assms])

theorem pqxdh_agreement_witness:
  "\<exists>out. process_prekey_bundle demo_ext (replicate 32 9) (replicate 32 8) (IdentityKeyPair (replicate 32 2)) demo_bundle = Inr out \<and>
     process_initial_message demo_ext demo_bob (replicate 32 3) (Some (replicate 32 4)) (zeros 64) (px_initial_message out)
       = Inr (px_shared_secret out)"
proof -
  have "publishes demo_ext demo_bob (replicate 32 3) (Some (PreKeyId 1, replicate 32 4)) (zeros 64) demo_bundle"
    by (simp add: publishes_def demo_bundle_def)
  from pqxdh_agreement [OF demo_ed25519 demo_x25519 demo_identity_dh demo_mlkem _ _ this,
      of "IdentityKeyPair (replicate 32 2)" "replicate 32 9" "replicate 32 8"]
  show ?thesis by (auto simp: demo_bob_def)
qed

text \<open>
  C23. Unsigned prekeys are refused. A bundle whose signed prekey or Kyber prekey is not
  signed by its identity key is rejected with \<open>InvalidSignature\<close>, and the responder
  refuses a message that names a one-time prekey it cannot supply.
\<close>

theorem pqxdh_rejects:
  "(verify X (pb_identity_key b) (dh_public_key_bytes (pb_signed_pre_key_public b)) (pb_signed_pre_key_signature b) \<noteq> Inr () \<or>
    verify X (pb_identity_key b) (kpk_public (pb_kyber_pre_key b)) (kpk_signature (pb_kyber_pre_key b)) \<noteq> Inr ()
      \<longrightarrow> process_prekey_bundle X er kr a b = Inl InvalidSignature) \<and>
   (im_one_time_pre_key_id im \<noteq> None \<and> ed_point X (identity_public_bytes (im_identity_key im))
      \<longrightarrow> process_initial_message X bob spk None dk im = Inl (InvalidPrekeyBundle ''missing one-time prekey private''))"
  using process_prekey_bundle_bad_signature [of X b er kr a]
  by (auto simp: process_initial_message_def to_x25519_def Let_def)

theorem pqxdh_rejects_witness:
  "process_prekey_bundle demo_ext [] [] demo_bob (demo_bundle\<lparr>pb_signed_pre_key_signature := []\<rparr>) = Inl InvalidSignature"
  using pqxdh_rejects [of demo_ext "demo_bundle\<lparr>pb_signed_pre_key_signature := []\<rparr>"]
  by (simp add: verify_def)

end
