(* ===== verification/Ratchet_Chain.thy ===== *)
theory Ratchet_Chain
  imports Spqr Pqxdh
begin

text \<open>
  \<open>protocol/ratchet/chain.rs\<close>, \<open>skipped.rs\<close> and \<open>header.rs\<close>: the symmetric chain of the
  Diffie-Hellman ratchet, the store of skipped message keys, and the message header.
  The chain is a \<open>stepped_chain\<close>: position \<open>i\<close> yields the key of message number \<open>i\<close>.
  The store is a \<open>HashMap\<close>, kept as an association list with distinct keys.
\<close>

section \<open>Chain\<close>

record chain_state =
  cs_chain_key :: chain_key
  cs_message_number :: u32

definition chain_new :: "chain_key \<Rightarrow> chain_state" where
  "chain_new ck = \<lparr>cs_chain_key = ck, cs_message_number = 0\<rparr>"

definition chain_advance :: "ext \<Rightarrow> chain_state \<Rightarrow> chain_state \<times> message_key" where
  "chain_advance X c =
     (let out = kdf_ck X (cs_chain_key c)
      in (c\<lparr>cs_chain_key := ck_chain_key out, cs_message_number := cs_message_number c + 1\<rparr>,
          ck_message_key out))"

interpretation ec: stepped_chain "\<lambda>c. fst (chain_advance X c)" "\<lambda>c. snd (chain_advance X c)"
  "\<lambda>c. unat (cs_message_number c)" "2 ^ 32" for X
  by unfold_locales (simp add: chain_advance_def Let_def unat_add_one)

lemma chain_advance_number [simp]:
  "cs_message_number (fst (chain_advance X c)) = cs_message_number c + 1"
  by (simp add: chain_advance_def Let_def)

section \<open>Skipped keys\<close>

record skipped_key =
  sk_message_key :: message_key
  sk_dh :: bytes

record skipped_key_entry =
  se_message_number :: u32
  se_message_key :: message_key
  se_dh :: bytes

type_synonym skipped_keys = "(u32 \<times> bytes, skipped_key) hashmap"

definition skipped_new :: skipped_keys where
  "skipped_new = []"

definition skipped_insert :: "u32 \<Rightarrow> bytes \<Rightarrow> message_key \<Rightarrow> skipped_keys \<Rightarrow> skipped_keys" where
  "skipped_insert n dh mk keys =
     (if unat MAX_SKIP \<le> length keys then keys
      else AList.update (n, dh) \<lparr>sk_message_key = mk, sk_dh = dh\<rparr> keys)"

definition try_remove_by_dh :: "bytes \<Rightarrow> u32 \<Rightarrow> skipped_keys \<Rightarrow> skipped_keys \<times> message_key option" where
  "try_remove_by_dh dh n keys =
     (case map_of keys (n, dh) of
        None \<Rightarrow> (keys, None)
      | Some sk \<Rightarrow> (AList.delete (n, dh) keys, Some (sk_message_key sk)))"

definition skipped_len :: "skipped_keys \<Rightarrow> nat" where
  "skipped_len keys = length keys"

definition skipped_is_empty :: "skipped_keys \<Rightarrow> bool" where
  "skipped_is_empty keys \<longleftrightarrow> keys = []"

text \<open>Serde: the store travels as the list of its entries.\<close>

definition skipped_to_entries :: "skipped_keys \<Rightarrow> skipped_key_entry list" where
  "skipped_to_entries keys =
     map (\<lambda>((n, _), sk). \<lparr>se_message_number = n, se_message_key = sk_message_key sk, se_dh = sk_dh sk\<rparr>) keys"

definition skipped_from_entries :: "skipped_key_entry list \<Rightarrow> skipped_keys" where
  "skipped_from_entries es =
     fold (\<lambda>e. AList.update (se_message_number e, se_dh e)
                 \<lparr>sk_message_key = se_message_key e, sk_dh = se_dh e\<rparr>) es []"

text \<open>The invariant: distinct keys, every entry filed under its own ratchet key, bounded.\<close>

definition skipped_ok :: "skipped_keys \<Rightarrow> bool" where
  "skipped_ok keys \<longleftrightarrow> hashmap_invar keys \<and> (\<forall>((n, dh), sk) \<in> set keys. sk_dh sk = dh) \<and>
     length keys \<le> unat MAX_SKIP"

lemma skipped_okD:
  assumes "skipped_ok keys"
  shows "hashmap_invar keys" "((n, dh), sk) \<in> set keys \<Longrightarrow> sk_dh sk = dh" "length keys \<le> unat MAX_SKIP"
  using assms by (auto simp: skipped_ok_def)

lemma skipped_ok_new [simp]: "skipped_ok skipped_new"
  by (simp add: skipped_ok_def skipped_new_def)

lemma skipped_ok_insert:
  assumes "skipped_ok keys"
  shows "skipped_ok (skipped_insert n dh mk keys)"
proof -
  have "length (AList.update (n, dh) v keys) \<le> unat MAX_SKIP" if "\<not> unat MAX_SKIP \<le> length keys" for v
    using hash_map.size_insert [OF skipped_okD(1) [OF assms], of "(n, dh)" v] that by linarith
  moreover have "sk_dh sk' = dh'"
    if "((n', dh'), sk') \<in> set (AList.update (n, dh) \<lparr>sk_message_key = mk, sk_dh = dh\<rparr> keys)" for n' dh' sk'
  proof -
    let ?m = "AList.update (n, dh) \<lparr>sk_message_key = mk, sk_dh = dh\<rparr> keys"
    have inv: "hashmap_invar ?m" using hash_map.invar_insert [OF skipped_okD(1) [OF assms]] .
    then have "map_of ?m (n', dh') = Some sk'"
      using that by (simp add: hashmap_invar_def map_of_eq_Some_iff)
    then show ?thesis
      using skipped_okD(2) [OF assms]
      by (auto simp: update_conv' split: if_splits dest: map_of_SomeD)
  qed
  ultimately show ?thesis
    using assms hash_map.invar_insert [OF skipped_okD(1) [OF assms]]
    by (cases "unat MAX_SKIP \<le> length keys") (auto simp: skipped_insert_def skipped_ok_def)
qed

lemma skipped_ok_remove:
  assumes "skipped_ok keys"
  shows "skipped_ok (fst (try_remove_by_dh dh n keys))"
proof (cases "map_of keys (n, dh)")
  case None
  then show ?thesis using assms by (simp add: try_remove_by_dh_def)
next
  case (Some sk)
  have "hashmap_invar (AList.delete (n, dh) keys)"
    using hash_map.invar_remove [OF skipped_okD(1) [OF assms]] .
  moreover have "length (AList.delete (n, dh) keys) \<le> unat MAX_SKIP"
    using hash_map.size_remove [OF skipped_okD(1) [OF assms], of "(n, dh)"] skipped_okD(3) [OF assms] by linarith
  moreover have "set (AList.delete (n, dh) keys) \<subseteq> set keys" by (auto simp: AList.delete_eq)
  ultimately show ?thesis
    using Some skipped_okD(2) [OF assms] by (auto simp: try_remove_by_dh_def skipped_ok_def)
qed

text \<open>Storing and loading the store gives the same store.\<close>

lemma update_fresh: "k \<notin> fst ` set m \<Longrightarrow> AList.update k v m = m @ [(k, v)]"
  by (induction m) auto

lemma fold_update_fresh:
  "hashmap_invar (m @ keys) \<Longrightarrow> fold (\<lambda>(k, v). AList.update k v) keys m = m @ keys"
proof (induction keys arbitrary: m)
  case Nil
  then show ?case by simp
next
  case (Cons kv keys)
  obtain k v where kv: "kv = (k, v)" by (cases kv)
  have "k \<notin> fst ` set m" using Cons.prems kv by (auto simp: hashmap_invar_def)
  then have "AList.update k v m = m @ [(k, v)]" by (rule update_fresh)
  then show ?case using Cons.IH [of "m @ [(k, v)]"] Cons.prems kv by simp
qed


lemma skipped_entries_round_trip:
  assumes "skipped_ok keys"
  shows "skipped_from_entries (skipped_to_entries keys) = keys"
proof -
  let ?f = "\<lambda>e. AList.update (se_message_number e, se_dh e) \<lparr>sk_message_key = se_message_key e, sk_dh = se_dh e\<rparr>"
  let ?g = "\<lambda>((n, _), sk). \<lparr>se_message_number = n, se_message_key = sk_message_key sk, se_dh = sk_dh sk\<rparr>"
  have "?f (?g e) = (\<lambda>(k, v). AList.update k v) e" if "e \<in> set keys" for e
  proof -
    obtain n d sk where e: "e = ((n, d), sk)" by (metis surj_pair)
    then have "sk_dh sk = d" using that skipped_okD(2) [OF assms] by blast
    then show ?thesis unfolding e by (cases sk) simp
  qed
  then have "fold (?f \<circ> ?g) keys [] = fold (\<lambda>(k, v). AList.update k v) keys []"
    by (intro fold_cong) (auto simp: comp_def)
  also have "\<dots> = keys" using fold_update_fresh [of "[]" keys] skipped_okD(1) [OF assms] by simp
  finally show ?thesis by (simp add: skipped_from_entries_def skipped_to_entries_def fold_map)
qed

text \<open>Lookups after an insertion that finds room, and after a removal.\<close>

lemma map_of_skipped_insert:
  "length keys < unat MAX_SKIP \<Longrightarrow>
     map_of (skipped_insert n dh mk keys) = (map_of keys)((n, dh) \<mapsto> \<lparr>sk_message_key = mk, sk_dh = dh\<rparr>)"
  by (simp add: skipped_insert_def update_conv')

lemma length_update_le: "length (AList.update k v m) \<le> Suc (length m)"
  by (induction m) auto

lemma length_skipped_insert: "length (skipped_insert n dh mk keys) \<le> Suc (length keys)"
  by (simp add: skipped_insert_def length_update_le)

section \<open>Header\<close>

record message_header =
  h_dh_public_key :: dh_public_key
  h_previous_chain_length :: u32
  h_message_number :: u32
  h_braid_msg :: message
  h_pq_message_number :: u32

definition header_serialize :: "message_header codec \<Rightarrow> message_header \<Rightarrow> bytes res" where
  "header_serialize H h =
     (case enc H h of
        Inl e \<Rightarrow> Inl (Panic ''header serialization cannot fail'')
      | Inr bs \<Rightarrow> Inr bs)"

definition header_deserialize :: "message_header codec \<Rightarrow> bytes \<Rightarrow> message_header res" where
  "header_deserialize H bs =
     (case dec H bs of
        Inl e \<Rightarrow> Inl (Serialization e)
      | Inr h \<Rightarrow> Inr h)"

lemma header_round_trip:
  assumes "codec_ok H"
  shows "\<exists>bs. header_serialize H h = Inr bs \<and> header_deserialize H bs = Inr h"
  using codec_ok_enc [OF assms, of h] codec_okD [OF assms]
  by (auto simp: header_serialize_def header_deserialize_def)

end
