(* ===== verification/Aead.thy ===== *)
theory Aead
  imports Interfaces
begin

text \<open>
  \<open>primitives/aead.rs\<close>: XChaCha20-Poly1305 under a key derived from the message key, the
  24-byte nonce in front. The nonce that \<open>encrypt\<close> draws is an argument. The pair is
  an instance of the interface \<open>sealed_box\<close>.
\<close>

definition NONCE_SIZE :: nat where
  "NONCE_SIZE = 24"

definition derive_enc_key :: "ext \<Rightarrow> bytes \<Rightarrow> bytes" where
  "derive_enc_key X mk = hkdf X (Some (zeros 32)) mk (ascii ''HushwireMessageKey'') 32"

definition aead_encrypt :: "ext \<Rightarrow> bytes \<Rightarrow> bytes \<Rightarrow> bytes \<Rightarrow> bytes \<Rightarrow> bytes res" where
  "aead_encrypt X mk nonce_bytes plaintext ad =
     (let enc_key = derive_enc_key X mk
      in case xchacha_seal X enc_key nonce_bytes ad plaintext of
           None \<Rightarrow> Inl (EncryptionFailed ''AEAD encrypt failed'')
         | Some ciphertext \<Rightarrow> Inr (nonce_bytes @ ciphertext))"

definition aead_decrypt :: "ext \<Rightarrow> bytes \<Rightarrow> bytes \<Rightarrow> bytes \<Rightarrow> bytes res" where
  "aead_decrypt X mk encrypted ad =
     (if length encrypted < NONCE_SIZE + 16 then Inl InvalidCiphertext
      else (let nonce_bytes = take NONCE_SIZE encrypted;
                ciphertext = drop NONCE_SIZE encrypted;
                enc_key = derive_enc_key X mk
            in case xchacha_open X enc_key nonce_bytes ad ciphertext of
                 None \<Rightarrow> Inl (DecryptionFailed ''AEAD decrypt failed'')
               | Some plaintext \<Rightarrow> Inr plaintext))"

definition nonce24 :: "bytes \<Rightarrow> bool" where
  "nonce24 n \<longleftrightarrow> length n = NONCE_SIZE"

section \<open>Laws of the two ciphers\<close>

lemma aead_pairD:
  assumes "aead_pair_ok sl op"
  shows "\<exists>c. sl k n a m = Some c" and "sl k n a m = Some c \<Longrightarrow> length c = length m + 16"
    and "sl k n a m = Some c \<Longrightarrow> op k n a c = Some m"
    and "op k n a c = Some m \<Longrightarrow> sl k n a m = Some c"
  using assms unfolding aead_pair_ok_def by (metis option.inject)+

lemmas xchachaD = aead_pairD [OF xchacha_ok_def [THEN iffD1]]
lemmas chachaD = aead_pairD [OF chacha_ok_def [THEN iffD1]]

section \<open>The sealed-box interface\<close>

lemma aead_encrypt_total: "xchacha_ok X \<Longrightarrow> \<exists>c. aead_encrypt X mk n p ad = Inr c"
  using xchachaD(1) [of X "derive_enc_key X mk" n ad p] by (auto simp: aead_encrypt_def Let_def)

lemma aead_decrypt_encrypt:
  assumes "xchacha_ok X" and "nonce24 n" and "aead_encrypt X mk n p ad = Inr c"
  shows "aead_decrypt X mk c ad = Inr p"
proof -
  from assms(3) obtain body where seal: "xchacha_seal X (derive_enc_key X mk) n ad p = Some body"
    and c: "c = n @ body"
    by (auto simp: aead_encrypt_def Let_def split: option.splits)
  then show ?thesis
    using xchachaD(2,3) [OF assms(1) seal] assms(2)
    by (simp add: aead_decrypt_def nonce24_def Let_def)
qed

lemma aead_decrypt_sealed:
  assumes "xchacha_ok X" and "aead_decrypt X mk c ad = Inr p"
  shows "\<exists>n. nonce24 n \<and> aead_encrypt X mk n p ad = Inr c"
proof -
  from assms(2) have len: "NONCE_SIZE + 16 \<le> length c"
    and open': "xchacha_open X (derive_enc_key X mk) (take NONCE_SIZE c) ad (drop NONCE_SIZE c) = Some p"
    by (auto simp: aead_decrypt_def Let_def split: if_splits option.splits)
  then show ?thesis
    using xchachaD(4) [OF assms(1) open']
    by (intro exI [of _ "take NONCE_SIZE c"]) (simp add: aead_encrypt_def nonce24_def Let_def)
qed

interpretation aead: sealed_box xchacha_ok aead_encrypt aead_decrypt nonce24
  by unfold_locales (auto intro: aead_encrypt_total aead_decrypt_encrypt aead_decrypt_sealed)

lemma aead_encrypt_length:
  assumes "xchacha_ok X" and "nonce24 n" and "aead_encrypt X mk n p ad = Inr c"
  shows "length c = 24 + length p + 16"
  using assms xchachaD(2) [OF assms(1)]
  by (fastforce simp: aead_encrypt_def Let_def nonce24_def NONCE_SIZE_def split: option.splits)

end
