(* ===== verification/Padding.thy ===== *)
theory Padding
  imports Foundation
begin

text \<open>
  \<open>primitives/padding.rs\<close>: ISO/IEC 7816-4 padding to a multiple of 160 bytes. The
  backwards scan of \<open>unpad\<close> is \<open>unpad_from\<close>, which looks at one index at a time.
\<close>

definition BLOCK_SIZE :: nat where
  "BLOCK_SIZE = 160"

definition pad :: "bytes \<Rightarrow> bytes" where
  "pad plaintext =
     (let padded_len = div_ceil (length plaintext + 1) BLOCK_SIZE * BLOCK_SIZE
      in resize padded_len 0x00 (plaintext @ [0x80]))"

fun unpad_from :: "bytes \<Rightarrow> nat \<Rightarrow> bytes res" where
  "unpad_from padded 0 = Inl InvalidPadding"
| "unpad_from padded (Suc i) =
     (if padded ! i = 0x80 then Inr (take i padded)
      else if padded ! i = 0x00 then unpad_from padded i
      else Inl InvalidPadding)"

definition unpad :: "bytes \<Rightarrow> bytes res" where
  "unpad padded = unpad_from padded (length padded)"

section \<open>Lemmas\<close>

lemma padded_len_bounds:
  "n + 1 \<le> div_ceil (n + 1) BLOCK_SIZE * BLOCK_SIZE"
  "div_ceil (n + 1) BLOCK_SIZE * BLOCK_SIZE \<le> n + BLOCK_SIZE"
  using div_ceil_mult_ge [of BLOCK_SIZE "n + 1"] div_ceil_mult_less [of BLOCK_SIZE "n + 1"]
  by (simp_all add: BLOCK_SIZE_def)

lemma length_pad [simp]:
  "length (pad p) = div_ceil (length p + 1) BLOCK_SIZE * BLOCK_SIZE"
  by (simp add: pad_def)

lemma pad_shape: "\<exists>z. pad p = p @ 0x80 # replicate z 0"
  using padded_len_bounds(1) [of "length p"] by (auto simp: pad_def resize_extend)

lemma unpad_from_zeros:
  "drop (length p + 1) b = replicate z 0 \<Longrightarrow> take (length p + 1) b = p @ [0x80] \<Longrightarrow>
   unpad_from b (length p + 1 + z) = Inr p"
proof (induction z arbitrary: b)
  case 0
  then have "b = p @ [0x80]" by simp
  then show ?case by (simp add: nth_append)
next
  case (Suc z)
  then have b: "b = p @ [0x80] @ replicate (Suc z) 0"
    by (metis append_assoc append_take_drop_id)
  have "unpad_from (p @ [0x80] @ replicate n 0) (length p + 1 + m) = Inr p" if "m \<le> n" for m n
    using that by (induction m) (auto simp: nth_append)
  from this [of "Suc z" "Suc z"] show ?case by (simp add: b del: unpad_from.simps)
qed

lemma unpad_zeros: "unpad (p @ 0x80 # replicate z 0) = Inr p"
  using unpad_from_zeros [of p "p @ 0x80 # replicate z 0" z] by (simp add: unpad_def)

lemma unpad_pad [simp]: "unpad (pad p) = Inr p"
  using pad_shape [of p] unpad_zeros by metis

lemma unpad_from_accepts:
  "unpad_from b i = Inr p \<Longrightarrow> i \<le> length b \<Longrightarrow> \<exists>z. take i b = p @ 0x80 # replicate z 0"
proof (induction b i rule: unpad_from.induct)
  case (2 b i)
  have split: "take (Suc i) b = take i b @ [b ! i]"
    using "2.prems"(2) by (simp add: take_Suc_conv_app_nth)
  show ?case
  proof (cases "b ! i = 0x80")
    case True
    then show ?thesis using "2.prems" split by (auto intro: exI [of _ 0])
  next
    case False
    then have zero: "b ! i = 0" and rec: "unpad_from b i = Inr p"
      using "2.prems"(1) by (auto split: if_splits)
    from "2.IH" [OF False zero rec] "2.prems"(2) obtain z where "take i b = p @ 0x80 # replicate z 0"
      by auto
    then show ?thesis using split zero
      by (auto simp: replicate_append_same intro!: exI [of _ "Suc z"])
  qed
qed simp

section \<open>Properties\<close>

text \<open>
  Padding then unpadding returns the plaintext, and the padded length is a multiple
  of 160 that exceeds the plaintext by 1 to 160 bytes, so it depends on the plaintext
  length only through its block count.
\<close>

theorem pad_round_trip:
  "unpad (pad p) = Inr p \<and> BLOCK_SIZE dvd length (pad p) \<and>
   length p < length (pad p) \<and> length (pad p) \<le> length p + BLOCK_SIZE"
proof -
  obtain z where "pad p = p @ 0x80 # replicate z 0" using pad_shape by blast
  then have "unpad (pad p) = Inr p" by (simp add: unpad_zeros)
  then show ?thesis using padded_len_bounds [of "length p"] by simp
qed

text \<open>
  \<open>unpad\<close> accepts exactly the byte strings that end in one 0x80 followed by zeros,
  and returns what precedes the marker; every other input, the empty one included, is
  \<open>InvalidPadding\<close>.
\<close>

theorem unpad_exact:
  "(\<forall>p. unpad b = Inr p \<longleftrightarrow> (\<exists>z. b = p @ 0x80 # replicate z 0)) \<and>
   (unpad b = Inl InvalidPadding \<longleftrightarrow> \<not> (\<exists>p z. b = p @ 0x80 # replicate z 0))"
proof -
  have err: "unpad_from b i = Inl InvalidPadding \<or> (\<exists>p. unpad_from b i = Inr p)" for i
    by (induction b i rule: unpad_from.induct) auto
  have acc: "unpad b = Inr p \<longleftrightarrow> (\<exists>z. b = p @ 0x80 # replicate z 0)" for p
    using unpad_from_accepts [of b "length b" p] by (auto simp: unpad_zeros unpad_def [symmetric])
  then show ?thesis using err [of "length b"] by (metis sum.distinct(1) unpad_def)
qed

end
