(* ===== verification/Session.thy ===== *)
theory Session
  imports Ratchet_Chain Aead Padding
begin

text \<open>
  \<open>protocol/ratchet/mod.rs\<close>: the Triple Ratchet session. Its state is the record
  \<open>ratchet_session\<close>; every operation that mutates the session returns the session it
  leaves behind next to its result, since an error does not undo what was changed before.
  Randomness is an argument: the bytes drawn for a new ratchet key, the draws of the
  post-quantum ratchet, the AEAD nonce. The header codec and the codec of the stored state
  are Postcard's, parameters. \<open>initialize_alice\<close> and \<open>perform_dh_ratchet_step\<close> have no
  failing branch, so the \<open>Ok\<close> around their value is left out.
\<close>

section \<open>Messages and state\<close>

record ratchet_message =
  rm_header :: bytes
  rm_ciphertext :: bytes

record pre_key_ratchet_message =
  pm_registration_id :: registration_id
  pm_pre_key_id :: "pre_key_id option"
  pm_signed_pre_key_id :: signed_pre_key_id
  pm_kyber_pre_key_id :: kyber_pre_key_id
  pm_ephemeral_dh_key :: dh_public_key
  pm_kyber_ciphertext :: bytes
  pm_identity_key :: identity_public_key
  pm_message :: ratchet_message

datatype encrypted_output =
    Message ratchet_message
  | PreKeyMessage pre_key_ratchet_message

record ratchet_session =
  rs_dh_self :: bytes
  rs_dh_self_public :: dh_public_key
  rs_dh_remote :: "dh_public_key option"
  rs_root_key :: root_key
  rs_sending_chain :: "chain_state option"
  rs_receiving_chain :: "chain_state option"
  rs_previous_sending_chain_length :: u32
  rs_skipped :: skipped_keys
  rs_pending_prekey :: "pqxdh_initial_message option"
  rs_spqr :: spqr_state
  rs_initial_root_id :: u64

definition shared_secret_id :: "bytes \<Rightarrow> u64" where
  "shared_secret_id ss = from_be (take 8 ss)"

section \<open>Initialization\<close>

definition initialize_alice :: "ext \<Rightarrow> bytes \<Rightarrow> bytes \<Rightarrow> bytes \<Rightarrow> ratchet_session" where
  "initialize_alice X dh_private shared_secret bob_dh_public =
     (let ss = RootKey shared_secret;
          dh_self = dh_private;
          dh_self_public = DhPublicKey (x_public X dh_self);
          dh_out = x_dh X dh_self bob_dh_public;
          rk_out = kdf_rk X ss dh_out
      in \<lparr>rs_dh_self = dh_self, rs_dh_self_public = dh_self_public,
          rs_dh_remote = Some (DhPublicKey bob_dh_public),
          rs_root_key = rk_root_key rk_out,
          rs_sending_chain = Some (chain_new (rk_chain_key rk_out)),
          rs_receiving_chain = None, rs_previous_sending_chain_length = 0,
          rs_skipped = skipped_new, rs_pending_prekey = None,
          rs_spqr = spqr_new_sender X shared_secret,
          rs_initial_root_id = shared_secret_id shared_secret\<rparr>)"

definition initialize_alice_with_prekey ::
  "ext \<Rightarrow> bytes \<Rightarrow> bytes \<Rightarrow> bytes \<Rightarrow> pqxdh_initial_message \<Rightarrow> ratchet_session" where
  "initialize_alice_with_prekey X dh_private shared_secret bob_dh_public initial_message =
     (initialize_alice X dh_private shared_secret bob_dh_public)\<lparr>rs_pending_prekey := Some initial_message\<rparr>"

definition initialize_bob :: "ext \<Rightarrow> bytes \<Rightarrow> bytes \<times> bytes \<Rightarrow> ratchet_session" where
  "initialize_bob X shared_secret bob_dh_keypair =
     \<lparr>rs_dh_self = fst bob_dh_keypair, rs_dh_self_public = DhPublicKey (snd bob_dh_keypair),
      rs_dh_remote = None, rs_root_key = RootKey shared_secret,
      rs_sending_chain = None, rs_receiving_chain = None, rs_previous_sending_chain_length = 0,
      rs_skipped = skipped_new, rs_pending_prekey = None,
      rs_spqr = spqr_new_receiver X shared_secret,
      rs_initial_root_id = shared_secret_id shared_secret\<rparr>"

section \<open>Encryption\<close>

definition build_ad :: "ext \<Rightarrow> identity_public_key \<Rightarrow> identity_public_key \<Rightarrow> bytes \<Rightarrow> bytes res" where
  "build_ad X sender recipient header =
     (case to_x25519 X sender of
        Inl e \<Rightarrow> Inl e
      | Inr sender_x25519 \<Rightarrow>
          (case to_x25519 X recipient of
             Inl e \<Rightarrow> Inl e
           | Inr recipient_x25519 \<Rightarrow> Inr (sender_x25519 @ recipient_x25519 @ header)))"

text \<open>The message once both keys are there: header, associated data, hybrid key, padding, AEAD.\<close>

definition seal_message ::
  "ext \<Rightarrow> message_header codec \<Rightarrow> bytes \<Rightarrow> bytes \<Rightarrow> identity_public_key \<Rightarrow> identity_public_key \<Rightarrow>
   message_header \<Rightarrow> message_key \<Rightarrow> message_key \<Rightarrow> ratchet_message res" where
  "seal_message X H nonce plaintext sender recipient header ec_mk pq_mk =
     (case header_serialize H header of
        Inl e \<Rightarrow> Inl e
      | Inr header_bytes \<Rightarrow>
          (case build_ad X sender recipient header_bytes of
             Inl e \<Rightarrow> Inl e
           | Inr ad \<Rightarrow>
               (let mk = kdf_hybrid X ec_mk (message_key_bytes pq_mk);
                    padded = pad plaintext
                in case aead_encrypt X (message_key_bytes mk) nonce padded ad of
                     Inl e \<Rightarrow> Inl e
                   | Inr ciphertext \<Rightarrow> Inr \<lparr>rm_header = header_bytes, rm_ciphertext = ciphertext\<rparr>)))"

definition encrypt_raw ::
  "ext \<Rightarrow> message_header codec \<Rightarrow> (nat \<Rightarrow> bytes) \<Rightarrow> bytes \<Rightarrow> bytes \<Rightarrow> identity_public_key \<Rightarrow> identity_public_key \<Rightarrow>
   ratchet_session \<Rightarrow> ratchet_session \<times> ratchet_message res" where
  "encrypt_raw X H rng nonce plaintext sender recipient s =
     (case ratchet_send_key X rng (rs_spqr s) of
        (pq, Inl e) \<Rightarrow> (s\<lparr>rs_spqr := pq\<rparr>, Inl e)
      | (pq, Inr (braid_msg, pq_message_number, pq_mk)) \<Rightarrow>
          (let s = s\<lparr>rs_spqr := pq\<rparr>
           in case rs_sending_chain s of
                None \<Rightarrow> (s, Inl InvalidSessionState)
              | Some chain \<Rightarrow>
                  (let (chain, ec_mk) = chain_advance X chain;
                       s = s\<lparr>rs_sending_chain := Some chain\<rparr>;
                       header = \<lparr>h_dh_public_key = rs_dh_self_public s,
                                 h_previous_chain_length = rs_previous_sending_chain_length s,
                                 h_message_number = cs_message_number chain - 1,
                                 h_braid_msg = braid_msg, h_pq_message_number = pq_message_number\<rparr>
                   in (s, seal_message X H nonce plaintext sender recipient header ec_mk pq_mk))))"

definition encrypt ::
  "ext \<Rightarrow> message_header codec \<Rightarrow> (nat \<Rightarrow> bytes) \<Rightarrow> bytes \<Rightarrow> bytes \<Rightarrow> identity_public_key \<Rightarrow> identity_public_key \<Rightarrow>
   ratchet_session \<Rightarrow> ratchet_session \<times> ratchet_message res" where
  "encrypt X H rng nonce plaintext sender recipient s =
     (if rs_pending_prekey s \<noteq> None then (s, Inl InvalidSessionState)
      else encrypt_raw X H rng nonce plaintext sender recipient s)"

definition wrap_prekey ::
  "pqxdh_initial_message \<Rightarrow> identity_public_key \<Rightarrow> ratchet_message \<Rightarrow> pre_key_ratchet_message" where
  "wrap_prekey initial sender msg =
     \<lparr>pm_registration_id = im_registration_id initial,
      pm_pre_key_id = im_one_time_pre_key_id initial,
      pm_signed_pre_key_id = im_signed_pre_key_id initial,
      pm_kyber_pre_key_id = im_kyber_pre_key_id initial,
      pm_ephemeral_dh_key = im_ephemeral_public_key initial,
      pm_kyber_ciphertext = im_kyber_ciphertext initial,
      pm_identity_key = sender,
      pm_message = msg\<rparr>"

definition encrypt_message ::
  "ext \<Rightarrow> message_header codec \<Rightarrow> (nat \<Rightarrow> bytes) \<Rightarrow> bytes \<Rightarrow> bytes \<Rightarrow> identity_public_key \<Rightarrow> identity_public_key \<Rightarrow>
   ratchet_session \<Rightarrow> ratchet_session \<times> encrypted_output res" where
  "encrypt_message X H rng nonce plaintext sender recipient s =
     (case encrypt_raw X H rng nonce plaintext sender recipient s of
        (s, Inl e) \<Rightarrow> (s, Inl e)
      | (s, Inr msg) \<Rightarrow>
          (case rs_pending_prekey s of
             Some initial \<Rightarrow> (s\<lparr>rs_pending_prekey := None\<rparr>, Inr (PreKeyMessage (wrap_prekey initial sender msg)))
           | None \<Rightarrow> (s, Inr (Message msg))))"

definition encrypt_prekey_message ::
  "ext \<Rightarrow> message_header codec \<Rightarrow> (nat \<Rightarrow> bytes) \<Rightarrow> bytes \<Rightarrow> bytes \<Rightarrow> identity_public_key \<Rightarrow> identity_public_key \<Rightarrow>
   pqxdh_initial_message \<Rightarrow> ratchet_session \<Rightarrow> ratchet_session \<times> pre_key_ratchet_message res" where
  "encrypt_prekey_message X H rng nonce plaintext sender recipient initial s =
     (case encrypt X H rng nonce plaintext sender recipient s of
        (s, Inl e) \<Rightarrow> (s, Inl e)
      | (s, Inr msg) \<Rightarrow> (s, Inr (wrap_prekey initial sender msg)))"

section \<open>Decryption\<close>

text \<open>The \<open>while chain.message_number < until\<close> loop, storing each key it passes.\<close>

function ec_skip_loop :: "ext \<Rightarrow> u32 \<Rightarrow> bytes \<Rightarrow> chain_state \<Rightarrow> skipped_keys \<Rightarrow> chain_state \<times> skipped_keys" where
  "ec_skip_loop X until dh chain keys =
     (if cs_message_number chain < until
      then (let (chain, mk) = chain_advance X chain;
                n = cs_message_number chain - 1
            in ec_skip_loop X until dh chain (skipped_insert n dh mk keys))
      else (chain, keys))"
  by pat_completeness auto
termination
proof (relation "measure (\<lambda>(X, until, dh, c, keys). unat until - unat (cs_message_number c))", goal_cases)
  case (2 X until dh c keys x c1 mk n)
  then have "cs_message_number c1 = cs_message_number c + 1" by (auto simp: chain_advance_def Let_def)
  then have "unat (cs_message_number c1) = unat (cs_message_number c) + 1"
    using 2(1) by (simp add: unat_add_one_if_less)
  then show ?case using 2(1) by (simp add: word_less_nat_alt)
qed simp

declare ec_skip_loop.simps [simp del]

definition skip_receiving_messages :: "ext \<Rightarrow> u32 \<Rightarrow> ratchet_session \<Rightarrow> ratchet_session \<times> unit res" where
  "skip_receiving_messages X until s =
     (let chain_dh = (case rs_dh_remote s of None \<Rightarrow> zeros 32 | Some d \<Rightarrow> dh_public_key_bytes d)
      in case rs_receiving_chain s of
           None \<Rightarrow> (s, Inr ())
         | Some chain \<Rightarrow>
             (if until < cs_message_number chain then (s, Inr ())
              else (let gap = until - cs_message_number chain
                    in if MAX_SKIP < gap then (s, Inl (MaxSkipExceeded gap MAX_SKIP))
                       else (let (chain, keys) = ec_skip_loop X until chain_dh chain (rs_skipped s)
                             in (s\<lparr>rs_receiving_chain := Some chain, rs_skipped := keys\<rparr>, Inr ())))))"

definition perform_dh_ratchet_step :: "ext \<Rightarrow> bytes \<Rightarrow> message_header \<Rightarrow> ratchet_session \<Rightarrow> ratchet_session" where
  "perform_dh_ratchet_step X new_dh_bytes header s =
     (let s = s\<lparr>rs_previous_sending_chain_length :=
                  (case rs_sending_chain s of None \<Rightarrow> 0 | Some c \<Rightarrow> cs_message_number c),
                rs_dh_remote := Some (h_dh_public_key header)\<rparr>;
          dh_remote = dh_public_key_bytes (h_dh_public_key header);
          rk_out = kdf_rk X (rs_root_key s) (x_dh X (rs_dh_self s) dh_remote);
          s = s\<lparr>rs_root_key := rk_root_key rk_out,
                rs_receiving_chain := Some (chain_new (rk_chain_key rk_out)),
                rs_dh_self := new_dh_bytes,
                rs_dh_self_public := DhPublicKey (x_public X new_dh_bytes)\<rparr>;
          rk_out2 = kdf_rk X (rs_root_key s) (x_dh X (rs_dh_self s) dh_remote)
      in s\<lparr>rs_root_key := rk_root_key rk_out2,
           rs_sending_chain := Some (chain_new (rk_chain_key rk_out2))\<rparr>)"

text \<open>
  The key of the Diffie-Hellman ratchet for a header: a stored one, or the next of the
  receiving chain after a ratchet step, if the header has a new key, and after skipping.
\<close>

definition ratchet_if_new :: "ext \<Rightarrow> bytes \<Rightarrow> message_header \<Rightarrow> ratchet_session \<Rightarrow> ratchet_session \<times> unit res" where
  "ratchet_if_new X new_dh_bytes header s =
     (let needs_ratchet = (case rs_dh_remote s of None \<Rightarrow> True | Some r \<Rightarrow> r \<noteq> h_dh_public_key header)
      in if needs_ratchet
         then (case skip_receiving_messages X (h_previous_chain_length header) s of
                 (s, Inl e) \<Rightarrow> (s, Inl e)
               | (s, Inr _) \<Rightarrow> (perform_dh_ratchet_step X new_dh_bytes header s, Inr ()))
         else (s, Inr ()))"

definition take_receiving_key :: "ext \<Rightarrow> u32 \<Rightarrow> ratchet_session \<Rightarrow> ratchet_session \<times> message_key res" where
  "take_receiving_key X message_number s =
     (case skip_receiving_messages X message_number s of
        (s, Inl e) \<Rightarrow> (s, Inl e)
      | (s, Inr _) \<Rightarrow>
          (case rs_receiving_chain s of
             None \<Rightarrow> (s, Inl InvalidSessionState)
           | Some chain \<Rightarrow>
               (let (chain, mk) = chain_advance X chain
                in (s\<lparr>rs_receiving_chain := Some chain\<rparr>, Inr mk))))"

definition resolve_ec_key :: "ext \<Rightarrow> bytes \<Rightarrow> message_header \<Rightarrow> ratchet_session \<Rightarrow> ratchet_session \<times> message_key res" where
  "resolve_ec_key X new_dh_bytes header s =
     (case try_remove_by_dh (dh_public_key_bytes (h_dh_public_key header)) (h_message_number header) (rs_skipped s) of
        (keys, Some mk) \<Rightarrow> (s\<lparr>rs_skipped := keys\<rparr>, Inr mk)
      | (keys, None) \<Rightarrow>
          (case ratchet_if_new X new_dh_bytes header s of
             (s, Inl e) \<Rightarrow> (s, Inl e)
           | (s, Inr _) \<Rightarrow> take_receiving_key X (h_message_number header) s))"

definition open_message ::
  "ext \<Rightarrow> bytes \<Rightarrow> bytes \<Rightarrow> message_key \<Rightarrow> message_key \<Rightarrow> bytes res" where
  "open_message X ad ciphertext ec_mk pq_mk =
     (let mk = kdf_hybrid X ec_mk (message_key_bytes pq_mk)
      in case aead_decrypt X (message_key_bytes mk) ciphertext ad of
           Inl e \<Rightarrow> Inl e
         | Inr padded \<Rightarrow> unpad padded)"

definition decrypt ::
  "ext \<Rightarrow> message_header codec \<Rightarrow> bytes \<Rightarrow> ratchet_message \<Rightarrow> identity_public_key \<Rightarrow> identity_public_key \<Rightarrow>
   ratchet_session \<Rightarrow> ratchet_session \<times> bytes res" where
  "decrypt X H new_dh_bytes msg sender recipient s =
     (case header_deserialize H (rm_header msg) of
        Inl e \<Rightarrow> (s, Inl e)
      | Inr header \<Rightarrow>
          (case build_ad X sender recipient (rm_header msg) of
             Inl e \<Rightarrow> (s, Inl e)
           | Inr ad \<Rightarrow>
               (case resolve_ec_key X new_dh_bytes header s of
                  (s, Inl e) \<Rightarrow> (s, Inl e)
                | (s, Inr ec_mk) \<Rightarrow>
                    (case ratchet_receive_key X (h_braid_msg header) (h_pq_message_number header) (rs_spqr s) of
                       (pq, Inl e) \<Rightarrow> (s\<lparr>rs_spqr := pq\<rparr>, Inl e)
                     | (pq, Inr pq_mk) \<Rightarrow>
                         (s\<lparr>rs_spqr := pq\<rparr>, open_message X ad (rm_ciphertext msg) ec_mk pq_mk)))))"

definition decrypt_prekey_message ::
  "ext \<Rightarrow> message_header codec \<Rightarrow> bytes \<Rightarrow> pre_key_ratchet_message \<Rightarrow> identity_key_pair \<Rightarrow> bytes \<Rightarrow> bytes \<Rightarrow>
   bytes option \<Rightarrow> bytes \<Rightarrow> (ratchet_session \<times> bytes) res" where
  "decrypt_prekey_message X H new_dh_bytes msg our_identity spk_private spk_public opk_private kyber_dk_seed =
     (let dk = dk_from_seed_bytes X kyber_dk_seed;
          initial_message =
            \<lparr>im_registration_id = pm_registration_id msg,
             im_ephemeral_public_key = pm_ephemeral_dh_key msg,
             im_signed_pre_key_id = pm_signed_pre_key_id msg,
             im_one_time_pre_key_id = pm_pre_key_id msg,
             im_kyber_pre_key_id = pm_kyber_pre_key_id msg,
             im_kyber_ciphertext = pm_kyber_ciphertext msg,
             im_identity_key = pm_identity_key msg\<rparr>
      in case process_initial_message X our_identity spk_private opk_private dk initial_message of
           Inl e \<Rightarrow> Inl e
         | Inr shared_secret \<Rightarrow>
             (let session = initialize_bob X shared_secret (spk_private, spk_public)
              in case decrypt X H new_dh_bytes (pm_message msg) (pm_identity_key msg) (public_key X our_identity) session of
                   (_, Inl e) \<Rightarrow> Inl e
                 | (session, Inr plaintext) \<Rightarrow> Inr (session, plaintext)))"

section \<open>Diagnostics\<close>

definition root_key_fingerprint :: "ratchet_session \<Rightarrow> u32" where
  "root_key_fingerprint s = foldl (\<lambda>a x. a * 31 + ucast x) 0 (root_key_bytes (rs_root_key s))"

definition root_key_id :: "ratchet_session \<Rightarrow> u64" where
  "root_key_id s = rs_initial_root_id s"

section \<open>Storage\<close>

text \<open>
  The store of skipped keys is written through its own \<open>Serialize\<close> instance, so the record
  that reaches the codec holds its entries.
\<close>

definition SESSION_VERSION :: u32 where
  "SESSION_VERSION = 6"

definition default_session_version :: u32 where
  "default_session_version = SESSION_VERSION"

record serialized_state =
  ss_session_version :: u32
  ss_dh_self_bytes :: bytes
  ss_dh_self_public :: dh_public_key
  ss_dh_remote :: "dh_public_key option"
  ss_root_key :: root_key
  ss_sending_chain :: "chain_state option"
  ss_receiving_chain :: "chain_state option"
  ss_previous_sending_chain_length :: u32
  ss_skipped :: "skipped_key_entry list"
  ss_pending_prekey :: "pqxdh_initial_message option"
  ss_spqr :: spqr_state

definition serialized_of :: "ratchet_session \<Rightarrow> serialized_state" where
  "serialized_of s =
     \<lparr>ss_session_version = SESSION_VERSION,
      ss_dh_self_bytes = rs_dh_self s, ss_dh_self_public = rs_dh_self_public s,
      ss_dh_remote = rs_dh_remote s, ss_root_key = rs_root_key s,
      ss_sending_chain = rs_sending_chain s, ss_receiving_chain = rs_receiving_chain s,
      ss_previous_sending_chain_length = rs_previous_sending_chain_length s,
      ss_skipped = skipped_to_entries (rs_skipped s), ss_pending_prekey = rs_pending_prekey s, ss_spqr = rs_spqr s\<rparr>"

definition session_serialize :: "serialized_state codec \<Rightarrow> ratchet_session \<Rightarrow> bytes res" where
  "session_serialize C s = serialize C (serialized_of s)"

definition version_error :: "u32 \<Rightarrow> crypto_error" where
  "version_error v =
     Serialization (''session version '' @ show_nat (unat v) @
       '' is not the supported version '' @ show_nat (unat SESSION_VERSION))"

definition session_deserialize :: "serialized_state codec \<Rightarrow> bytes \<Rightarrow> ratchet_session res" where
  "session_deserialize C bs =
     (case deserialize C bs of
        Inl e \<Rightarrow> Inl e
      | Inr st \<Rightarrow>
          (if ss_session_version st \<noteq> SESSION_VERSION then Inl (version_error (ss_session_version st))
           else Inr \<lparr>rs_dh_self = ss_dh_self_bytes st, rs_dh_self_public = ss_dh_self_public st,
                     rs_dh_remote = ss_dh_remote st, rs_root_key = ss_root_key st,
                     rs_sending_chain = ss_sending_chain st, rs_receiving_chain = ss_receiving_chain st,
                     rs_previous_sending_chain_length = ss_previous_sending_chain_length st,
                     rs_skipped = skipped_from_entries (ss_skipped st), rs_pending_prekey = ss_pending_prekey st,
                     rs_spqr = ss_spqr st, rs_initial_root_id = 0\<rparr>))"


section \<open>Stored sessions\<close>

lemma session_round_trip:
  assumes "codec_inverts C (serialized_of s)" and "skipped_ok (rs_skipped s)"
  shows "\<exists>bs. session_serialize C s = Inr bs \<and>
           session_deserialize C bs = Inr (s\<lparr>rs_initial_root_id := 0\<rparr>)"
  using deserialize_serialize_at [OF assms(1)] skipped_entries_round_trip [OF assms(2)]
  by (cases s) (auto simp: session_serialize_def session_deserialize_def serialized_of_def)

lemma ec_skip_loop_ok: "skipped_ok keys \<Longrightarrow> skipped_ok (snd (ec_skip_loop X until dh chain keys))"
proof (induction X until dh chain keys rule: ec_skip_loop.induct)
  case (1 X until dh chain keys)
  show ?case
  proof (cases "cs_message_number chain < until")
    case True
    obtain c mk where adv: "chain_advance X chain = (c, mk)" by (metis surj_pair)
    have "skipped_ok (snd (ec_skip_loop X until dh c (skipped_insert (cs_message_number c - 1) dh mk keys)))"
      using "1.IH" [OF True adv [symmetric] refl refl] skipped_ok_insert [OF "1.prems"] by simp
    then show ?thesis using True adv by (subst ec_skip_loop.simps) (simp add: Let_def)
  next
    case False
    then show ?thesis using "1.prems" by (simp add: ec_skip_loop.simps)
  qed
qed

lemma skip_receiving_messages_ok:
  "skipped_ok (rs_skipped s) \<Longrightarrow> skipped_ok (rs_skipped (fst (skip_receiving_messages X until s)))"
  using ec_skip_loop_ok
  by (auto simp: skip_receiving_messages_def Let_def split_beta split: option.splits)

lemma perform_dh_ratchet_step_skipped [simp]:
  "rs_skipped (perform_dh_ratchet_step X d h s) = rs_skipped s"
  by (simp add: perform_dh_ratchet_step_def Let_def)

lemma ratchet_if_new_cases:
  "fst (ratchet_if_new X d h s) \<in>
     {s, fst (skip_receiving_messages X (h_previous_chain_length h) s),
      perform_dh_ratchet_step X d h (fst (skip_receiving_messages X (h_previous_chain_length h) s))}"
  by (simp add: ratchet_if_new_def Let_def split: prod.splits sum.splits option.splits)

lemma take_receiving_key_cases:
  "\<exists>c. fst (take_receiving_key X n s) = (fst (skip_receiving_messages X n s))\<lparr>rs_receiving_chain := c\<rparr>"
proof -
  obtain t r where t: "skip_receiving_messages X n s = (t, r)" by (metis surj_pair)
  then show ?thesis
    by (cases r; cases "rs_receiving_chain t")
      (auto simp: take_receiving_key_def Let_def split_beta intro: exI [of _ "rs_receiving_chain t"])
qed

lemma resolve_ec_key_cases:
  "fst (resolve_ec_key X d h s) \<in>
     {s\<lparr>rs_skipped := fst (try_remove_by_dh (dh_public_key_bytes (h_dh_public_key h)) (h_message_number h) (rs_skipped s))\<rparr>,
      fst (ratchet_if_new X d h s),
      fst (take_receiving_key X (h_message_number h) (fst (ratchet_if_new X d h s)))}"
  by (simp add: resolve_ec_key_def split: prod.splits sum.splits option.splits)

text \<open>Every operation keeps the store of skipped keys well-formed and bounded.\<close>

lemma ratchet_if_new_ok: "skipped_ok (rs_skipped s) \<Longrightarrow> skipped_ok (rs_skipped (fst (ratchet_if_new X d h s)))"
  using ratchet_if_new_cases [of X d h s] skip_receiving_messages_ok [of s X] by auto

lemma resolve_ec_key_ok:
  assumes "skipped_ok (rs_skipped s)"
  shows "skipped_ok (rs_skipped (fst (resolve_ec_key X d h s)))"
proof -
  let ?r = "fst (ratchet_if_new X d h s)"
  have "skipped_ok (rs_skipped (fst (take_receiving_key X (h_message_number h) ?r)))"
    using take_receiving_key_cases [of X "h_message_number h" ?r]
      skip_receiving_messages_ok [OF ratchet_if_new_ok [OF assms]] by auto
  then show ?thesis
    using resolve_ec_key_cases [of X d h s] ratchet_if_new_ok [OF assms] skipped_ok_remove [OF assms]
    by (elim insertE) simp_all
qed

lemma decrypt_skipped_ok:
  assumes "skipped_ok (rs_skipped s)"
  shows "skipped_ok (rs_skipped (fst (decrypt X H d msg sender recipient s)))"
proof (cases "header_deserialize H (rm_header msg)")
  case (Inr h)
  obtain s' r where r: "resolve_ec_key X d h s = (s', r)" by (metis surj_pair)
  then have "skipped_ok (rs_skipped s')" using resolve_ec_key_ok [OF assms] by (metis fst_conv)
  then show ?thesis using Inr r assms by (simp add: decrypt_def split: sum.splits prod.splits)
qed (simp add: decrypt_def assms)

lemma encrypt_raw_skipped: "rs_skipped (fst (encrypt_raw X H rng nonce p a b s)) = rs_skipped s"
  by (auto simp: encrypt_raw_def Let_def split_beta split: sum.splits prod.splits option.splits)

end
