(* ===== verification/Spqr_Keys.thy ===== *)
theory Spqr_Keys
  imports Spqr
begin

text \<open>
  The receiving half of SPQR against its key schedule. The chain of an epoch is a
  \<open>stepped_chain\<close>: position \<open>i\<close> yields the key of message number \<open>i + 1\<close>. A schedule
  \<open>K\<close> assigns a key to every (epoch, number); \<open>spqr_good X K s\<close> says that every chain and
  every stored key of \<open>s\<close> agrees with it. \<open>derive_receive_key\<close> then interprets
  \<open>key_receiver\<close>: whatever the order of delivery, it returns the scheduled key, at most
  once per (epoch, number).
\<close>

interpretation scka: stepped_chain "\<lambda>c. fst (scka_advance X c)" "\<lambda>c. snd (snd (scka_advance X c))"
  "\<lambda>c. unat (sc_n c)" "2 ^ 32" for X
  by unfold_locales (simp add: scka_advance_def Let_def unat_add_one)

section \<open>The skip loop\<close>

lemma scka_advance_n: "sc_n (fst (scka_advance X c)) = sc_n c + 1" "fst (snd (scka_advance X c)) = sc_n c + 1"
  by (simp_all add: scka_advance_def Let_def)

lemma skip_loop_follows:
  assumes "scka.follows X K c" and "sc_n c \<le> until"
  shows "scka.follows X K (fst (skip_loop X until c)) \<and> sc_n (fst (skip_loop X until c)) = until \<and>
         snd (skip_loop X until c) = map (\<lambda>i. (of_nat (Suc i), K i)) [unat (sc_n c)..<unat until]"
  using assms
proof (induction X until c rule: skip_loop.induct)
  case (1 X until c)
  show ?case
  proof (cases "sc_n c < until")
    case True
    obtain c1 n mk where adv: "scka_advance X c = (c1, n, mk)" by (metis prod_cases3)
    have "unat (sc_n c) < unat until" using True by (simp add: word_less_nat_alt)
    moreover have "unat until < 2 ^ 32" using unsigned_less [of until] by simp
    ultimately have lim: "Suc (unat (sc_n c)) < 2 ^ 32" and lt: "unat (sc_n c) < unat until" by linarith+
    have c1: "scka.follows X K c1" "mk = K (unat (sc_n c))"
      using scka.follows_advance [OF "1.prems"(1) lim] adv by simp_all
    have n: "sc_n c1 = sc_n c + 1" "n = sc_n c + 1" using scka_advance_n [of X c] adv by simp_all
    have un: "unat (sc_n c1) = Suc (unat (sc_n c))" using n True by (simp add: unat_add_one_if_less)
    then have "sc_n c1 \<le> until" using lt by (simp add: word_le_nat_alt)
    from "1.IH" [OF True _ _ c1(1) this] adv
    have ih: "scka.follows X K (fst (skip_loop X until c1))" "sc_n (fst (skip_loop X until c1)) = until"
      "snd (skip_loop X until c1) = map (\<lambda>i. (of_nat (Suc i), K i)) [Suc (unat (sc_n c))..<unat until]"
      using un by auto
    have "n = of_nat (Suc (unat (sc_n c)))" using n(2) by (simp add: add.commute)
    then show ?thesis
      using ih True adv c1(2) lt
      by (subst (1 2 3) skip_loop.simps) (simp add: Let_def split_beta upt_rec)
  next
    case False
    then have "sc_n c = until" using "1.prems"(2) by simp
    then show ?thesis using "1.prems"(1) by (simp add: skip_loop.simps [of X until c])
  qed
qed

section \<open>What a state holds\<close>

definition stored :: "spqr_state \<Rightarrow> u64 \<Rightarrow> u32 \<Rightarrow> message_key option" where
  "stored s epoch n = Option.bind (map_of (mkskipped s) epoch) (\<lambda>m. map_of m n)"

definition spqr_good :: "ext \<Rightarrow> (u64 \<times> u32 \<Rightarrow> message_key) \<Rightarrow> spqr_state \<Rightarrow> bool" where
  "spqr_good X K s \<longleftrightarrow>
     (\<forall>e c. recv_chain s e = Some c \<longrightarrow> scka.follows X (\<lambda>i. K (e, of_nat (Suc i))) c) \<and>
     (\<forall>e n mk. stored s e n = Some mk \<longrightarrow>
        mk = K (e, n) \<and> 0 < n \<and> (\<exists>c. recv_chain s e = Some c \<and> n \<le> sc_n c))"

text \<open>A number is spent when its key can no longer be produced.\<close>

definition spqr_spent :: "spqr_state \<Rightarrow> u64 \<times> u32 \<Rightarrow> bool" where
  "spqr_spent s i \<longleftrightarrow> stored s (fst i) (snd i) = None \<and>
     (case recv_chain s (fst i) of None \<Rightarrow> True | Some c \<Rightarrow> snd i \<le> sc_n c)"

text \<open>The derivation as a receiver, errors forgotten.\<close>

definition spqr_recv :: "ext \<Rightarrow> spqr_state \<Rightarrow> u64 \<times> u32 \<Rightarrow> spqr_state \<times> message_key option" where
  "spqr_recv X s i =
     (case derive_receive_key X (fst i) (snd i) s of
        (s', Inl _) \<Rightarrow> (s', None)
      | (s', Inr mk) \<Rightarrow> (s', Some mk))"

lemma recv_chain_upd [simp]:
  "recv_chain (s\<lparr>kdfchains := btree_insert e c m\<rparr>) e' =
     (if e' = e then ec_recv c else Option.bind (map_of m e') ec_recv)"
  "recv_chain (s\<lparr>mkskipped := x\<rparr>) e' = recv_chain s e'"
  by (simp_all add: recv_chain_def)

lemma stored_upd [simp]:
  "stored (s\<lparr>kdfchains := k\<rparr>) e n = stored s e n"
  "stored (s\<lparr>mkskipped := btree_insert e m x\<rparr>) e' n =
     (if e' = e then map_of m n else Option.bind (map_of x e') (\<lambda>m. map_of m n))"
  "stored (s\<lparr>mkskipped := btree_remove e x\<rparr>) e' n =
     (if e' = e then None else Option.bind (map_of x e') (\<lambda>m. map_of m n))"
  by (simp_all add: stored_def)

lemma map_of_fold_insert:
  "map_of (fold (\<lambda>(n, mk). btree_insert n mk) es m) n = map_of (rev es @ m) n"
proof (induction es arbitrary: m)
  case (Cons x es)
  then show ?case by (cases x) (simp add: map_add_def split: option.splits)
qed simp

lemma try_skipped_some:
  assumes "try_skipped e n s = (s', Some mk)"
  shows "stored s e n = Some mk" "recv_chain s' = recv_chain s"
    "stored s' e' m = (if e' = e \<and> m = n then None else stored s e' m)"
proof -
  from assms obtain inner where i: "map_of (mkskipped s) e = Some inner" "map_of inner n = Some mk"
    and s': "s' = (if btree_remove n inner = [] then s\<lparr>mkskipped := btree_remove e (mkskipped s)\<rparr>
                   else s\<lparr>mkskipped := btree_insert e (btree_remove n inner) (mkskipped s)\<rparr>)"
    by (auto simp: try_skipped_def Let_def split: option.splits)
  show "stored s e n = Some mk" using i by (simp add: stored_def)
  show "recv_chain s' = recv_chain s" using s' by (auto simp: fun_eq_iff)
  show "stored s' e' m = (if e' = e \<and> m = n then None else stored s e' m)"
  proof (cases "btree_remove n inner = []")
    case True
    have "((map_of inner)(n := None)) m = None"
      using map_of_btree_remove [of n inner] True by (metis map_of.simps(1))
    then have "m \<noteq> n \<Longrightarrow> map_of inner m = None" by simp
    then show ?thesis using s' i True by (simp add: stored_def)
  next
    case False
    then show ?thesis using s' i by (simp add: stored_def)
  qed
qed

lemma try_skipped_none: "try_skipped e n s = (s', None) \<Longrightarrow> s' = s \<and> stored s e n = None"
  by (auto simp: try_skipped_def stored_def Let_def split: option.splits)

section \<open>The derivation follows the schedule\<close>

lemma skipped_entries:
  "map_of (rev (map (\<lambda>i. (of_nat (Suc i), K (of_nat (Suc i)))) [a..<unat (b :: u32)])) (n :: u32) =
         (if a < unat n \<and> unat n \<le> unat b then Some (K n) else None)"
proof -
  let ?es = "map (\<lambda>i. (of_nat (Suc i) :: u32, K (of_nat (Suc i)))) [a..<unat b]"
  have b: "unat b < 2 ^ 32" using unsigned_less [of b] by simp
  have mem: "(n, v) \<in> set ?es \<longleftrightarrow> a < unat n \<and> unat n \<le> unat b \<and> v = K n" for v
  proof
    assume "(n, v) \<in> set ?es"
    then obtain i where i: "a \<le> i" "i < unat b" "n = of_nat (Suc i)" "v = K n" by auto
    then have "unat n = Suc i" using b by (simp add: unat_of_nat_less del: of_nat_Suc)
    then show "a < unat n \<and> unat n \<le> unat b \<and> v = K n" using i by simp
  next
    assume n: "a < unat n \<and> unat n \<le> unat b \<and> v = K n"
    then have "of_nat (Suc (unat n - 1)) = n" by (simp del: of_nat_Suc)
    then show "(n, v) \<in> set ?es" using n by (force intro!: image_eqI [of _ _ "unat n - 1"] simp del: of_nat_Suc)
  qed
  show ?thesis
  proof (cases "map_of (rev ?es) n")
    case None
    then have "n \<notin> fst ` set ?es" by (simp add: map_of_eq_None_iff)
    then have "\<not> (a < unat n \<and> unat n \<le> unat b)" using mem by force
    then show ?thesis using None by simp
  next
    case (Some v)
    then have "(n, v) \<in> set ?es" using map_of_SomeD by fastforce
    then show ?thesis using Some mem by simp
  qed
qed

lemma spqr_good_chain:
  "spqr_good X K s \<Longrightarrow> recv_chain s e = Some c \<Longrightarrow> scka.follows X (\<lambda>i. K (e, of_nat (Suc i))) c"
  unfolding spqr_good_def by blast

lemma spqr_good_stored:
  "spqr_good X K s \<Longrightarrow> stored s e n = Some mk \<Longrightarrow>
     mk = K (e, n) \<and> 0 < n \<and> (\<exists>c. recv_chain s e = Some c \<and> n \<le> sc_n c)"
  unfolding spqr_good_def by blast

text \<open>Moving one receive chain forward along the schedule, storing keys behind it.\<close>

lemma spqr_good_forward:
  assumes "spqr_good X K s" and "recv_chain s e = Some c" and "sc_n c \<le> sc_n c'"
    and "scka.follows X (\<lambda>i. K (e, of_nat (Suc i))) c'"
    and chains: "\<And>e'. recv_chain s' e' = (if e' = e then Some c' else recv_chain s e')"
    and st: "\<And>e' n mk. stored s' e' n = Some mk \<Longrightarrow>
      stored s e' n = Some mk \<or> e' = e \<and> mk = K (e, n) \<and> 0 < n \<and> n \<le> sc_n c'"
  shows "spqr_good X K s'"
  unfolding spqr_good_def
proof (intro conjI allI impI)
  fix e' c2 assume "recv_chain s' e' = Some c2"
  then show "scka.follows X (\<lambda>i. K (e', of_nat (Suc i))) c2"
    using chains assms(4) spqr_good_chain [OF assms(1)] by (auto simp del: of_nat_Suc split: if_splits)
next
  fix e' n mk assume "stored s' e' n = Some mk"
  from st [OF this] show "mk = K (e', n)" "0 < n" "\<exists>c. recv_chain s' e' = Some c \<and> n \<le> sc_n c"
    using spqr_good_stored [OF assms(1)] chains assms(2,3) by (fastforce intro: order_trans)+
qed

lemma skip_message_keys_good:
  assumes "spqr_good X K s" and "recv_chain s e = Some c" and "sc_n c \<le> until"
    and "skip_message_keys X e until s = (s', r)"
  shows "(r \<noteq> Inr () \<and> s' = s) \<or>
    (r = Inr () \<and> spqr_good X K s' \<and>
     (\<exists>c'. recv_chain s' e = Some c' \<and> sc_n c' = until) \<and>
     (\<forall>e'. e' \<noteq> e \<longrightarrow> recv_chain s' e' = recv_chain s e') \<and>
     (\<forall>e' n. stored s' e' n = (if e' = e \<and> sc_n c < n \<and> n \<le> until then Some (K (e, n)) else stored s e' n)))"
proof -
  from assms(2) obtain ec where ec: "map_of (kdfchains s) e = Some ec" "ec_recv ec = Some c"
    by (auto simp: recv_chain_def bind_eq_Some_conv)
  have fol: "scka.follows X (\<lambda>i. K (e, of_nat (Suc i))) c" using assms(1,2) by (simp add: spqr_good_def)
  obtain c' es where loop: "skip_loop X until c = (c', es)" by (metis surj_pair)
  note sl = skip_loop_follows [OF fol assms(3), unfolded loop fst_conv snd_conv]
  define inner where "inner = (case map_of (mkskipped s) e of None \<Rightarrow> [] | Some m \<Rightarrow> m)"
  have inner: "map_of inner n = stored s e n" for n
    by (simp add: inner_def stored_def split: option.splits)
  show ?thesis
  proof (cases "sc_n c + MAX_SKIP < until")
    case True
    then show ?thesis using assms(4) ec by (auto simp: skip_message_keys_def)
  next
    case False
    have chains: "recv_chain s' e' = (if e' = e then Some c' else recv_chain s e')" for e'
      using assms(4) ec False loop by (auto simp: skip_message_keys_def Let_def recv_chain_def split: if_splits)
    have st: "stored s' e' n = (if e' = e \<and> sc_n c < n \<and> n \<le> until then Some (K (e, n)) else stored s e' n)" for e' n
    proof (cases "es = []")
      case True
      then have "\<not> sc_n c < until" using sl by (auto simp: word_less_nat_alt)
      then show ?thesis using assms(4) ec False loop True
        by (auto simp: skip_message_keys_def Let_def)
    next
      case ne: False
      then have "stored s' e' n = (if e' = e then map_of (rev es @ inner) n else stored s e' n)"
        using assms(4) ec False loop inner_def
        by (auto simp: skip_message_keys_def Let_def map_of_fold_insert stored_def)
      moreover have "map_of (rev es @ inner) n =
          (if sc_n c < n \<and> n \<le> until then Some (K (e, n)) else stored s e n)"
        using sl skipped_entries [of "\<lambda>n. K (e, n)" "unat (sc_n c)" until n] inner
        by (simp add: map_add_def word_less_nat_alt word_le_nat_alt)
      ultimately show ?thesis by auto
    qed
    have r: "r = Inr ()" using assms(4) ec False loop by (auto simp: skip_message_keys_def Let_def split: if_splits)
    have "spqr_good X K s'"
      using sl assms(3) st
      by (intro spqr_good_forward [OF assms(1,2) _ _ chains])
        (auto split: if_splits dest: le_less_trans [OF word_zero_le])
    then show ?thesis using r chains st sl by auto
  qed
qed

lemma advance_recv_good:
  assumes "spqr_good X K s" and "recv_chain s e = Some c" and "Suc (unat (sc_n c)) < 2 ^ 32"
    and "advance_recv X e n s = (s', r)"
  shows "(n = sc_n c + 1 \<longrightarrow> r = Inr (K (e, n))) \<and> spqr_good X K s' \<and>
    (\<exists>c'. recv_chain s' e = Some c' \<and> sc_n c' = sc_n c + 1) \<and>
    (\<forall>e'. e' \<noteq> e \<longrightarrow> recv_chain s' e' = recv_chain s e') \<and> (\<forall>e' n. stored s' e' n = stored s e' n)"
proof -
  from assms(2) obtain ec where ec: "map_of (kdfchains s) e = Some ec" "ec_recv ec = Some c"
    by (auto simp: recv_chain_def bind_eq_Some_conv)
  obtain c' n' k where adv: "scka_advance X c = (c', n', k)" by (metis prod_cases3)
  have fol: "scka.follows X (\<lambda>i. K (e, of_nat (Suc i))) c" using assms(1,2) by (simp add: spqr_good_def)
  have c': "scka.follows X (\<lambda>i. K (e, of_nat (Suc i))) c'" "k = K (e, sc_n c + 1)"
    using scka.follows_advance [OF fol assms(3)] adv by (simp_all add: add.commute)
  have n': "sc_n c' = sc_n c + 1" "n' = sc_n c + 1" using scka_advance_n [of X c] adv by simp_all
  have up: "sc_n c \<le> sc_n c'" using n' assms(3) by (simp add: word_le_nat_alt unat_add_one)
  have s': "s' = s\<lparr>kdfchains := btree_insert e (ec\<lparr>ec_recv := Some c'\<rparr>) (kdfchains s)\<rparr>"
    and r: "n = n' \<longrightarrow> r = Inr k"
    using assms(4) ec adv by (auto simp: advance_recv_def Let_def split: if_splits)
  have chains: "recv_chain s' e' = (if e' = e then Some c' else recv_chain s e')" for e'
    using s' by (simp add: recv_chain_def)
  have st: "stored s' e' n = stored s e' n" for e' n using s' by simp
  have "spqr_good X K s'"
    by (rule spqr_good_forward [OF assms(1,2) up c'(1) chains]) (simp add: st)
  then show ?thesis using r c' n' chains st by auto
qed

lemma replay_rejected:
  "recv_chain s e = Some c \<Longrightarrow> stored s e n = None \<Longrightarrow> n \<le> sc_n c \<Longrightarrow>
     fst (derive_receive_key X e n s) = s \<and> \<not> is_ok (snd (derive_receive_key X e n s))"
  by (cases "try_skipped e n s"; cases "snd (try_skipped e n s)")
    (auto simp: derive_receive_key_def dest: try_skipped_none try_skipped_some(1))

text \<open>A number ahead of the chain: skip, then advance once more.\<close>

lemma derive_ahead:
  assumes "spqr_good X K s" and "recv_chain s e = Some c" and "stored s e n = None" and "sc_n c < n"
    and "derive_receive_key X e n s = (s', r)"
  shows "s' = s \<and> r = Inl (MaxSkipExceeded (n - 1 - sc_n c) MAX_SKIP) \<and> sc_n c + MAX_SKIP < n - 1 \<or>
    r = Inr (K (e, n)) \<and> spqr_good X K s' \<and> (\<exists>c'. recv_chain s' e = Some c' \<and> sc_n c' = n) \<and>
    (\<forall>e'. e' \<noteq> e \<longrightarrow> recv_chain s' e' = recv_chain s e') \<and>
    (\<forall>e' m. stored s' e' m = (if e' = e \<and> sc_n c < m \<and> m < n then Some (K (e, m)) else stored s e' m))"
proof -
  have pre: "saturating_sub n 1 = n - 1" "sc_n c \<le> n - 1" "unat n = Suc (unat (n - 1))"
    using assms(4) by (auto simp: saturating_sub_def word_le_nat_alt word_less_nat_alt unat_sub)
  have lim: "Suc (unat (n - 1)) < 2 ^ 32" using pre(3) u32_bound [of n] by simp
  obtain s1 where ts: "try_skipped e n s = (s1, None)"
    using assms(3) try_skipped_some(1) by (metis not_Some_eq option.distinct(1) surj_pair)
  obtain s2 r2 where sk: "skip_message_keys X e (n - 1) s = (s2, r2)" by (metis surj_pair)
  have der: "(s', r) = (case r2 of Inl e' \<Rightarrow> (s2, Inl e') | Inr _ \<Rightarrow> advance_recv X e n s2)"
    using assms(2,5) assms(4) [folded not_le] ts try_skipped_none [OF ts] sk pre(1)
    by (simp add: derive_receive_key_def split: sum.splits)
  show ?thesis
  proof (cases r2)
    case (Inl err)
    then have "s2 = s \<and> err = MaxSkipExceeded (n - 1 - sc_n c) MAX_SKIP \<and> sc_n c + MAX_SKIP < n - 1"
      using sk assms(2)
      by (auto simp: skip_message_keys_def recv_chain_def bind_eq_Some_conv Let_def split_beta split: if_splits)
    then show ?thesis using der Inl by simp
  next
    case (Inr u)
    with skip_message_keys_good [OF assms(1,2) pre(2) sk] obtain c2 where s2: "spqr_good X K s2"
      "recv_chain s2 e = Some c2" "sc_n c2 = n - 1"
      "\<And>e'. e' \<noteq> e \<Longrightarrow> recv_chain s2 e' = recv_chain s e'"
      "\<And>e' m. stored s2 e' m = (if e' = e \<and> sc_n c < m \<and> m \<le> n - 1 then Some (K (e, m)) else stored s e' m)"
      by auto
    have adv: "advance_recv X e n s2 = (s', r)" using der Inr by simp
    have le: "m \<le> n - 1 \<longleftrightarrow> m < n" for m
      using pre(3) by (simp add: word_le_nat_alt word_less_nat_alt less_Suc_eq_le)
    have n: "n = sc_n c2 + 1" "Suc (unat (sc_n c2)) < 2 ^ 32" using s2(3) lim by simp_all
    note ad = advance_recv_good [OF s2(1,2) n(2) adv]
    have "stored s' e' m = (if e' = e \<and> sc_n c < m \<and> m < n then Some (K (e, m)) else stored s e' m)" for e' m
    proof -
      have "stored s' e' m = stored s2 e' m" using ad by blast
      then show ?thesis using s2(5) [of e' m] by (simp only: le)
    qed
    moreover have "recv_chain s' e' = recv_chain s e'" if "e' \<noteq> e" for e'
      using ad s2(4) that by simp
    moreover have "r = Inr (K (e, n))" "spqr_good X K s'" "\<exists>c'. recv_chain s' e = Some c' \<and> sc_n c' = n"
      using ad n(1) by metis+
    ultimately show ?thesis by blast
  qed
qed

text \<open>The whole derivation, by cases on where the key comes from.\<close>

lemma derive_receive_key_good:
  assumes "spqr_good X K s" and "derive_receive_key X e n s = (s', r)"
  shows "spqr_good X K s' \<and>
    (\<forall>mk. r = Inr mk \<longrightarrow> mk = K (e, n) \<and> \<not> spqr_spent s (e, n) \<and> spqr_spent s' (e, n)) \<and>
    (\<forall>i. spqr_spent s i \<longrightarrow> spqr_spent s' i)"
proof (cases "stored s e n")
  case (Some mk)
  then obtain s1 where ts: "try_skipped e n s = (s1, Some mk)"
    by (auto simp: try_skipped_def stored_def bind_eq_Some_conv Let_def)
  have r: "s' = s1" "r = Inr mk" using assms(2) ts by (simp_all add: derive_receive_key_def)
  note st = try_skipped_some [OF ts]
  have "spqr_good X K s1" using assms(1) st by (auto simp: spqr_good_def)
  then show ?thesis
    using r st spqr_good_stored [OF assms(1) Some] by (auto simp: spqr_spent_def split: option.splits)
next
  case no: None
  then have ts: "try_skipped e n s = (s, None)"
    by (auto simp: try_skipped_def stored_def split: option.splits)
  show ?thesis
  proof (cases "recv_chain s e")
    case None
    then have "s' = s \<and> (\<forall>mk. r \<noteq> Inr mk)"
      using assms(2) ts
      by (auto simp: derive_receive_key_def skip_message_keys_def advance_recv_def recv_chain_def Let_def
          split: option.splits)
    then show ?thesis using assms(1) by blast
  next
    case (Some c)
    show ?thesis
    proof (cases "n \<le> sc_n c")
      case True
      then show ?thesis using replay_rejected [OF Some no True, of X] assms by (auto simp: is_ok_def)
    next
      case False
      then have lt: "sc_n c < n" by simp
      have "spqr_spent s i \<Longrightarrow> r = Inr (K (e, n)) \<Longrightarrow> spqr_spent s' i" for i
        using derive_ahead [OF assms(1) Some no lt assms(2)] Some lt
        by (cases "fst i = e") (auto simp: spqr_spent_def split: option.splits)
      then show ?thesis
        using derive_ahead [OF assms(1) Some no lt assms(2)] Some lt no assms(1)
        by (auto simp: spqr_spent_def)
    qed
  qed
qed

interpretation spqr_receiver: key_receiver "spqr_recv X" "\<lambda>i. i" "spqr_good X" spqr_spent for X
proof unfold_locales
  fix K s and i :: "u64 \<times> u32" and r and j :: "u64 \<times> u32"
  assume g: "spqr_good X K s"
  obtain s' q where d: "derive_receive_key X (fst i) (snd i) s = (s', q)" by (metis surj_pair)
  note good = derive_receive_key_good [OF g d]
  show "spqr_good X K (fst (spqr_recv X s i))"
    using good d by (cases q) (simp_all add: spqr_recv_def)
  show "spqr_spent s j \<Longrightarrow> spqr_spent (fst (spqr_recv X s i)) j"
    using good d by (cases q; cases j) (simp_all add: spqr_recv_def)
  assume r: "snd (spqr_recv X s i) = Some r"
  show "r = K i" "\<not> spqr_spent s i" "spqr_spent (fst (spqr_recv X s i)) i"
    using good d r by (cases q; auto simp: spqr_recv_def)+
qed

end
