(* ===== verification/Braid_Local.thy ===== *)
theory Braid_Local
  imports Braid_Machine
begin

text \<open>
  What one party's braid guarantees whatever arrives: transitions are transactional, the
  epoch never moves on a send and moves by exactly one on the two closing receives, roles
  alternate with the epoch, and nothing unauthenticated is accepted.
\<close>

section \<open>Unfolding\<close>

lemmas send_defs = send_keys_unsampled_def send_keys_sampled_def send_header_sent_def
  send_ct1_received_def send_header_received_def send_ct1_sampled_def
  send_ek_received_ct1_sampled_def send_ct2_sampled_def send_idle_def

lemmas recv_defs = recv_keys_sampled_def recv_header_sent_def recv_ct1_received_def
  recv_ek_sent_ct1_received_def recv_no_header_received_def recv_ct1_sampled_def
  recv_ek_received_ct1_sampled_def recv_ct1_acknowledged_def recv_ct2_sampled_def

lemmas msg_defs = message_idle_def message_carrying_def

lemma transition_Inr:
  "transition b f = (b', Inr out) \<longleftrightarrow> f (braid_phase b) = Inr (braid_phase b', out)"
  by (cases b; cases b') (auto simp: transition_def Let_def split: sum.splits)

lemma transition_Inl: "transition b f = (b', Inl e) \<longleftrightarrow> f (braid_phase b) = Inl e \<and> b' = b"
  by (auto simp: transition_def Let_def split: sum.splits)

lemma braid_send_Inr:
  "braid_send X rng b = (b', Inr out) \<longleftrightarrow>
     state_send X rng (braid_phase b) = Inr (braid_phase b', send_msg out, send_output_key out) \<and>
     sending_epoch out = saturating_sub (state_epoch (braid_phase b')) 1"
  by (cases out; cases b; cases b')
    (auto simp: braid_send_def transition_def Let_def split: sum.splits)

lemma braid_send_Inl:
  "braid_send X rng b = (b', Inl e) \<longleftrightarrow> state_send X rng (braid_phase b) = Inl e \<and> b' = b"
  by (auto simp: braid_send_def transition_def Let_def split: sum.splits)

lemma braid_receive_Inr:
  "braid_receive X b m = (b', Inr out) \<longleftrightarrow>
     state_receive X (braid_phase b) m = Inr (braid_phase b', recv_output_key out) \<and>
     receiving_epoch out = saturating_sub (msg_epoch m) 1"
  by (cases out; cases b; cases b')
    (auto simp: braid_receive_def transition_def Let_def split: sum.splits)

lemma braid_receive_Inl:
  "braid_receive X b m = (b', Inl e) \<longleftrightarrow> state_receive X (braid_phase b) m = Inl e \<and> b' = b"
  by (auto simp: braid_receive_def transition_def Let_def split: sum.splits)

section \<open>Roles and phases\<close>

text \<open>The keypair owner of an epoch streams header and key; the other party encapsulates.\<close>

fun is_owner :: "state \<Rightarrow> bool" where
  "is_owner (KeysUnsampled _ _) = True"
| "is_owner (KeysSampled _ _ _ _ _) = True"
| "is_owner (HeaderSent _ _ _ _ _) = True"
| "is_owner (Ct1Received _ _ _ _ _) = True"
| "is_owner (EkSentCt1Received _ _ _ _ _) = True"
| "is_owner _ = False"

fun phase :: "state \<Rightarrow> nat" where
  "phase (KeysUnsampled _ _) = 0"
| "phase (KeysSampled _ _ _ _ _) = 1"
| "phase (HeaderSent _ _ _ _ _) = 2"
| "phase (Ct1Received _ _ _ _ _) = 3"
| "phase (EkSentCt1Received _ _ _ _ _) = 4"
| "phase (NoHeaderReceived _ _ _) = 0"
| "phase (HeaderReceived _ _ _ _) = 1"
| "phase (Ct1Sampled _ _ _ _ _ _ _) = 2"
| "phase (EkReceivedCt1Sampled _ _ _ _ _ _) = 3"
| "phase (Ct1Acknowledged _ _ _ _ _ _) = 4"
| "phase (Ct2Sampled _ _ _) = 5"
| "phase Poisoned = 1"

lemma phase_le: "phase st \<le> (if is_owner st then 4 else 5)"
  by (cases st) simp_all

lemma state_send_local:
  assumes "state_send X rng st = Inr (st', m, out)"
  shows "state_epoch st' = state_epoch st" and "is_owner st' = is_owner st"
    and "phase st \<le> phase st'" and "msg_epoch m = state_epoch st" and "st' \<noteq> Poisoned"
    and "\<And>es. out = Some es \<Longrightarrow>
           es_epoch es = state_epoch st \<and> \<not> is_owner st \<and> phase st = 1 \<and> phase st' = 2"
    and "out = None \<Longrightarrow> phase st' = 2 \<Longrightarrow> \<not> is_owner st \<Longrightarrow> phase st = 2"
  using assms
  by (cases st; force simp: send_defs msg_defs Let_def split_beta split: sum.splits prod.splits)+

text \<open>A receive keeps epoch and role and yields nothing, or closes the epoch.\<close>

lemma state_receive_local:
  assumes "state_receive X st m = Inr (st', out)"
  shows "(state_epoch st' = state_epoch st \<and> is_owner st' = is_owner st \<and> phase st \<le> phase st' \<and> out = None)
       \<or> (state_epoch st' = state_epoch st + 1 \<and> is_owner st' = (\<not> is_owner st) \<and>
          phase st = (if is_owner st then 4 else 5) \<and> phase st' = 0 \<and>
          (is_owner st \<longleftrightarrow> out \<noteq> None) \<and> (\<forall>es. out = Some es \<longrightarrow> es_epoch es = state_epoch st))"
  using assms
  by (cases st) (auto simp: recv_defs Let_def split: sum.splits if_splits option.splits)

lemma state_receive_not_poisoned:
  "state_receive X st m = Inr (st', out) \<Longrightarrow> st \<noteq> Poisoned \<Longrightarrow> st' \<noteq> Poisoned"
  by (cases st) (auto simp: recv_defs Let_def split: sum.splits if_splits option.splits)

section \<open>Errors and authentication\<close>

lemma braid_send_error: "snd (braid_send X rng b) = Inl e \<Longrightarrow> fst (braid_send X rng b) = b"
  by (metis braid_send_Inl prod.collapse)

lemma braid_receive_error: "snd (braid_receive X b m) = Inl e \<Longrightarrow> fst (braid_receive X b m) = b"
  by (metis braid_receive_Inl prod.collapse)

lemma braid_live:
  assumes "braid_phase b \<noteq> Poisoned"
  shows "braid_phase (fst (braid_send X rng b)) \<noteq> Poisoned"
    and "braid_phase (fst (braid_receive X b m)) \<noteq> Poisoned"
proof -
  show "braid_phase (fst (braid_send X rng b)) \<noteq> Poisoned"
  proof (cases "snd (braid_send X rng b)")
    case (Inr out)
    then show ?thesis by (metis braid_send_Inr prod.collapse state_send_local(5))
  qed (use assms braid_send_error in force)
  show "braid_phase (fst (braid_receive X b m)) \<noteq> Poisoned"
  proof (cases "snd (braid_receive X b m)")
    case (Inr out)
    then show ?thesis by (metis assms braid_receive_Inr prod.collapse state_receive_not_poisoned)
  qed (use assms braid_receive_error in force)
qed

lemma is_ok_unit: "is_ok r \<longleftrightarrow> r = Inr ()" for r :: "unit res"
  by (cases r) simp_all

lemma split_at_Inr:
  "split_at n xs = Inr (ys, zs) \<longleftrightarrow> xs = ys @ zs \<and> length ys = n"
  by (auto simp: split_at_def)

lemma recv_header_authentic:
  assumes "state_receive X st m = Inr (st', out)" and "st' = HeaderReceived e a h d" and "st \<noteq> st'"
  shows "\<exists>d0 d1. st = NoHeaderReceived e a d0 \<and> add_msg_chunk d0 m = Inr d1 \<and>
           decoder_message X d1 = Inr (Some (h @ mac_hdr X a e h)) \<and> length h = pk1_len X"
  using assms
  by (cases st)
    (auto simp: recv_defs Let_def split_at_Inr is_ok_unit vfy_hdr_accepts
      split: sum.splits if_splits option.splits)

lemma recv_secret_authentic:
  assumes "state_receive X st m = Inr (st', Some es)"
  shows "\<exists>e a dk ct1 d0 d1 ct2 raw. st = EkSentCt1Received e a dk ct1 d0 \<and>
           add_msg_chunk d0 m = Inr d1 \<and> decapsulate X dk ct1 ct2 = Inr raw \<and>
           es = \<lparr>es_epoch = e, es_secret = kdf_ok X raw e\<rparr> \<and>
           decoder_message X d1 =
             Inr (Some (ct2 @ mac_ct X (auth_update X e (kdf_ok X raw e) a) e (ct1 @ ct2)))"
  using assms
  by (cases st)
    (fastforce simp: recv_defs Let_def split_at_Inr is_ok_unit vfy_ct_accepts
      split: sum.splits if_splits option.splits)+

section \<open>Properties\<close>

text \<open>
  C27. Transactional transitions. A \<open>send\<close> or \<open>receive\<close> that fails leaves the braid exactly as
  it was, and one that succeeds from a live state ends in a live state: the \<open>Poisoned\<close>
  placeholder never survives a call.
\<close>

theorem braid_transactional:
  shows "(\<forall>e. snd (braid_send X rng b) = Inl e \<longrightarrow> fst (braid_send X rng b) = b) \<and>
         (\<forall>e. snd (braid_receive X b m) = Inl e \<longrightarrow> fst (braid_receive X b m) = b) \<and>
         (braid_phase b \<noteq> Poisoned \<longrightarrow>
            braid_phase (fst (braid_send X rng b)) \<noteq> Poisoned \<and>
            braid_phase (fst (braid_receive X b m)) \<noteq> Poisoned)"
  using braid_send_error [of X rng b] braid_receive_error [of X b m] braid_live [of b]
  by blast

theorem braid_transactional_witness:
  "\<exists>e. snd (braid_receive demo_ext (init_receiver demo_ext []) \<lparr>msg_epoch = 1, mtype = Hdr, msg_chunk = None\<rparr>) = Inl e \<and>
       fst (braid_receive demo_ext (init_receiver demo_ext []) \<lparr>msg_epoch = 1, mtype = Hdr, msg_chunk = None\<rparr>)
         = init_receiver demo_ext []"
proof -
  let ?m = "\<lparr>msg_epoch = 1, mtype = Hdr, msg_chunk = None\<rparr>"
  have "snd (braid_receive demo_ext (init_receiver demo_ext []) ?m) = Inl (proto_err ''message missing codeword'')"
    by (simp add: braid_receive_def transition_def init_receiver_def recv_no_header_received_def
        INITIAL_EPOCH_def add_msg_chunk_def)
  then show ?thesis
    using braid_transactional [of demo_ext "\<lambda>_. []" "init_receiver demo_ext []" ?m] by blast
qed

text \<open>
  C28. Epoch discipline. A send never changes epoch or role and stamps its message and its
  secret with that epoch. A receive either keeps epoch and role and yields no secret, or
  closes the epoch: it then advances by exactly one, swaps the role, and yields that
  epoch's secret precisely when the party owned the key pair.
\<close>

theorem braid_epoch_discipline:
  "(case state_send X rng st of
      Inl _ \<Rightarrow> True
    | Inr (st', msg, out) \<Rightarrow>
        state_epoch st' = state_epoch st \<and> is_owner st' = is_owner st \<and>
        msg_epoch msg = state_epoch st \<and> pred_option (\<lambda>es. es_epoch es = state_epoch st \<and> \<not> is_owner st) out) \<and>
   (case state_receive X st m of
      Inl _ \<Rightarrow> True
    | Inr (st', out) \<Rightarrow>
        if state_epoch st' = state_epoch st
        then is_owner st' = is_owner st \<and> out = None
        else state_epoch st' = state_epoch st + 1 \<and> is_owner st' = (\<not> is_owner st) \<and>
             (is_owner st \<longleftrightarrow> out \<noteq> None) \<and> pred_option (\<lambda>es. es_epoch es = state_epoch st) out)"
proof -
  have "case state_send X rng st of
      Inl _ \<Rightarrow> True
    | Inr (st', msg, out) \<Rightarrow>
        state_epoch st' = state_epoch st \<and> is_owner st' = is_owner st \<and>
        msg_epoch msg = state_epoch st \<and> pred_option (\<lambda>es. es_epoch es = state_epoch st \<and> \<not> is_owner st) out"
  proof (cases "state_send X rng st")
    case (Inr r)
    then obtain st' msg out where r: "state_send X rng st = Inr (st', msg, out)" by (cases r) auto
    show ?thesis using state_send_local [OF r] r by (cases out) auto
  qed simp
  moreover have "case state_receive X st m of
      Inl _ \<Rightarrow> True
    | Inr (st', out) \<Rightarrow>
        if state_epoch st' = state_epoch st
        then is_owner st' = is_owner st \<and> out = None
        else state_epoch st' = state_epoch st + 1 \<and> is_owner st' = (\<not> is_owner st) \<and>
             (is_owner st \<longleftrightarrow> out \<noteq> None) \<and> pred_option (\<lambda>es. es_epoch es = state_epoch st) out"
  proof (cases "state_receive X st m")
    case (Inr r)
    then obtain st' out where r: "state_receive X st m = Inr (st', out)" by (cases r) auto
    show ?thesis using state_receive_local [OF r] r by (cases out) auto
  qed simp
  ultimately show ?thesis by blast
qed

text \<open>
  C29. Fail-closed authentication. The header an encapsulator commits to was reconstructed
  together with its MAC under the current authenticator, and a key-pair owner yields an
  epoch secret only for a ciphertext whose MAC verifies under the authenticator ratcheted
  by that very secret.
\<close>

theorem braid_authenticated:
  assumes "state_receive X st m = Inr (st', out)"
  shows "(\<forall>e a h d. st' = HeaderReceived e a h d \<longrightarrow> st = st' \<or>
            (\<exists>d0 d1. st = NoHeaderReceived e a d0 \<and> add_msg_chunk d0 m = Inr d1 \<and>
               decoder_message X d1 = Inr (Some (h @ mac_hdr X a e h)) \<and> length h = pk1_len X)) \<and>
         (\<forall>es. out = Some es \<longrightarrow>
            (\<exists>e a dk ct1 d0 d1 ct2 raw. st = EkSentCt1Received e a dk ct1 d0 \<and>
               add_msg_chunk d0 m = Inr d1 \<and> decapsulate X dk ct1 ct2 = Inr raw \<and>
               es = \<lparr>es_epoch = e, es_secret = kdf_ok X raw e\<rparr> \<and>
               decoder_message X d1 =
                 Inr (Some (ct2 @ mac_ct X (auth_update X e (kdf_ok X raw e) a) e (ct1 @ ct2)))))"
  using recv_header_authentic [OF assms] recv_secret_authentic [of X st m st'] assms by blast

text \<open>With an empty header and one data shard, the first codeword is the header's MAC.\<close>

theorem braid_authenticated_witness:
  defines "a \<equiv> auth_init demo_ext 1 []"
  defines "m \<equiv> \<lparr>msg_epoch = 1, mtype = Hdr, msg_chunk = Some \<lparr>chunk_index = 0, chunk_data = mac_hdr demo_ext a 1 []\<rparr>\<rparr>"
  shows "state_receive demo_ext (NoHeaderReceived 1 a (decoder_new 32)) m
           = Inr (HeaderReceived 1 a [] (decoder_new 1), None) \<and>
         (\<exists>d. add_msg_chunk (decoder_new 32) m = Inr d \<and>
            decoder_message demo_ext d = Inr (Some ([] @ mac_hdr demo_ext a 1 [])))"
proof -
  have len: "length (mac_hdr demo_ext a 1 []) = 32"
    by (simp add: length_mac_hdr demo_hash_lens)
  have pk: "pk1_len demo_ext = 0" "pk2_len demo_ext = 1"
    by (simp_all add: pk1_len_def pk2_len_def demo_ext_def)
  have add: "add_msg_chunk (decoder_new 32) m
      = Inr ((decoder_new 32)\<lparr>received := [(0, mac_hdr demo_ext a 1 [])]\<rparr>)"
    using len by (simp add: add_msg_chunk_def m_def add_chunk_def decoder_new_def total_shards_def
        CHUNK_BYTES_def data_shards_for_def)
  have msg: "decoder_message demo_ext ((decoder_new 32)\<lparr>received := [(0, mac_hdr demo_ext a 1 [])]\<rparr>)
      = Inr (Some (mac_hdr demo_ext a 1 []))"
    using len by (simp add: decoder_message_def restored_shards_def decoder_new_def has_message_def
        data_shards_for_def div_ceil_def CHUNK_BYTES_def Let_def)
  have r: "state_receive demo_ext (NoHeaderReceived 1 a (decoder_new 32)) m
      = Inr (HeaderReceived 1 a [] (decoder_new 1), None)"
    using add msg len
    by (simp add: recv_no_header_received_def split_at_def pk is_ok_unit vfy_hdr_accepts m_def [symmetric])
      (simp add: m_def)
  from braid_authenticated [OF r] have
    "\<exists>d0 d1. NoHeaderReceived 1 a (decoder_new 32) = NoHeaderReceived 1 a d0 \<and> add_msg_chunk d0 m = Inr d1 \<and>
       decoder_message demo_ext d1 = Inr (Some ([] @ mac_hdr demo_ext a 1 []))"
    by blast
  with r show ?thesis by simp
qed

end
