(* ===== verification/Braid_Honest.thy ===== *)
theory Braid_Honest
  imports Braid_Local
begin

text \<open>
  The honest run of the braid: what each epoch's objects are, as functions of the epoch and
  of the randomness drawn in it, and that a party whose state holds those objects keeps
  holding them. \<open>run_draw e n\<close> is the \<open>n\<close> bytes drawn in epoch \<open>e\<close> (each epoch draws
  one key-generation seed and one encapsulation coin, by different parties);
  \<open>run_seed\<close> is the authenticator seed both parties share.
\<close>

section \<open>The objects of an epoch\<close>

record braid_run =
  run_ext :: ext
  run_draw :: "u64 \<Rightarrow> nat \<Rightarrow> bytes"
  run_seed :: bytes

definition kp_of :: "braid_run \<Rightarrow> u64 \<Rightarrow> bytes" where
  "kp_of R e = generate_keypair (run_ext R) (run_draw R e SEED_LEN)"

definition pk1_of :: "braid_run \<Rightarrow> u64 \<Rightarrow> bytes" where
  "pk1_of R e = kem_pk1 (run_ext R) (kp_of R e)"

definition pk2_of :: "braid_run \<Rightarrow> u64 \<Rightarrow> bytes" where
  "pk2_of R e = kem_pk2 (run_ext R) (kp_of R e)"

definition encaps_of :: "braid_run \<Rightarrow> u64 \<Rightarrow> bytes \<times> bytes \<times> bytes" where
  "encaps_of R e =
     (case encapsulate1 (run_ext R) (pk1_of R e) (run_draw R e ENCAPS_RANDOMNESS_LEN) of
        Inl _ \<Rightarrow> ([], [], []) | Inr t \<Rightarrow> t)"

definition ct1_of :: "braid_run \<Rightarrow> u64 \<Rightarrow> bytes" where
  "ct1_of R e = fst (encaps_of R e)"

definition es_of :: "braid_run \<Rightarrow> u64 \<Rightarrow> bytes" where
  "es_of R e = fst (snd (encaps_of R e))"

definition ct2_of :: "braid_run \<Rightarrow> u64 \<Rightarrow> bytes" where
  "ct2_of R e = (case encapsulate2 (run_ext R) (es_of R e) (pk2_of R e) of Inl _ \<Rightarrow> [] | Inr c \<Rightarrow> c)"

text \<open>The secret of the epoch, and the authenticator after a number of epochs.\<close>

definition ss_of :: "braid_run \<Rightarrow> u64 \<Rightarrow> bytes" where
  "ss_of R e = kdf_ok (run_ext R) (snd (snd (encaps_of R e))) e"

primrec auth_at :: "braid_run \<Rightarrow> nat \<Rightarrow> authenticator" where
  "auth_at R 0 = auth_init (run_ext R) INITIAL_EPOCH (run_seed R)"
| "auth_at R (Suc n) =
     auth_update (run_ext R) (of_nat (Suc n)) (ss_of R (of_nat (Suc n))) (auth_at R n)"

definition hdr_of :: "braid_run \<Rightarrow> u64 \<Rightarrow> bytes" where
  "hdr_of R e = pk1_of R e @ mac_hdr (run_ext R) (auth_at R (unat e - 1)) e (pk1_of R e)"

definition ct2m_of :: "braid_run \<Rightarrow> u64 \<Rightarrow> bytes" where
  "ct2m_of R e = ct2_of R e @ mac_ct (run_ext R) (auth_at R (unat e)) e (ct1_of R e @ ct2_of R e)"

text \<open>What the run needs of the external code.\<close>

definition run_ok :: "braid_run \<Rightarrow> bool" where
  "run_ok R \<longleftrightarrow>
     hash_lens (run_ext R) \<and> rs_ok (run_ext R) \<and> kem_ok (run_ext R) \<and>
     (\<forall>e n. length (run_draw R e n) = n) \<and>
     erasure_fits (run_ext R) (pk1_len (run_ext R) + MAC_SIZE) \<and>
     erasure_fits (run_ext R) (pk2_len (run_ext R)) \<and>
     erasure_fits (run_ext R) (ct1_len (run_ext R)) \<and>
     erasure_fits (run_ext R) (ct2_len (run_ext R) + MAC_SIZE)"

section \<open>States and messages of the run\<close>

definition streams :: "braid_run \<Rightarrow> bytes \<Rightarrow> encoder \<Rightarrow> bool" where
  "streams R data en \<longleftrightarrow> shards en = shards_of (run_ext R) data"

fun phase_ok :: "braid_run \<Rightarrow> state \<Rightarrow> bool" where
  "phase_ok R (KeysUnsampled e a) \<longleftrightarrow> a = auth_at R (unat e - 1)"
| "phase_ok R (KeysSampled e a dk ekv en) \<longleftrightarrow>
     a = auth_at R (unat e - 1) \<and> dk = kp_of R e \<and> ekv = pk2_of R e \<and> streams R (hdr_of R e) en"
| "phase_ok R (HeaderSent e a dk d en) \<longleftrightarrow>
     a = auth_at R (unat e - 1) \<and> dk = kp_of R e \<and> collects (run_ext R) (ct1_of R e) d \<and>
     streams R (pk2_of R e) en"
| "phase_ok R (Ct1Received e a dk c en) \<longleftrightarrow>
     a = auth_at R (unat e - 1) \<and> dk = kp_of R e \<and> c = ct1_of R e \<and> streams R (pk2_of R e) en"
| "phase_ok R (EkSentCt1Received e a dk c d) \<longleftrightarrow>
     a = auth_at R (unat e - 1) \<and> dk = kp_of R e \<and> c = ct1_of R e \<and>
     collects (run_ext R) (ct2m_of R e) d"
| "phase_ok R (NoHeaderReceived e a d) \<longleftrightarrow>
     a = auth_at R (unat e - 1) \<and> collects (run_ext R) (hdr_of R e) d"
| "phase_ok R (HeaderReceived e a h d) \<longleftrightarrow>
     a = auth_at R (unat e - 1) \<and> h = pk1_of R e \<and> collects (run_ext R) (pk2_of R e) d"
| "phase_ok R (Ct1Sampled e a h es c en d) \<longleftrightarrow>
     a = auth_at R (unat e) \<and> h = pk1_of R e \<and> es = es_of R e \<and> c = ct1_of R e \<and>
     streams R (ct1_of R e) en \<and> collects (run_ext R) (pk2_of R e) d"
| "phase_ok R (EkReceivedCt1Sampled e a es c ekv en) \<longleftrightarrow>
     a = auth_at R (unat e) \<and> es = es_of R e \<and> c = ct1_of R e \<and> ekv = pk2_of R e \<and>
     streams R (ct1_of R e) en"
| "phase_ok R (Ct1Acknowledged e a es h c d) \<longleftrightarrow>
     a = auth_at R (unat e) \<and> es = es_of R e \<and> h = pk1_of R e \<and> c = ct1_of R e \<and>
     collects (run_ext R) (pk2_of R e) d"
| "phase_ok R (Ct2Sampled e a en) \<longleftrightarrow> a = auth_at R (unat e) \<and> streams R (ct2m_of R e) en"
| "phase_ok R Poisoned \<longleftrightarrow> False"

text \<open>The object a message type carries codewords of.\<close>

fun payload_of :: "braid_run \<Rightarrow> msg_type \<Rightarrow> u64 \<Rightarrow> bytes" where
  "payload_of R Idle e = []"
| "payload_of R Hdr e = hdr_of R e"
| "payload_of R Ek e = pk2_of R e"
| "payload_of R EkCt1Ack e = pk2_of R e"
| "payload_of R Ct1 e = ct1_of R e"
| "payload_of R Ct2 e = ct2m_of R e"

definition msg_ok :: "braid_run \<Rightarrow> message \<Rightarrow> bool" where
  "msg_ok R m \<longleftrightarrow>
     (mtype m \<noteq> Idle \<longrightarrow>
        (\<exists>i < length (shards_of (run_ext R) (payload_of R (mtype m) (msg_epoch m))).
           msg_chunk m = Some (shard_chunk (run_ext R) (payload_of R (mtype m) (msg_epoch m)) i)))"

section \<open>Objects are well-formed\<close>

lemma run_okD:
  assumes "run_ok R"
  shows "hash_lens (run_ext R)" "rs_ok (run_ext R)" "kem_ok (run_ext R)"
    "length (run_draw R e n) = n"
    "erasure_fits (run_ext R) (pk1_len (run_ext R) + MAC_SIZE)"
    "erasure_fits (run_ext R) (pk2_len (run_ext R))"
    "erasure_fits (run_ext R) (ct1_len (run_ext R))"
    "erasure_fits (run_ext R) (ct2_len (run_ext R) + MAC_SIZE)"
  using assms by (simp_all add: run_ok_def)

lemma pk_of_props:
  assumes "run_ok R"
  shows "public_key_parts (run_ext R) (kp_of R e) = Inr (pk1_of R e, pk2_of R e)"
    and "length (pk1_of R e) = pk1_len (run_ext R)" and "length (pk2_of R e) = pk2_len (run_ext R)"
    and "validate_public_key (run_ext R) (pk1_of R e) (pk2_of R e) = Inr ()"
  using kem_okD [OF run_okD(3) [OF assms] run_okD(4) [OF assms, of e SEED_LEN]]
  by (simp_all add: kp_of_def pk1_of_def pk2_of_def)

lemma encaps_of_props:
  assumes "run_ok R"
  shows "encapsulate1 (run_ext R) (pk1_of R e) (run_draw R e ENCAPS_RANDOMNESS_LEN)
           = Inr (ct1_of R e, es_of R e, snd (snd (encaps_of R e)))"
    and "length (ct1_of R e) = ct1_len (run_ext R)"
    and "encapsulate2 (run_ext R) (es_of R e) (pk2_of R e) = Inr (ct2_of R e)"
    and "length (ct2_of R e) = ct2_len (run_ext R)"
    and "decapsulate (run_ext R) (kp_of R e) (ct1_of R e) (ct2_of R e) = Inr (snd (snd (encaps_of R e)))"
proof -
  obtain ct1 st ss ct2 where e:
    "encapsulate1 (run_ext R) (pk1_of R e) (run_draw R e ENCAPS_RANDOMNESS_LEN) = Inr (ct1, st, ss)"
    "length ct1 = ct1_len (run_ext R)" "encapsulate2 (run_ext R) st (pk2_of R e) = Inr ct2"
    "length ct2 = ct2_len (run_ext R)" "decapsulate (run_ext R) (kp_of R e) ct1 ct2 = Inr ss"
    using kem_encapsulates [OF run_okD(3) [OF assms] run_okD(4) [OF assms, of e SEED_LEN]
        run_okD(4) [OF assms, of e ENCAPS_RANDOMNESS_LEN]]
    unfolding kp_of_def pk1_of_def pk2_of_def by blast
  then have en: "encaps_of R e = (ct1, st, ss)" by (simp add: encaps_of_def)
  then have "ct1_of R e = ct1" "es_of R e = st" "ct2_of R e = ct2"
    using e(3) by (simp_all add: ct1_of_def es_of_def ct2_of_def)
  with e en show
    "encapsulate1 (run_ext R) (pk1_of R e) (run_draw R e ENCAPS_RANDOMNESS_LEN)
           = Inr (ct1_of R e, es_of R e, snd (snd (encaps_of R e)))"
    "length (ct1_of R e) = ct1_len (run_ext R)"
    "encapsulate2 (run_ext R) (es_of R e) (pk2_of R e) = Inr (ct2_of R e)"
    "length (ct2_of R e) = ct2_len (run_ext R)"
    "decapsulate (run_ext R) (kp_of R e) (ct1_of R e) (ct2_of R e) = Inr (snd (snd (encaps_of R e)))"
    by simp_all
qed

lemma payload_lengths:
  assumes "run_ok R"
  shows "length (hdr_of R e) = pk1_len (run_ext R) + MAC_SIZE"
    and "length (ct2m_of R e) = ct2_len (run_ext R) + MAC_SIZE"
  using pk_of_props [OF assms] encaps_of_props [OF assms] run_okD(1) [OF assms]
  by (simp_all add: hdr_of_def ct2m_of_def length_mac_hdr length_mac_ct MAC_SIZE_def)

lemma payload_fits:
  assumes "run_ok R" and "mt \<noteq> Idle"
  shows "erasure_fits (run_ext R) (length (payload_of R mt e))"
  using assms run_okD [OF assms(1)] pk_of_props [OF assms(1)] encaps_of_props [OF assms(1)]
    payload_lengths [OF assms(1)]
  by (cases mt) simp_all

lemma auth_at_epoch:
  assumes "e \<noteq> 0"
  shows "auth_update (run_ext R) e (ss_of R e) (auth_at R (unat e - 1)) = auth_at R (unat e)"
proof -
  obtain n where n: "unat e = Suc n" using assms by (metis not0_implies_Suc unat_eq_zero)
  have "of_nat (unat e) = e" by simp
  then have "of_nat (Suc n) = e" using n by simp
  with n show ?thesis by (metis auth_at.simps(2) diff_Suc_1)
qed

section \<open>One step\<close>

lemma next_chunk_streams:
  assumes "run_ok R" and "mt \<noteq> Idle" and "streams R (payload_of R mt e) en"
  shows "streams R (payload_of R mt e) (fst (next_chunk en))"
    and "msg_ok R (message_carrying e mt (snd (next_chunk en)))"
proof -
  let ?sh = "shards_of (run_ext R) (payload_of R mt e)"
  have "0 < length ?sh"
    using shards_of_props(1) [OF run_okD(2) [OF assms(1)] payload_fits [OF assms(1,2)]] by simp
  then have "cursor en mod length ?sh < length ?sh" by simp
  then show "msg_ok R (message_carrying e mt (snd (next_chunk en)))"
    using assms(3)
    by (auto simp: msg_ok_def message_carrying_def next_chunk_def Let_def streams_def shard_chunk_def)
  show "streams R (payload_of R mt e) (fst (next_chunk en))"
    using assms(3) by (simp add: streams_def next_chunk_def Let_def)
qed

lemma encoder_new_streams:
  assumes "run_ok R" and "mt \<noteq> Idle"
  shows "\<exists>en. encoder_new (run_ext R) (payload_of R mt e) = Inr en \<and> streams R (payload_of R mt e) en"
  using encoder_new_fits [OF run_okD(2) [OF assms(1)] payload_fits [OF assms]]
  by (simp add: streams_def)

lemma add_msg_collects:
  assumes "run_ok R" and "msg_ok R m" and "mtype m \<noteq> Idle"
    and "collects (run_ext R) (payload_of R (mtype m) (msg_epoch m)) d"
  shows "\<exists>d'. add_msg_chunk d m = Inr d' \<and>
           collects (run_ext R) (payload_of R (mtype m) (msg_epoch m)) d' \<and>
           decoder_message (run_ext R) d' =
             Inr (if has_message d' then Some (payload_of R (mtype m) (msg_epoch m)) else None)"
proof -
  note laws = run_okD(2) [OF assms(1)] payload_fits [OF assms(1,3)]
  from assms(2,3) obtain i where
    i: "i < length (shards_of (run_ext R) (payload_of R (mtype m) (msg_epoch m)))"
    "msg_chunk m = Some (shard_chunk (run_ext R) (payload_of R (mtype m) (msg_epoch m)) i)"
    by (auto simp: msg_ok_def)
  from add_chunk_collects [OF laws assms(4) i(1)] i(2) decoder_message_collects [OF laws]
  show ?thesis by (auto simp: add_msg_chunk_def)
qed

definition secret_ok :: "braid_run \<Rightarrow> epoch_secret option \<Rightarrow> bool" where
  "secret_ok R out \<longleftrightarrow> pred_option (\<lambda>es. es_secret es = ss_of R (es_epoch es)) out"

lemma secret_ok_simps [simp]:
  "secret_ok R None" "secret_ok R (Some \<lparr>es_epoch = e, es_secret = s\<rparr>) \<longleftrightarrow> s = ss_of R e"
  by (simp_all add: secret_ok_def)

lemma msg_ok_idle [simp]: "msg_ok R (message_idle e)"
  by (simp add: msg_ok_def message_idle_def)

lemma send_keys_unsampled_ok:
  assumes "run_ok R"
  shows "\<exists>st' m. send_keys_unsampled (run_ext R) (run_draw R e) e (auth_at R (unat e - 1)) = Inr (st', m, None) \<and>
           phase_ok R st' \<and> msg_ok R m"
proof -
  obtain en where en: "encoder_new (run_ext R) (hdr_of R e) = Inr en" "streams R (hdr_of R e) en"
    using encoder_new_streams [OF assms, of Hdr e] by auto
  then show ?thesis
    using pk_of_props(1) [OF assms, of e] next_chunk_streams [OF assms, of Hdr e en]
    by (simp add: send_keys_unsampled_def Let_def kp_of_def hdr_of_def split_beta)
qed

lemma send_header_received_ok:
  assumes "run_ok R" and "e \<noteq> 0" and "collects (run_ext R) (pk2_of R e) d"
  shows "\<exists>st' m. send_header_received (run_ext R) (run_draw R e) e (auth_at R (unat e - 1)) (pk1_of R e) d
             = Inr (st', m, Some \<lparr>es_epoch = e, es_secret = ss_of R e\<rparr>) \<and>
           phase_ok R st' \<and> msg_ok R m"
proof -
  obtain en where en: "encoder_new (run_ext R) (ct1_of R e) = Inr en" "streams R (ct1_of R e) en"
    using encoder_new_streams [OF assms(1), of Ct1 e] by auto
  then show ?thesis
    using encaps_of_props(1) [OF assms(1), of e] next_chunk_streams [OF assms(1), of Ct1 e en]
      auth_at_epoch [OF assms(2), of R] assms(3)
    by (auto simp: send_header_received_def Let_def ss_of_def [symmetric] split_beta)
qed

lemma state_send_ok:
  assumes "run_ok R" and "phase_ok R st" and "state_epoch st \<noteq> 0"
  shows "\<exists>st' m out. state_send (run_ext R) (run_draw R (state_epoch st)) st = Inr (st', m, out) \<and>
           phase_ok R st' \<and> msg_ok R m \<and> secret_ok R out"
proof (cases st)
  case (KeysUnsampled e a)
  then show ?thesis using send_keys_unsampled_ok [OF assms(1), of e] assms(2) by auto
next
  case (HeaderReceived e a h d)
  then show ?thesis using send_header_received_ok [OF assms(1), of e d] assms(2,3) by auto
next
  case (KeysSampled e a dk ekv en)
  then show ?thesis using assms(2) next_chunk_streams [OF assms(1), of Hdr e en]
    by (simp add: send_defs Let_def split_beta)
next
  case (HeaderSent e a dk d en)
  then show ?thesis using assms(2) next_chunk_streams [OF assms(1), of Ek e en]
    by (simp add: send_defs Let_def split_beta)
next
  case (Ct1Received e a dk c en)
  then show ?thesis using assms(2) next_chunk_streams [OF assms(1), of EkCt1Ack e en]
    by (simp add: send_defs Let_def split_beta)
next
  case (Ct1Sampled e a h es c en d)
  then show ?thesis using assms(2) next_chunk_streams [OF assms(1), of Ct1 e en]
    by (simp add: send_defs Let_def split_beta)
next
  case (EkReceivedCt1Sampled e a es c ekv en)
  then show ?thesis using assms(2) next_chunk_streams [OF assms(1), of Ct1 e en]
    by (simp add: send_defs Let_def split_beta)
next
  case (Ct2Sampled e a en)
  then show ?thesis using assms(2) next_chunk_streams [OF assms(1), of Ct2 e en]
    by (simp add: send_defs Let_def split_beta)
qed (use assms(2) in \<open>simp_all add: send_idle_def\<close>)

lemma build_ct2_encoder_ok:
  assumes "run_ok R"
  shows "\<exists>en. build_ct2_encoder (run_ext R) (auth_at R (unat e)) e (es_of R e) (pk2_of R e) (ct1_of R e) = Inr en \<and>
           streams R (ct2m_of R e) en"
  using encoder_new_streams [OF assms, of Ct2 e] encaps_of_props(3) [OF assms, of e]
  by (simp add: build_ct2_encoder_def Let_def ct2m_of_def)

lemma collects_fresh:
  assumes "run_ok R"
  shows "collects (run_ext R) (hdr_of R e) (decoder_new (pk1_len (run_ext R) + MAC_SIZE))"
    and "collects (run_ext R) (pk2_of R e) (decoder_new (pk2_len (run_ext R)))"
    and "collects (run_ext R) (ct1_of R e) (decoder_new (ct1_len (run_ext R)))"
    and "collects (run_ext R) (ct2m_of R e) (decoder_new (ct2_len (run_ext R) + MAC_SIZE))"
  using collects_new [of "run_ext R" "hdr_of R e"] collects_new [of "run_ext R" "pk2_of R e"]
    collects_new [of "run_ext R" "ct1_of R e"] collects_new [of "run_ext R" "ct2m_of R e"]
    payload_lengths [OF assms, of e] pk_of_props [OF assms, of e] encaps_of_props [OF assms, of e]
  by simp_all

lemma epoch_succ: "unat e + 1 < 2 ^ 64 \<Longrightarrow> unat (e + 1 :: u64) - 1 = unat e"
  by (simp add: unat_add_one)

abbreviation recv_good :: "braid_run \<Rightarrow> transition \<Rightarrow> bool" where
  "recv_good R r \<equiv> \<exists>st' out. r = Inr (st', out) \<and> phase_ok R st' \<and> secret_ok R out"

lemma recv_no_header_received_ok:
  assumes "run_ok R" and "msg_ok R m" and "collects (run_ext R) (hdr_of R e) d"
  shows "recv_good R (recv_no_header_received (run_ext R) m e (auth_at R (unat e - 1)) d)"
proof (cases "msg_epoch m = e \<and> mtype m = Hdr")
  case True
  then obtain d' where d': "add_msg_chunk d m = Inr d'" "collects (run_ext R) (hdr_of R e) d'"
    "decoder_message (run_ext R) d' = Inr (if has_message d' then Some (hdr_of R e) else None)"
    using add_msg_collects [OF assms(1,2), of d] assms(3) by auto
  have "split_at (pk1_len (run_ext R)) (hdr_of R e)
      = Inr (pk1_of R e, mac_hdr (run_ext R) (auth_at R (unat e - 1)) e (pk1_of R e))"
    using pk_of_props(2) [OF assms(1)] by (simp add: split_at_Inr hdr_of_def)
  then show ?thesis
    using d' True collects_fresh(2) [OF assms(1), of e] vfy_hdr_mac [OF run_okD(1) [OF assms(1)]]
    by (simp add: recv_no_header_received_def)
qed (use assms(3) in \<open>auto simp: recv_no_header_received_def\<close>)

lemma recv_ek_sent_ct1_received_ok:
  assumes "run_ok R" and "msg_ok R m" and "collects (run_ext R) (ct2m_of R e) d"
    and "e \<noteq> 0" and "unat e + 1 < 2 ^ 64"
  shows "recv_good R (recv_ek_sent_ct1_received (run_ext R) m e (auth_at R (unat e - 1)) (kp_of R e) (ct1_of R e) d)"
proof (cases "msg_epoch m = e \<and> mtype m = Ct2")
  case True
  then obtain d' where d': "add_msg_chunk d m = Inr d'" "collects (run_ext R) (ct2m_of R e) d'"
    "decoder_message (run_ext R) d' = Inr (if has_message d' then Some (ct2m_of R e) else None)"
    using add_msg_collects [OF assms(1,2), of d] assms(3) by auto
  have "split_at (ct2_len (run_ext R)) (ct2m_of R e)
      = Inr (ct2_of R e, mac_ct (run_ext R) (auth_at R (unat e)) e (ct1_of R e @ ct2_of R e))"
    using encaps_of_props(4) [OF assms(1)] by (simp add: split_at_Inr ct2m_of_def)
  then show ?thesis
    using d' True collects_fresh(1) [OF assms(1), of "e + 1"] vfy_ct_mac [OF run_okD(1) [OF assms(1)]]
      encaps_of_props(5) [OF assms(1), of e] auth_at_epoch [OF assms(4), of R] epoch_succ [OF assms(5)]
    by (simp add: recv_ek_sent_ct1_received_def Let_def ss_of_def [symmetric])
qed (use assms(3) in \<open>auto simp: recv_ek_sent_ct1_received_def\<close>)

lemma recv_ct1_sampled_ok:
  assumes "run_ok R" and "msg_ok R m" and "collects (run_ext R) (pk2_of R e) d"
    and "streams R (ct1_of R e) en"
  shows "recv_good R (recv_ct1_sampled (run_ext R) m e (auth_at R (unat e)) (pk1_of R e) (es_of R e) (ct1_of R e) en d)"
proof (cases "msg_epoch m = e \<and> (mtype m = Ek \<or> mtype m = EkCt1Ack)")
  case True
  then obtain d' where d': "add_msg_chunk d m = Inr d'" "collects (run_ext R) (pk2_of R e) d'"
    "decoder_message (run_ext R) d' = Inr (if has_message d' then Some (pk2_of R e) else None)"
    using add_msg_collects [OF assms(1,2), of d] assms(3) by auto
  then show ?thesis
    using True pk_of_props(4) [OF assms(1), of e] build_ct2_encoder_ok [OF assms(1), of e] assms(4)
    by (auto simp: recv_ct1_sampled_def Let_def)
qed (use assms(3,4) in \<open>auto simp: recv_ct1_sampled_def Let_def\<close>)

lemma recv_ct1_acknowledged_ok:
  assumes "run_ok R" and "msg_ok R m" and "collects (run_ext R) (pk2_of R e) d"
  shows "recv_good R (recv_ct1_acknowledged (run_ext R) m e (auth_at R (unat e)) (es_of R e) (pk1_of R e) (ct1_of R e) d)"
proof (cases "msg_epoch m = e \<and> mtype m = EkCt1Ack")
  case True
  then obtain d' where d': "add_msg_chunk d m = Inr d'" "collects (run_ext R) (pk2_of R e) d'"
    "decoder_message (run_ext R) d' = Inr (if has_message d' then Some (pk2_of R e) else None)"
    using add_msg_collects [OF assms(1,2), of d] assms(3) by auto
  then show ?thesis
    using True pk_of_props(4) [OF assms(1), of e] build_ct2_encoder_ok [OF assms(1), of e]
    by (auto simp: recv_ct1_acknowledged_def)
qed (use assms(3) in \<open>auto simp: recv_ct1_acknowledged_def\<close>)

lemma recv_keys_sampled_ok:
  assumes "run_ok R" and "msg_ok R m" and "streams R (hdr_of R e) en"
  shows "recv_good R (recv_keys_sampled (run_ext R) m e (auth_at R (unat e - 1)) (kp_of R e) (pk2_of R e) en)"
proof (cases "msg_epoch m = e \<and> mtype m = Ct1")
  case True
  then obtain d' where d': "add_msg_chunk (decoder_new (ct1_len (run_ext R))) m = Inr d'"
    "collects (run_ext R) (ct1_of R e) d'"
    using add_msg_collects [OF assms(1,2)] collects_fresh(3) [OF assms(1), of e] by fastforce
  then show ?thesis
    using True encoder_new_streams [OF assms(1), of Ek e] by (auto simp: recv_keys_sampled_def)
qed (use assms(3) in \<open>auto simp: recv_keys_sampled_def\<close>)

lemma recv_header_sent_ok:
  assumes "run_ok R" and "msg_ok R m" and "collects (run_ext R) (ct1_of R e) d" and "streams R (pk2_of R e) en"
  shows "recv_good R (recv_header_sent (run_ext R) m e (auth_at R (unat e - 1)) (kp_of R e) d en)"
proof (cases "msg_epoch m = e \<and> mtype m = Ct1")
  case True
  then obtain d' where d': "add_msg_chunk d m = Inr d'" "collects (run_ext R) (ct1_of R e) d'"
    "decoder_message (run_ext R) d' = Inr (if has_message d' then Some (ct1_of R e) else None)"
    using add_msg_collects [OF assms(1,2), of d] assms(3) by auto
  then show ?thesis using True assms(4) by (auto simp: recv_header_sent_def)
qed (use assms(3,4) in \<open>auto simp: recv_header_sent_def\<close>)

lemma recv_ct1_received_ok:
  assumes "run_ok R" and "msg_ok R m" and "streams R (pk2_of R e) en"
  shows "recv_good R (recv_ct1_received (run_ext R) m e (auth_at R (unat e - 1)) (kp_of R e) (ct1_of R e) en)"
proof (cases "msg_epoch m = e \<and> mtype m = Ct2")
  case True
  then obtain d' where d': "add_msg_chunk (decoder_new (ct2_len (run_ext R) + MAC_SIZE)) m = Inr d'"
    "collects (run_ext R) (ct2m_of R e) d'"
    using add_msg_collects [OF assms(1,2)] collects_fresh(4) [OF assms(1), of e] by fastforce
  then show ?thesis using True by (auto simp: recv_ct1_received_def)
qed (use assms(3) in \<open>auto simp: recv_ct1_received_def\<close>)

lemma state_receive_ok:
  assumes "run_ok R" and "msg_ok R m" and "phase_ok R st"
    and "state_epoch st \<noteq> 0" and "unat (state_epoch st) + 1 < 2 ^ 64"
  shows "recv_good R (state_receive (run_ext R) st m)"
proof (cases st)
  case (KeysSampled e a dk ekv en)
  then show ?thesis using recv_keys_sampled_ok [OF assms(1,2)] assms(3) by simp
next
  case (HeaderSent e a dk d en)
  then show ?thesis using recv_header_sent_ok [OF assms(1,2)] assms(3) by simp
next
  case (Ct1Received e a dk c en)
  then show ?thesis using recv_ct1_received_ok [OF assms(1,2)] assms(3) by simp
next
  case (EkSentCt1Received e a dk c d)
  then show ?thesis using recv_ek_sent_ct1_received_ok [OF assms(1,2)] assms(3-5) by simp
next
  case (NoHeaderReceived e a d)
  then show ?thesis using recv_no_header_received_ok [OF assms(1,2)] assms(3) by simp
next
  case (Ct1Sampled e a h es c en d)
  then show ?thesis using recv_ct1_sampled_ok [OF assms(1,2)] assms(3) by simp
next
  case (EkReceivedCt1Sampled e a es c ekv en)
  then show ?thesis using assms(3) build_ct2_encoder_ok [OF assms(1), of e]
    by (auto simp: recv_ek_received_ct1_sampled_def)
next
  case (Ct1Acknowledged e a es h c d)
  then show ?thesis using recv_ct1_acknowledged_ok [OF assms(1,2)] assms(3) by simp
next
  case (Ct2Sampled e a en)
  then show ?thesis using assms(3,5) epoch_succ [of e] by (simp add: recv_ct2_sampled_def)
qed (use assms(3) in simp_all)

end
