(* ===== verification/Braid_System.thy ===== *)
theory Braid_System
  imports Braid_Honest
begin

text \<open>
  Two parties running the braid over a network that may lose, reorder, delay and duplicate
  messages: \<open>wire p\<close> is the set of messages \<open>p\<close> has ever sent, and a receive takes any
  message the other party has ever sent. \<open>braid_reach R n s\<close> says that \<open>s\<close> is reachable
  in \<open>n\<close> calls of \<open>braid_send\<close> and \<open>braid_receive\<close>. \<open>emitted p\<close> collects the epoch
  secrets that \<open>p\<close>'s calls returned.

  Counting the calls bounds the epoch, which a 64-bit counter holds: each call advances
  it by at most one.
\<close>

datatype party = Alice | Bob

fun other :: "party \<Rightarrow> party" where
  "other Alice = Bob"
| "other Bob = Alice"

record braid_system =
  parties :: "party \<Rightarrow> braid_state"
  wire :: "party \<Rightarrow> message set"
  emitted :: "party \<Rightarrow> epoch_secret set"

definition system_init :: "braid_run \<Rightarrow> braid_system" where
  "system_init R =
     \<lparr>parties = (\<lambda>p. case p of Alice \<Rightarrow> init_sender (run_ext R) (run_seed R)
                           | Bob \<Rightarrow> init_receiver (run_ext R) (run_seed R)),
      wire = (\<lambda>_. {}), emitted = (\<lambda>_. {})\<rparr>"

definition after_send :: "party \<Rightarrow> braid_state \<Rightarrow> scka_send \<Rightarrow> braid_system \<Rightarrow> braid_system" where
  "after_send p b out s =
     s\<lparr>parties := (parties s)(p := b),
       wire := (wire s)(p := insert (send_msg out) (wire s p)),
       emitted := (emitted s)(p := set_option (send_output_key out) \<union> emitted s p)\<rparr>"

definition after_receive :: "party \<Rightarrow> braid_state \<Rightarrow> scka_receive \<Rightarrow> braid_system \<Rightarrow> braid_system" where
  "after_receive p b out s =
     s\<lparr>parties := (parties s)(p := b),
       emitted := (emitted s)(p := set_option (recv_output_key out) \<union> emitted s p)\<rparr>"

abbreviation st_of :: "braid_system \<Rightarrow> party \<Rightarrow> state" where
  "st_of s p \<equiv> braid_phase (parties s p)"

abbreviation ep :: "braid_system \<Rightarrow> party \<Rightarrow> nat" where
  "ep s p \<equiv> unat (state_epoch (st_of s p))"

inductive braid_reach :: "braid_run \<Rightarrow> nat \<Rightarrow> braid_system \<Rightarrow> bool" for R where
  reach_init: "braid_reach R 0 (system_init R)"
| reach_send: "braid_reach R n s \<Longrightarrow>
     braid_send (run_ext R) (run_draw R (state_epoch (st_of s p))) (parties s p) = (b, Inr out) \<Longrightarrow>
     braid_reach R (Suc n) (after_send p b out s)"
| reach_receive: "braid_reach R n s \<Longrightarrow> m \<in> wire s (other p) \<Longrightarrow>
     braid_receive (run_ext R) (parties s p) m = (b, Inr out) \<Longrightarrow>
     braid_reach R (Suc n) (after_receive p b out s)"

lemma after_simps [simp]:
  "parties (after_send p b out s) = (parties s)(p := b)"
  "wire (after_send p b out s) = (wire s)(p := insert (send_msg out) (wire s p))"
  "emitted (after_send p b out s) = (emitted s)(p := set_option (send_output_key out) \<union> emitted s p)"
  "parties (after_receive p b o2 s) = (parties s)(p := b)"
  "wire (after_receive p b o2 s) = wire s"
  "emitted (after_receive p b o2 s) = (emitted s)(p := set_option (recv_output_key o2) \<union> emitted s p)"
  by (simp_all add: after_send_def after_receive_def)

lemma other_neq [simp]: "other p \<noteq> p" "p \<noteq> other p" "other (other p) = p"
  by (cases p; simp)+

lemma other_cases: "q = p \<or> q = other p"
  by (cases p; cases q) simp_all

section \<open>Every object in the system is the epoch's\<close>

definition system_ok :: "braid_run \<Rightarrow> nat \<Rightarrow> braid_system \<Rightarrow> bool" where
  "system_ok R n s \<longleftrightarrow>
     (\<forall>p. phase_ok R (st_of s p) \<and> 0 < ep s p \<and> ep s p \<le> n + 1 \<and>
          (\<forall>m \<in> wire s p. msg_ok R m) \<and>
          (\<forall>es \<in> emitted s p. es_secret es = ss_of R (es_epoch es)))"

lemma system_okD:
  assumes "system_ok R n s"
  shows "phase_ok R (st_of s p)" "0 < ep s p" "ep s p \<le> n + 1" "m \<in> wire s p \<Longrightarrow> msg_ok R m"
    "es \<in> emitted s p \<Longrightarrow> es_secret es = ss_of R (es_epoch es)" "state_epoch (st_of s p) \<noteq> 0"
proof -
  show a: "phase_ok R (st_of s p)" "0 < ep s p" "ep s p \<le> n + 1" "m \<in> wire s p \<Longrightarrow> msg_ok R m"
    "es \<in> emitted s p \<Longrightarrow> es_secret es = ss_of R (es_epoch es)"
    using assms by (simp_all add: system_ok_def)
  show "state_epoch (st_of s p) \<noteq> 0" using a(2) by auto
qed

lemma system_ok_init: "run_ok R \<Longrightarrow> system_ok R 0 (system_init R)"
  using collects_fresh(1) [of R 1]
  by (auto simp: system_ok_def system_init_def init_sender_def init_receiver_def INITIAL_EPOCH_def
      split: party.splits)

lemma secret_ok_set: "secret_ok R out \<Longrightarrow> es \<in> set_option out \<Longrightarrow> es_secret es = ss_of R (es_epoch es)"
  by (cases out) (auto simp: secret_ok_def)

lemma system_ok_send:
  assumes "run_ok R" and "system_ok R n s"
    and "braid_send (run_ext R) (run_draw R (state_epoch (st_of s p))) (parties s p) = (b, Inr out)"
  shows "system_ok R (Suc n) (after_send p b out s)"
proof -
  note inv = system_okD [OF assms(2)]
  have snd: "state_send (run_ext R) (run_draw R (state_epoch (st_of s p))) (st_of s p)
      = Inr (braid_phase b, send_msg out, send_output_key out)"
    using assms(3) by (simp add: braid_send_Inr)
  then have "phase_ok R (braid_phase b)" "msg_ok R (send_msg out)" "secret_ok R (send_output_key out)"
    using state_send_ok [OF assms(1) inv(1,6), of p] by auto
  moreover have "state_epoch (braid_phase b) = state_epoch (st_of s p)"
    using state_send_local(1) [OF snd] .
  ultimately show ?thesis
    using inv by (auto simp: system_ok_def secret_ok_set intro: le_SucI)
qed

lemma system_ok_receive:
  assumes "run_ok R" and "system_ok R n s" and "n + 2 < 2 ^ 64" and "m \<in> wire s (other p)"
    and "braid_receive (run_ext R) (parties s p) m = (b, Inr out)"
  shows "system_ok R (Suc n) (after_receive p b out s)"
proof -
  note inv = system_okD [OF assms(2)]
  have rcv: "state_receive (run_ext R) (st_of s p) m = Inr (braid_phase b, recv_output_key out)"
    using assms(5) by (simp add: braid_receive_Inr)
  have lim: "ep s p + 1 < 2 ^ 64" using inv(3) [of p] assms(3) by simp
  have ok: "phase_ok R (braid_phase b)" "secret_ok R (recv_output_key out)"
    using state_receive_ok [OF assms(1) inv(4) [OF assms(4)] inv(1,6) lim] rcv by auto
  have "unat (state_epoch (braid_phase b)) = ep s p \<or> unat (state_epoch (braid_phase b)) = ep s p + 1"
    using state_receive_local [OF rcv] lim by (auto simp: unat_add_one)
  then have "0 < unat (state_epoch (braid_phase b))" "unat (state_epoch (braid_phase b)) \<le> Suc n + 1"
    using inv(2,3) [of p] by auto
  then show ?thesis
    using ok inv by (auto simp: system_ok_def secret_ok_set intro: le_SucI)
qed

lemma reach_system_ok:
  "braid_reach R n s \<Longrightarrow> run_ok R \<Longrightarrow> n < 2 ^ 64 - 2 \<Longrightarrow> system_ok R n s"
  by (induction rule: braid_reach.induct)
    (simp_all add: system_ok_init system_ok_send system_ok_receive)

section \<open>The two parties stay in lockstep\<close>

text \<open>What the sender of a message of the current epoch must have reached.\<close>

fun sent_in :: "msg_type \<Rightarrow> bool \<Rightarrow> nat \<Rightarrow> bool" where
  "sent_in Idle own ph \<longleftrightarrow> True"
| "sent_in Hdr own ph \<longleftrightarrow> own \<and> 1 \<le> ph"
| "sent_in Ek own ph \<longleftrightarrow> own \<and> 2 \<le> ph"
| "sent_in EkCt1Ack own ph \<longleftrightarrow> own \<and> 3 \<le> ph"
| "sent_in Ct1 own ph \<longleftrightarrow> \<not> own \<and> 2 \<le> ph"
| "sent_in Ct2 own ph \<longleftrightarrow> \<not> own \<and> 5 \<le> ph"

lemma sent_in_mono: "sent_in mt own ph \<Longrightarrow> ph \<le> ph' \<Longrightarrow> sent_in mt own ph'"
  by (cases mt) auto

lemma state_send_sent_in:
  "state_send X rng st = Inr (st', m, out) \<Longrightarrow> sent_in (mtype m) (is_owner st') (phase st')"
  by (cases st; force simp: send_defs msg_defs Let_def split_beta split: sum.splits prod.splits)

text \<open>What a message must be for a receive to move the state on.\<close>

fun moves :: "bool \<Rightarrow> nat \<Rightarrow> nat \<Rightarrow> msg_type \<Rightarrow> bool" where
  "moves True ph ph' mt \<longleftrightarrow> (ph = 1 \<and> ph' = 2 \<and> mt = Ct1) \<or> (ph = 2 \<and> ph' = 3 \<and> mt = Ct1) \<or>
     (ph = 3 \<and> ph' = 4 \<and> mt = Ct2)"
| "moves False ph ph' mt \<longleftrightarrow> (ph = 0 \<and> ph' = 1 \<and> mt = Hdr) \<or>
     (ph = 2 \<and> ph' = 3 \<and> mt = Ek) \<or> (ph = 2 \<and> ph' = 4 \<and> mt = EkCt1Ack) \<or>
     (2 \<le> ph \<and> ph \<le> 4 \<and> ph' = 5 \<and> mt = EkCt1Ack)"

lemma state_receive_moves:
  assumes "state_receive X st m = Inr (st', out)"
  shows "(state_epoch st' = state_epoch st \<and> is_owner st' = is_owner st \<and> out = None \<and>
            (phase st' = phase st \<or>
             msg_epoch m = state_epoch st \<and> moves (is_owner st) (phase st) (phase st') (mtype m)))
       \<or> (state_epoch st' = state_epoch st + 1 \<and> \<not> is_owner st' \<and> is_owner st \<and> phase st = 4 \<and>
            phase st' = 0 \<and> out \<noteq> None \<and> msg_epoch m = state_epoch st \<and> mtype m = Ct2)
       \<or> (state_epoch st' = state_epoch st + 1 \<and> is_owner st' \<and> \<not> is_owner st \<and> phase st = 5 \<and>
            phase st' = 0 \<and> out = None \<and> msg_epoch m = state_epoch st + 1)"
  using assms
  by (cases st) (auto simp: recv_defs Let_def split: sum.splits if_splits option.splits)

lemma state_send_moves:
  assumes "state_send X rng st = Inr (st', m, out)"
  shows "phase st' = phase st \<and> out = None \<or> is_owner st \<and> phase st = 0 \<and> phase st' = 1 \<and> out = None
       \<or> \<not> is_owner st \<and> phase st = 1 \<and> phase st' = 2 \<and> (\<exists>es. out = Some es \<and> es_epoch es = state_epoch st)"
  using assms
  by (cases st; force simp: send_defs msg_defs Let_def split_beta split: sum.splits prod.splits)

text \<open>
  In one epoch, with \<open>own\<close> the phase of the key-pair owner and \<open>enc\<close> the encapsulator's:
  no one is ahead of what the other must have sent.
\<close>

definition paired :: "nat \<Rightarrow> nat \<Rightarrow> bool" where
  "paired ow en \<longleftrightarrow> (2 \<le> ow \<longrightarrow> 2 \<le> en) \<and> (1 \<le> en \<longrightarrow> 1 \<le> ow) \<and> (3 \<le> en \<longrightarrow> 2 \<le> ow) \<and>
     (4 \<le> en \<longrightarrow> 3 \<le> ow) \<and> (ow = 4 \<longrightarrow> en = 5)"

text \<open>Either both are in one epoch, or \<open>q\<close> has closed it and the other awaits its next message.\<close>

definition together :: "braid_system \<Rightarrow> party \<Rightarrow> bool" where
  "together s q \<longleftrightarrow> ep s q = ep s (other q) \<and> is_owner (st_of s q) \<and> \<not> is_owner (st_of s (other q)) \<and>
     paired (phase (st_of s q)) (phase (st_of s (other q)))"

definition ahead :: "braid_system \<Rightarrow> party \<Rightarrow> bool" where
  "ahead s q \<longleftrightarrow> ep s q = ep s (other q) + 1 \<and> \<not> is_owner (st_of s q) \<and> phase (st_of s q) = 0 \<and>
     \<not> is_owner (st_of s (other q)) \<and> phase (st_of s (other q)) = 5"

definition wires_ok :: "braid_system \<Rightarrow> bool" where
  "wires_ok s \<longleftrightarrow>
     (\<forall>p. \<forall>m \<in> wire s p. unat (msg_epoch m) \<le> ep s p \<and>
        (unat (msg_epoch m) = ep s p \<longrightarrow> sent_in (mtype m) (is_owner (st_of s p)) (phase (st_of s p))))"

definition emitted_ok :: "braid_system \<Rightarrow> bool" where
  "emitted_ok s \<longleftrightarrow>
     (\<forall>p. unat ` es_epoch ` emitted s p =
        {e. 0 < e \<and> (e < ep s p \<or> e = ep s p \<and> \<not> is_owner (st_of s p) \<and> 2 \<le> phase (st_of s p))})"

definition in_lockstep :: "braid_system \<Rightarrow> bool" where
  "in_lockstep s \<longleftrightarrow> (\<exists>q. together s q \<or> ahead s q) \<and> wires_ok s \<and> emitted_ok s"

lemma in_lockstep_init: "in_lockstep (system_init R)"
proof -
  have "together (system_init R) Alice"
    by (simp add: together_def system_init_def init_sender_def init_receiver_def paired_def)
  moreover have "emitted_ok (system_init R)"
    by (auto simp: emitted_ok_def system_init_def init_sender_def init_receiver_def INITIAL_EPOCH_def
        split: party.splits)
  ultimately show ?thesis
    by (auto simp: in_lockstep_def wires_ok_def system_init_def)
qed

lemma lockstep_cases [consumes 1, case_names own encaps ahead behind]:
  assumes "in_lockstep s"
  obtains "together s p" | "together s (other p)" | "ahead s p" | "ahead s (other p)"
  using assms other_cases unfolding in_lockstep_def by metis

lemma wires_ok_receive:
  assumes "wires_ok s"
    and "(state_epoch (braid_phase b) = state_epoch (st_of s p) \<and> is_owner (braid_phase b) = is_owner (st_of s p) \<and>
            phase (st_of s p) \<le> phase (braid_phase b)) \<or> unat (state_epoch (braid_phase b)) = ep s p + 1"
  shows "wires_ok (after_receive p b out s)"
  unfolding wires_ok_def
proof (intro allI ballI)
  fix q m assume m: "m \<in> wire (after_receive p b out s) q"
  then have old: "unat (msg_epoch m) \<le> ep s q" "unat (msg_epoch m) = ep s q \<Longrightarrow>
      sent_in (mtype m) (is_owner (st_of s q)) (phase (st_of s q))"
    using assms(1) by (auto simp: wires_ok_def)
  show "unat (msg_epoch m) \<le> ep (after_receive p b out s) q \<and>
      (unat (msg_epoch m) = ep (after_receive p b out s) q \<longrightarrow>
       sent_in (mtype m) (is_owner (st_of (after_receive p b out s) q)) (phase (st_of (after_receive p b out s) q)))"
  proof (cases "q = p")
    case True
    show ?thesis using assms(2)
    proof
      assume a: "unat (state_epoch (braid_phase b)) = ep s p + 1"
      then have "unat (msg_epoch m) < unat (state_epoch (braid_phase b))" using old(1) True by simp
      then show ?thesis using True by (simp del: unat_inject)
    qed (use True old sent_in_mono in \<open>auto simp: fun_upd_def\<close>)
  qed (use old in auto)
qed

lemma in_lockstep_send:
  assumes "in_lockstep s" and "braid_send X rng (parties s p) = (b, Inr out)" and "0 < ep s p"
  shows "in_lockstep (after_send p b out s)"
proof -
  have snd: "state_send X rng (st_of s p) = Inr (braid_phase b, send_msg out, send_output_key out)"
    using assms(2) by (simp add: braid_send_Inr)
  note loc = state_send_local [OF snd] and mv = state_send_moves [OF snd]
  let ?s = "after_send p b out s"
  have ls: "\<exists>q. together ?s q \<or> ahead ?s q"
    using assms(1)
  proof (cases rule: lockstep_cases [where p = p])
    case own
    then have "together ?s p" using loc(1,2) mv by (auto simp: together_def paired_def)
    then show ?thesis by blast
  next
    case encaps
    then have "together ?s (other p)" using loc(1,2) mv by (auto simp: together_def paired_def)
    then show ?thesis by blast
  next
    case ahead
    then have "ahead ?s p" using loc(1,2) mv by (auto simp: ahead_def)
    then show ?thesis by blast
  next
    case behind
    then have "ahead ?s (other p)" using loc(1,2) mv by (auto simp: ahead_def)
    then show ?thesis by blast
  qed
  have w: "wires_ok ?s"
    using assms(1) loc(1-4) state_send_sent_in [OF snd]
    by (auto simp: in_lockstep_def wires_ok_def intro: sent_in_mono)
  have e: "emitted_ok ?s"
    using assms(1,3) loc(1,2) mv by (auto simp: in_lockstep_def emitted_ok_def image_Un)
  show ?thesis using ls w e by (simp add: in_lockstep_def)
qed

lemma paired_owner_moves:
  "paired ow en \<Longrightarrow> moves True ow ow' mt \<Longrightarrow> sent_in mt False en \<Longrightarrow> en \<le> 5 \<Longrightarrow> paired ow' en"
  by (auto simp: paired_def)

lemma paired_encaps_moves:
  "paired ow en \<Longrightarrow> moves False en en' mt \<Longrightarrow> sent_in mt True ow \<Longrightarrow> paired ow en'"
  by (auto simp: paired_def)

text \<open>What the wire invariant says of a message \<open>m\<close> that \<open>p\<close> may receive.\<close>

definition from_peer :: "braid_system \<Rightarrow> party \<Rightarrow> message \<Rightarrow> bool" where
  "from_peer s p m \<longleftrightarrow> unat (msg_epoch m) \<le> ep s (other p) \<and>
     (unat (msg_epoch m) = ep s (other p) \<longrightarrow>
        sent_in (mtype m) (is_owner (st_of s (other p))) (phase (st_of s (other p))))"

lemma from_peerD:
  assumes "from_peer s p m"
  shows "unat (msg_epoch m) \<le> ep s (other p)"
    and "unat (msg_epoch m) = ep s (other p) \<Longrightarrow>
           sent_in (mtype m) (is_owner (st_of s (other p))) (phase (st_of s (other p)))"
  using assms by (auto simp: from_peer_def)

lemma owner_receives:
  assumes "together s p"
    and rcv: "state_receive X (st_of s p) m = Inr (braid_phase b, recv_output_key out)"
    and m: "from_peer s p m" and suc: "unat (state_epoch (st_of s p) + 1) = ep s p + 1"
  shows "\<exists>q. together (after_receive p b out s) q \<or> ahead (after_receive p b out s) q"
proof -
  let ?s = "after_receive p b out s"
  from assms(1) have o: "ep s p = ep s (other p)" "is_owner (st_of s p)" "\<not> is_owner (st_of s (other p))"
    "paired (phase (st_of s p)) (phase (st_of s (other p)))"
    by (simp_all add: together_def)
  from state_receive_moves [OF rcv] show ?thesis
  proof (elim disjE conjE)
    assume "state_epoch (braid_phase b) = state_epoch (st_of s p)" "is_owner (braid_phase b) = is_owner (st_of s p)"
      "phase (braid_phase b) = phase (st_of s p)"
    then have "together ?s p" using o by (simp add: together_def)
    then show ?thesis by blast
  next
    assume a: "state_epoch (braid_phase b) = state_epoch (st_of s p)" "is_owner (braid_phase b) = is_owner (st_of s p)"
      "msg_epoch m = state_epoch (st_of s p)"
      "moves (is_owner (st_of s p)) (phase (st_of s p)) (phase (braid_phase b)) (mtype m)"
    then have "paired (phase (braid_phase b)) (phase (st_of s (other p)))"
      using paired_owner_moves [OF o(4)] m [THEN from_peerD(2)] o(1-3) phase_le [of "st_of s (other p)"] by simp
    then have "together ?s p" using a o by (simp add: together_def)
    then show ?thesis by blast
  next
    assume a: "state_epoch (braid_phase b) = state_epoch (st_of s p) + 1" "\<not> is_owner (braid_phase b)"
      "phase (braid_phase b) = 0" "msg_epoch m = state_epoch (st_of s p)" "mtype m = Ct2"
    then have "5 \<le> phase (st_of s (other p))" using m [THEN from_peerD(2)] o by simp
    then have "phase (st_of s (other p)) = 5" using phase_le [of "st_of s (other p)"] o by simp
    then have "ahead ?s p" using a o suc by (simp add: ahead_def)
    then show ?thesis by blast
  qed (use o in simp)
qed

lemma encapsulator_receives:
  assumes "together s (other p)"
    and rcv: "state_receive X (st_of s p) m = Inr (braid_phase b, recv_output_key out)"
    and m: "from_peer s p m" and suc: "unat (state_epoch (st_of s p) + 1) = ep s p + 1"
  shows "\<exists>q. together (after_receive p b out s) q \<or> ahead (after_receive p b out s) q"
proof -
  let ?s = "after_receive p b out s"
  from assms(1) have o: "ep s p = ep s (other p)" "\<not> is_owner (st_of s p)" "is_owner (st_of s (other p))"
    "paired (phase (st_of s (other p))) (phase (st_of s p))"
    by (simp_all add: together_def)
  from state_receive_moves [OF rcv] show ?thesis
  proof (elim disjE conjE)
    assume "state_epoch (braid_phase b) = state_epoch (st_of s p)" "is_owner (braid_phase b) = is_owner (st_of s p)"
      "phase (braid_phase b) = phase (st_of s p)"
    then have "together ?s (other p)" using o by (simp add: together_def)
    then show ?thesis by blast
  next
    assume a: "state_epoch (braid_phase b) = state_epoch (st_of s p)" "is_owner (braid_phase b) = is_owner (st_of s p)"
      "msg_epoch m = state_epoch (st_of s p)"
      "moves (is_owner (st_of s p)) (phase (st_of s p)) (phase (braid_phase b)) (mtype m)"
    then have "paired (phase (st_of s (other p))) (phase (braid_phase b))"
      using paired_encaps_moves [OF o(4)] m [THEN from_peerD(2)] o(1-3) by simp
    then have "together ?s (other p)" using a o by (simp add: together_def)
    then show ?thesis by blast
  next
    assume "msg_epoch m = state_epoch (st_of s p) + 1"
    then show ?thesis using m [THEN from_peerD(1)] o(1) suc by simp
  qed (use o in simp)
qed

lemma behind_receives:
  assumes "ahead s (other p)"
    and rcv: "state_receive X (st_of s p) m = Inr (braid_phase b, recv_output_key out)"
    and m: "from_peer s p m" and suc: "unat (state_epoch (st_of s p) + 1) = ep s p + 1"
  shows "\<exists>q. together (after_receive p b out s) q \<or> ahead (after_receive p b out s) q"
proof -
  let ?s = "after_receive p b out s"
  from assms(1) have o: "ep s (other p) = ep s p + 1" "\<not> is_owner (st_of s p)" "phase (st_of s p) = 5"
    "\<not> is_owner (st_of s (other p))" "phase (st_of s (other p)) = 0"
    by (simp_all add: ahead_def)
  from state_receive_moves [OF rcv] show ?thesis
  proof (elim disjE conjE)
    assume "state_epoch (braid_phase b) = state_epoch (st_of s p)" "is_owner (braid_phase b) = is_owner (st_of s p)"
      "phase (braid_phase b) = phase (st_of s p)"
    then have "ahead ?s (other p)" using o by (simp add: ahead_def)
    then show ?thesis by blast
  next
    assume "state_epoch (braid_phase b) = state_epoch (st_of s p) + 1" "is_owner (braid_phase b)"
      "phase (braid_phase b) = 0"
    then have "together ?s p" using o suc by (simp add: together_def paired_def)
    then show ?thesis by blast
  qed (use o in simp_all)
qed

lemma ahead_receives:
  assumes "ahead s p"
    and rcv: "state_receive X (st_of s p) m = Inr (braid_phase b, recv_output_key out)"
    and m: "from_peer s p m" and suc: "unat (state_epoch (st_of s p) + 1) = ep s p + 1"
  shows "\<exists>q. together (after_receive p b out s) q \<or> ahead (after_receive p b out s) q"
proof -
  have "ahead (after_receive p b out s) p"
    using assms(1) state_receive_moves [OF rcv] m [THEN from_peerD(1)] suc by (auto simp: ahead_def)
  then show ?thesis by blast
qed

lemma emitted_ok_receive:
  assumes "emitted_ok s" and "0 < ep s p"
    and rcv: "state_receive X (st_of s p) m = Inr (braid_phase b, recv_output_key out)"
    and suc: "unat (state_epoch (st_of s p) + 1) = ep s p + 1"
  shows "emitted_ok (after_receive p b out s)"
  unfolding emitted_ok_def
proof
  let ?s = "after_receive p b out s"
  fix q
  have old: "unat ` es_epoch ` emitted s q =
      {e. 0 < e \<and> (e < ep s q \<or> e = ep s q \<and> \<not> is_owner (st_of s q) \<and> 2 \<le> phase (st_of s q))}"
    using assms(1) by (simp add: emitted_ok_def)
  show "unat ` es_epoch ` emitted ?s q =
      {e. 0 < e \<and> (e < ep ?s q \<or> e = ep ?s q \<and> \<not> is_owner (st_of ?s q) \<and> 2 \<le> phase (st_of ?s q))}"
  proof (cases "q = p")
    case True
    from state_receive_moves [OF rcv] show ?thesis
    proof (elim disjE conjE)
      assume "state_epoch (braid_phase b) = state_epoch (st_of s p)" "is_owner (braid_phase b) = is_owner (st_of s p)"
        "recv_output_key out = None" "phase (braid_phase b) = phase (st_of s p)"
      then show ?thesis using old True by simp
    next
      assume "state_epoch (braid_phase b) = state_epoch (st_of s p)" "is_owner (braid_phase b) = is_owner (st_of s p)"
        "recv_output_key out = None" "moves (is_owner (st_of s p)) (phase (st_of s p)) (phase (braid_phase b)) (mtype m)"
      moreover from this have "\<not> is_owner (st_of s p) \<Longrightarrow> 2 \<le> phase (braid_phase b) \<longleftrightarrow> 2 \<le> phase (st_of s p)"
        by auto
      ultimately show ?thesis using old True by (cases "is_owner (st_of s p)") simp_all
    next
      assume "state_epoch (braid_phase b) = state_epoch (st_of s p) + 1" "\<not> is_owner (braid_phase b)"
        "is_owner (st_of s p)" "phase (braid_phase b) = 0" "recv_output_key out \<noteq> None"
      moreover from this state_receive_local [OF rcv] obtain es where "recv_output_key out = Some es" "es_epoch es = state_epoch (st_of s p)"
        by (metis add_cancel_left_right option.exhaust zero_neq_one)
      ultimately show ?thesis using old True suc assms(2)
        by (auto simp: image_Un less_Suc_eq simp del: unat_inject)
    next
      assume "state_epoch (braid_phase b) = state_epoch (st_of s p) + 1" "is_owner (braid_phase b)"
        "\<not> is_owner (st_of s p)" "phase (st_of s p) = 5" "recv_output_key out = None"
      then show ?thesis using old True suc by (auto simp: less_Suc_eq simp del: unat_inject)
    qed
  qed (use old in simp)
qed

lemma in_lockstep_receive:
  assumes "in_lockstep s" and "m \<in> wire s (other p)"
    and "braid_receive X (parties s p) m = (b, Inr out)" and "0 < ep s p" and "ep s p + 1 < 2 ^ 64"
  shows "in_lockstep (after_receive p b out s)"
proof -
  have rcv: "state_receive X (st_of s p) m = Inr (braid_phase b, recv_output_key out)"
    using assms(3) by (simp add: braid_receive_Inr)
  have suc: "unat (state_epoch (st_of s p) + 1) = ep s p + 1" using assms(5) by (simp add: unat_add_one)
  have m: "from_peer s p m"
    using assms(1,2) by (auto simp: in_lockstep_def wires_ok_def from_peer_def)
  have "\<exists>q. together (after_receive p b out s) q \<or> ahead (after_receive p b out s) q"
    using assms(1)
    by (cases rule: lockstep_cases [where p = p])
      (rule owner_receives [OF _ rcv m suc] encapsulator_receives [OF _ rcv m suc]
        ahead_receives [OF _ rcv m suc] behind_receives [OF _ rcv m suc], assumption)+
  moreover have "wires_ok (after_receive p b out s)"
    using assms(1) state_receive_local [OF rcv] suc
    by (intro wires_ok_receive) (auto simp: in_lockstep_def)
  moreover have "emitted_ok (after_receive p b out s)"
    using assms(1,4) rcv suc by (intro emitted_ok_receive) (auto simp: in_lockstep_def)
  ultimately show ?thesis by (simp add: in_lockstep_def)
qed

lemma reach_in_lockstep:
  "braid_reach R n s \<Longrightarrow> run_ok R \<Longrightarrow> n < 2 ^ 64 - 2 \<Longrightarrow> in_lockstep s"
proof (induction rule: braid_reach.induct)
  case reach_init
  show ?case by (rule in_lockstep_init)
next
  case (reach_send n s p b out)
  then have "system_ok R n s" using reach_system_ok by simp
  then show ?case using reach_send in_lockstep_send system_okD(2) by force
next
  case (reach_receive n s m p b out)
  then have "system_ok R n s" using reach_system_ok by simp
  then have "0 < ep s p" "ep s p + 1 < 2 ^ 64"
    using system_okD(2,3) [of R n s p] reach_receive.prems by simp_all
  then show ?case using reach_receive in_lockstep_receive by simp
qed

end
