(* ===== verification/Spqr_Epochs.thy ===== *)
theory Spqr_Epochs
  imports Spqr_Keys Braid_System
begin

text \<open>
  How SPQR's epochs follow its braid's, whatever messages arrive. \<open>spqr_shape\<close>: the latest
  incorporated epoch is the braid's current epoch once this party has encapsulated in it,
  and the one before otherwise; the chains of the recent epochs are there, with the send
  chains a message may still be keyed under.
\<close>

abbreviation braid_st :: "spqr_state \<Rightarrow> state" where
  "braid_st s \<equiv> braid_phase (spqr_braid s)"

definition has_secret :: "state \<Rightarrow> bool" where
  "has_secret st \<longleftrightarrow> \<not> is_owner st \<and> 2 \<le> phase st"

definition latest_epoch :: "state \<Rightarrow> nat" where
  "latest_epoch st = (if has_secret st then unat (state_epoch st) else unat (state_epoch st) - 1)"

definition chains_present :: "(u64, epoch_chains) btree \<Rightarrow> nat \<Rightarrow> nat \<Rightarrow> bool" where
  "chains_present m ep_now latest \<longleftrightarrow>
     (\<forall>e. ep_now \<le> unat e + 2 \<and> unat e \<le> latest \<longrightarrow>
        (\<exists>c. map_of m e = Some c \<and> ec_recv c \<noteq> None \<and> (ep_now \<le> unat e + 1 \<longrightarrow> ec_send c \<noteq> None)))"

definition spqr_shape :: "spqr_state \<Rightarrow> bool" where
  "spqr_shape s \<longleftrightarrow>
     state_epoch (braid_st s) \<noteq> 0 \<and> unat (spqr_epoch s) = latest_epoch (braid_st s) \<and>
     chains_present (kdfchains s) (unat (state_epoch (braid_st s))) (unat (spqr_epoch s))"

lemma spqr_shapeD:
  assumes "spqr_shape s"
  shows "state_epoch (braid_st s) \<noteq> 0" "0 < unat (state_epoch (braid_st s))"
    "unat (spqr_epoch s) = latest_epoch (braid_st s)"
    "chains_present (kdfchains s) (unat (state_epoch (braid_st s))) (unat (spqr_epoch s))"
  using assms by (auto simp: spqr_shape_def unat_gt_0)

lemma latest_epoch_le: "unat (state_epoch st) \<le> latest_epoch st + 1" "latest_epoch st \<le> unat (state_epoch st)"
  by (auto simp: latest_epoch_def)

lemma spqr_shape_init: "spqr_shape (spqr_init X ss d)"
  by (auto simp: spqr_shape_def spqr_init_def Let_def split_beta init_sender_def init_receiver_def
      INITIAL_EPOCH_def latest_epoch_def has_secret_def chains_present_def spqr_assign_def unat_gt_0
      split: direction.splits)

section \<open>Adding an epoch\<close>

lemma word_eq_unat_Suc: "unat (a :: u64) = Suc (unat b) \<Longrightarrow> b + 1 = a"
proof -
  assume *: "unat a = Suc (unat b)"
  then have "unat (b + 1) = Suc (unat b)"
    using u64_bound [of a] by (simp add: unat_add_one)
  with * show "b + 1 = a" by (metis unat_inject)
qed

lemma add_epoch_ok:
  assumes "unat e = Suc (unat (spqr_epoch s))"
  shows "\<exists>s'. add_epoch X e k s = (s', Inr ()) \<and> spqr_epoch s' = e \<and> spqr_braid s' = spqr_braid s \<and>
           direction s' = direction s \<and> mkskipped s' = mkskipped s \<and>
           spqr_rk s' = scka_root_key (kdf_scka_rk X (spqr_rk s) k) \<and>
           kdfchains s' = btree_insert e
             (let ch = kdf_scka_rk X (spqr_rk s) k;
                  (cs, cr) = spqr_assign (direction s) (scka_chain_key_0 ch) (scka_chain_key_1 ch)
              in \<lparr>ec_send = Some (scka_new cs), ec_recv = Some (scka_new cr)\<rparr>) (kdfchains s)"
  using word_eq_unat_Suc [OF assms] by (simp add: add_epoch_def Let_def split_beta)

lemma chains_present_insert:
  assumes "chains_present m E (unat e - 1)" and "0 < unat e" and "ec_recv c \<noteq> None" "ec_send c \<noteq> None"
  shows "chains_present (btree_insert e c m) E (unat e)"
  unfolding chains_present_def
proof (intro allI impI, elim conjE)
  fix e' :: u64
  assume h: "E \<le> unat e' + 2" "unat e' \<le> unat e"
  show "\<exists>d. map_of (btree_insert e c m) e' = Some d \<and> ec_recv d \<noteq> None \<and>
          (E \<le> unat e' + 1 \<longrightarrow> ec_send d \<noteq> None)"
  proof (cases "e' = e")
    case True
    then show ?thesis using assms(3,4) by simp
  next
    case False
    then have "unat e' \<noteq> unat e" by simp
    with h(2) have "unat e' \<le> unat e - 1" by linarith
    then show ?thesis using assms(1) h(1) False by (simp add: chains_present_def)
  qed
qed

lemma chains_present_next:
  "chains_present m E l \<Longrightarrow> chains_present m (Suc E) l"
  unfolding chains_present_def by (metis Suc_leD add_Suc)


section \<open>Deriving a key keeps the chains in place\<close>

definition same_shape :: "epoch_chains option \<Rightarrow> epoch_chains option \<Rightarrow> bool" where
  "same_shape a b \<longleftrightarrow> rel_option (\<lambda>c d. ec_send c = ec_send d \<and> (ec_recv c = None \<longleftrightarrow> ec_recv d = None)) a b"

definition only_recv_moved :: "spqr_state \<Rightarrow> spqr_state \<Rightarrow> bool" where
  "only_recv_moved s s' \<longleftrightarrow>
     spqr_braid s' = spqr_braid s \<and> spqr_rk s' = spqr_rk s \<and> spqr_epoch s' = spqr_epoch s \<and>
     direction s' = direction s \<and> (\<forall>e. same_shape (map_of (kdfchains s) e) (map_of (kdfchains s') e))"

lemma same_shape_refl [simp]: "same_shape a a"
  by (simp add: same_shape_def option.rel_refl)

lemma same_shape_trans: "same_shape a b \<Longrightarrow> same_shape b c \<Longrightarrow> same_shape a c"
  by (cases a; cases b; cases c) (auto simp: same_shape_def)

lemma same_shape_recv [simp]: "ec_recv c \<noteq> None \<Longrightarrow> same_shape (Some c) (Some (c\<lparr>ec_recv := Some d\<rparr>))"
  by (simp add: same_shape_def)

lemma only_recv_moved_refl [simp]: "only_recv_moved s s"
  by (simp add: only_recv_moved_def)

lemma only_recv_moved_trans: "only_recv_moved s t \<Longrightarrow> only_recv_moved t u \<Longrightarrow> only_recv_moved s u"
  using same_shape_trans [of "map_of (kdfchains s) e" "map_of (kdfchains t) e" "map_of (kdfchains u) e" for e]
  by (simp add: only_recv_moved_def)

lemma moved_origin:
  assumes "only_recv_moved s s'" and "map_of (kdfchains s') e = Some c"
  shows "\<exists>c0. map_of (kdfchains s) e = Some c0 \<and> ec_send c0 = ec_send c"
proof -
  have "same_shape (map_of (kdfchains s) e) (Some c)"
    using assms unfolding only_recv_moved_def by metis
  then show ?thesis by (cases "map_of (kdfchains s) e") (auto simp: same_shape_def)
qed

lemma try_skipped_moved: "only_recv_moved s (fst (try_skipped e n s))"
  by (auto simp: try_skipped_def only_recv_moved_def Let_def split: option.splits)

lemma skip_message_keys_moved: "only_recv_moved s (fst (skip_message_keys X e u s))"
  by (auto simp: skip_message_keys_def only_recv_moved_def Let_def split_beta split: option.splits)

lemma advance_recv_moved: "only_recv_moved s (fst (advance_recv X e n s))"
  by (auto simp: advance_recv_def only_recv_moved_def Let_def split_beta split: option.splits)

lemma derive_receive_key_moved: "only_recv_moved s (fst (derive_receive_key X e n s))"
proof -
  let ?t = "fst (try_skipped e n s)"
  let ?k = "fst (skip_message_keys X e (saturating_sub n 1) ?t)"
  have "fst (derive_receive_key X e n s) \<in> {?t, ?k, fst (advance_recv X e n ?k)}"
    by (auto simp: derive_receive_key_def Let_def split: prod.splits option.splits sum.splits)
  then show ?thesis
    using try_skipped_moved [of s e n] skip_message_keys_moved [of ?t X e "saturating_sub n 1"]
      advance_recv_moved [of ?k X e n]
    by (auto intro: only_recv_moved_trans)
qed

lemma chains_present_moved:
  assumes "chains_present (kdfchains s) E l" and "only_recv_moved s s'"
  shows "chains_present (kdfchains s') E l"
  unfolding chains_present_def
proof (intro allI impI)
  fix e :: u64
  assume "E \<le> unat e + 2 \<and> unat e \<le> l"
  then obtain c where c: "map_of (kdfchains s) e = Some c" "ec_recv c \<noteq> None"
    "E \<le> unat e + 1 \<longrightarrow> ec_send c \<noteq> None"
    using assms(1) unfolding chains_present_def by blast
  have "same_shape (Some c) (map_of (kdfchains s') e)"
    using assms(2) c(1) unfolding only_recv_moved_def by metis
  then show "\<exists>c. map_of (kdfchains s') e = Some c \<and> ec_recv c \<noteq> None \<and>
      (E \<le> unat e + 1 \<longrightarrow> ec_send c \<noteq> None)"
    using c by (cases "map_of (kdfchains s') e") (auto simp: same_shape_def)
qed


section \<open>Sending keeps the shape and never fails on its own\<close>

lemma chains_presentD:
  assumes "chains_present m E l" and "E \<le> unat e + 2" and "unat e \<le> l"
  shows "\<exists>c. map_of m e = Some c \<and> ec_recv c \<noteq> None \<and> (E \<le> unat e + 1 \<longrightarrow> ec_send c \<noteq> None)"
  using assms unfolding chains_present_def by blast

lemma clear_old_epochs_fields [simp]:
  "spqr_braid (clear_old_epochs se s) = spqr_braid s" "spqr_rk (clear_old_epochs se s) = spqr_rk s"
  "spqr_epoch (clear_old_epochs se s) = spqr_epoch s" "direction (clear_old_epochs se s) = direction s"
  by (simp_all add: clear_old_epochs_def split: option.splits)

lemma drop_previous_send_fields [simp]:
  "spqr_braid (drop_previous_send se s) = spqr_braid s" "spqr_rk (drop_previous_send se s) = spqr_rk s"
  "spqr_epoch (drop_previous_send se s) = spqr_epoch s" "direction (drop_previous_send se s) = direction s"
  "mkskipped (drop_previous_send se s) = mkskipped s"
  by (simp_all add: drop_previous_send_def split: option.splits)

lemma unat_checked_sub: "checked_sub a b = Some c \<Longrightarrow> unat c + unat b = unat a"
  by (auto simp: checked_sub_Some word_le_nat_alt unat_sub)

lemma chains_present_clear:
  assumes "chains_present (kdfchains s) E l" and E: "E = unat se + 1"
  shows "chains_present (kdfchains (clear_old_epochs se s)) E l"
  unfolding chains_present_def
proof (intro allI impI, elim conjE)
  fix e :: u64
  assume e: "E \<le> unat e + 2" "unat e \<le> l"
  have "unat old + 2 = unat se" if "checked_sub se 2 = Some old" for old
    using unat_checked_sub [OF that] by simp
  then have "checked_sub se 2 \<noteq> Some e" using e(1) E by force
  then have "map_of (kdfchains (clear_old_epochs se s)) e = map_of (kdfchains s) e"
    by (auto simp: clear_old_epochs_def split: option.splits)
  then show "\<exists>c. map_of (kdfchains (clear_old_epochs se s)) e = Some c \<and> ec_recv c \<noteq> None \<and>
      (E \<le> unat e + 1 \<longrightarrow> ec_send c \<noteq> None)"
    using chains_presentD [OF assms(1) e] by simp
qed

lemma map_of_drop_previous_send:
  "map_of (kdfchains (drop_previous_send se s)) e =
     (if checked_sub se 1 = Some e then map_option (ec_send_update (\<lambda>_. None)) (map_of (kdfchains s) e)
      else map_of (kdfchains s) e)"
  by (auto simp: drop_previous_send_def split: option.splits)

lemma chains_present_drop:
  assumes "chains_present (kdfchains s) E l" and E: "E = unat se + 1"
  shows "chains_present (kdfchains (drop_previous_send se s)) E l"
  unfolding chains_present_def
proof (intro allI impI, elim conjE)
  fix e :: u64
  assume e: "E \<le> unat e + 2" "unat e \<le> l"
  from chains_presentD [OF assms(1) e] obtain c where
    c: "map_of (kdfchains s) e = Some c" "ec_recv c \<noteq> None" "E \<le> unat e + 1 \<longrightarrow> ec_send c \<noteq> None" by blast
  have "E = unat e + 2" if "checked_sub se 1 = Some e"
    using unat_checked_sub [OF that] E by simp
  then show "\<exists>c. map_of (kdfchains (drop_previous_send se s)) e = Some c \<and> ec_recv c \<noteq> None \<and>
      (E \<le> unat e + 1 \<longrightarrow> ec_send c \<noteq> None)"
    using c by (auto simp: map_of_drop_previous_send)
qed

text \<open>The state of a send once the epoch secret, if any, is in.\<close>

definition incorporated :: "ext \<Rightarrow> braid_state \<Rightarrow> scka_send \<Rightarrow> spqr_state \<Rightarrow> spqr_state" where
  "incorporated X b sent s =
     (case send_output_key sent of
        None \<Rightarrow> s\<lparr>spqr_braid := b\<rparr>
      | Some es \<Rightarrow> clear_old_epochs (sending_epoch sent) (fst (add_epoch X (es_epoch es) (es_secret es) (s\<lparr>spqr_braid := b\<rparr>))))"

lemma incorporated_shape:
  assumes "spqr_shape s" and "braid_send X rng (spqr_braid s) = (b, Inr sent)"
  shows "spqr_shape (incorporated X b sent s)" and "spqr_braid (incorporated X b sent s) = b"
    and "direction (incorporated X b sent s) = direction s"
    and "\<And>es. send_output_key sent = Some es \<Longrightarrow> snd (add_epoch X (es_epoch es) (es_secret es) (s\<lparr>spqr_braid := b\<rparr>)) = Inr ()"
    and "\<And>es. send_output_key sent = Some es \<Longrightarrow> unat (es_epoch es) = Suc (unat (spqr_epoch s))"
    and "unat (sending_epoch sent) + 1 = unat (state_epoch (braid_phase b))"
proof -
  have snd: "state_send X rng (braid_st s) = Inr (braid_phase b, send_msg sent, send_output_key sent)"
    and se: "sending_epoch sent = saturating_sub (state_epoch (braid_phase b)) 1"
    using assms(2) by (simp_all add: braid_send_Inr)
  note sh = spqr_shapeD [OF assms(1)]
  have ep: "state_epoch (braid_phase b) = state_epoch (braid_st s)" and ow: "is_owner (braid_phase b) = is_owner (braid_st s)"
    using state_send_local(1,2) [OF snd] by simp_all
  show seE: "unat (sending_epoch sent) + 1 = unat (state_epoch (braid_phase b))"
    using se sh(2) ep by (simp add: unat_saturating_sub)
  have es: "es_epoch es = state_epoch (braid_st s) \<and> \<not> is_owner (braid_st s) \<and> phase (braid_st s) = 1 \<and> phase (braid_phase b) = 2"
    if "send_output_key sent = Some es" for es
    using state_send_local(6) [OF snd that] .
  show suc: "unat (es_epoch es) = Suc (unat (spqr_epoch s))" if "send_output_key sent = Some es" for es
    using es [OF that] sh(2,3) by (simp add: latest_epoch_def has_secret_def)
  show "snd (add_epoch X (es_epoch es) (es_secret es) (s\<lparr>spqr_braid := b\<rparr>)) = Inr ()"
    if "send_output_key sent = Some es" for es
    using add_epoch_ok [of "es_epoch es" "s\<lparr>spqr_braid := b\<rparr>" X "es_secret es"] suc [OF that] by auto
  show "spqr_shape (incorporated X b sent s)" "spqr_braid (incorporated X b sent s) = b"
    "direction (incorporated X b sent s) = direction s"
  proof -
    have "spqr_shape (incorporated X b sent s) \<and> spqr_braid (incorporated X b sent s) = b \<and>
      direction (incorporated X b sent s) = direction s"
    proof (cases "send_output_key sent")
      case None
      have "has_secret (braid_phase b) = has_secret (braid_st s)"
        using state_send_moves [OF snd] None ow by (auto simp: has_secret_def)
      then show ?thesis
        using sh ep None by (simp add: incorporated_def spqr_shape_def latest_epoch_def)
    next
      case (Some es)
      let ?s = "s\<lparr>spqr_braid := b\<rparr>"
      let ?a = "fst (add_epoch X (es_epoch es) (es_secret es) ?s)"
      obtain c where a: "kdfchains ?a = btree_insert (es_epoch es) c (kdfchains s)" "ec_recv c \<noteq> None" "ec_send c \<noteq> None"
        "spqr_epoch ?a = es_epoch es" "spqr_braid ?a = b" "direction ?a = direction s"
        using add_epoch_ok [of "es_epoch es" ?s X "es_secret es"] suc [OF Some]
        by (auto simp: Let_def split_beta)
      have "chains_present (kdfchains s) (unat (state_epoch (braid_phase b))) (unat (es_epoch es) - 1)"
        using sh(4) ep suc [OF Some] by simp
      then have "chains_present (kdfchains ?a) (unat (state_epoch (braid_phase b))) (unat (es_epoch es))"
        unfolding a(1) using suc [OF Some] a(2,3) by (intro chains_present_insert) simp_all
      then have "chains_present (kdfchains (clear_old_epochs (sending_epoch sent) ?a))
          (unat (state_epoch (braid_phase b))) (unat (es_epoch es))"
        by (rule chains_present_clear) (use seE in simp)
      moreover have "has_secret (braid_phase b)" using es [OF Some] ow by (simp add: has_secret_def)
      ultimately show ?thesis
        using Some a es [OF Some] sh(1) ep by (simp add: incorporated_def spqr_shape_def latest_epoch_def)
    qed
    then show "spqr_shape (incorporated X b sent s)" "spqr_braid (incorporated X b sent s) = b"
      "direction (incorporated X b sent s) = direction s" by simp_all
  qed
qed


text \<open>A send as its parts: incorporate, forget the previous send chain, advance the current one.\<close>

lemma ratchet_send_key_view:
  assumes "spqr_shape s" and "braid_send X rng (spqr_braid s) = (b, Inr sent)"
  shows "\<exists>c ch. map_of (kdfchains (incorporated X b sent s)) (sending_epoch sent) = Some c \<and>
     ec_send c = Some ch \<and>
     ratchet_send_key X rng s =
       ((drop_previous_send (sending_epoch sent) (incorporated X b sent s))
          \<lparr>kdfchains := btree_insert (sending_epoch sent) (c\<lparr>ec_send := Some (fst (scka_advance X ch))\<rparr>)
             (kdfchains (drop_previous_send (sending_epoch sent) (incorporated X b sent s)))\<rparr>,
        Inr (send_msg sent, fst (snd (scka_advance X ch)), snd (snd (scka_advance X ch))))"
proof -
  let ?se = "sending_epoch sent" and ?i = "incorporated X b sent s"
  note inc = incorporated_shape [OF assms]
  note sh = spqr_shapeD [OF inc(1)]
  have "unat ?se \<le> unat (spqr_epoch ?i)" using sh(3) inc(2,6) latest_epoch_le(1) [of "braid_phase b"] by simp
  then obtain c where c: "map_of (kdfchains ?i) ?se = Some c" "ec_send c \<noteq> None"
    using chains_presentD [OF sh(4), of ?se] inc(2,6) by auto
  then obtain ch where ch: "ec_send c = Some ch" by blast
  have "checked_sub ?se 1 \<noteq> Some ?se" using unat_checked_sub [of ?se 1 ?se] by auto
  then have d: "map_of (kdfchains (drop_previous_send ?se ?i)) ?se = Some c"
    using c(1) by (simp add: map_of_drop_previous_send)
  have "(case send_output_key sent of
           None \<Rightarrow> (s\<lparr>spqr_braid := b\<rparr>, Inr ())
         | Some es \<Rightarrow>
             (case add_epoch X (es_epoch es) (es_secret es) (s\<lparr>spqr_braid := b\<rparr>) of
                (s, Inl e) \<Rightarrow> (s, Inl e)
              | (s, Inr _) \<Rightarrow> (clear_old_epochs ?se s, Inr ()))) = (?i, Inr () :: unit res)"
    using inc(4) by (auto simp: incorporated_def split: option.splits prod.splits sum.splits)
  then have "ratchet_send_key X rng s =
      (case take_send_key X ?se (drop_previous_send ?se ?i) of
         (s, Inl e) \<Rightarrow> (s, Inl e)
       | (s, Inr (pq_n, pq_mk)) \<Rightarrow> (s, Inr (send_msg sent, pq_n, pq_mk)))"
    using assms(2) by (simp add: ratchet_send_key_def Let_def)
  then show ?thesis
    using c(1) ch d by (auto simp: take_send_key_def Let_def split_beta)
qed

lemma ratchet_send_key_shape:
  assumes "spqr_shape s"
  shows "spqr_shape (fst (ratchet_send_key X rng s))"
    and "is_ok (snd (ratchet_send_key X rng s)) \<longleftrightarrow> is_ok (snd (braid_send X rng (spqr_braid s)))"
    and "spqr_braid (fst (ratchet_send_key X rng s)) = fst (braid_send X rng (spqr_braid s))"
proof -
  have "spqr_shape (fst (ratchet_send_key X rng s)) \<and>
    (is_ok (snd (ratchet_send_key X rng s)) \<longleftrightarrow> is_ok (snd (braid_send X rng (spqr_braid s)))) \<and>
    spqr_braid (fst (ratchet_send_key X rng s)) = fst (braid_send X rng (spqr_braid s))"
  proof (cases "snd (braid_send X rng (spqr_braid s))")
    case (Inl e)
    then have "braid_send X rng (spqr_braid s) = (spqr_braid s, Inl e)"
      using braid_send_error [OF Inl] by (metis prod.collapse)
    then show ?thesis using assms by (simp add: ratchet_send_key_def)
  next
    case (Inr sent)
    then obtain b where b: "braid_send X rng (spqr_braid s) = (b, Inr sent)" by (metis prod.collapse)
    note inc = incorporated_shape [OF assms b]
    let ?i = "incorporated X b sent s" and ?se = "sending_epoch sent"
    obtain c ch where v: "map_of (kdfchains ?i) ?se = Some c" "ec_send c = Some ch"
      "ratchet_send_key X rng s =
       ((drop_previous_send ?se ?i) \<lparr>kdfchains := btree_insert ?se (c\<lparr>ec_send := Some (fst (scka_advance X ch))\<rparr>)
             (kdfchains (drop_previous_send ?se ?i))\<rparr>,
        Inr (send_msg sent, fst (snd (scka_advance X ch)), snd (snd (scka_advance X ch))))"
      using ratchet_send_key_view [OF assms b] by blast
    have cp: "chains_present (kdfchains ?i) (unat (state_epoch (braid_phase b))) (unat (spqr_epoch ?i))"
      using spqr_shapeD(4) [OF inc(1)] inc(2) by simp
    have "chains_present (kdfchains (drop_previous_send ?se ?i)) (unat (state_epoch (braid_phase b))) (unat (spqr_epoch ?i))"
      by (rule chains_present_drop [OF cp inc(6) [symmetric]])
    moreover have "ec_recv c \<noteq> None"
      using chains_presentD [OF cp, of ?se] v(1) inc(6) spqr_shapeD(3) [OF inc(1)] inc(2) latest_epoch_le(1) [of "braid_phase b"]
      by auto
    ultimately have "chains_present (kdfchains (fst (ratchet_send_key X rng s)))
        (unat (state_epoch (braid_phase b))) (unat (spqr_epoch ?i))"
      unfolding v(3) by (auto simp: chains_present_def)
    then show ?thesis
      using v(3) b inc(2) spqr_shapeD [OF inc(1)] by (simp add: spqr_shape_def)
  qed
  then show "spqr_shape (fst (ratchet_send_key X rng s))"
    "is_ok (snd (ratchet_send_key X rng s)) \<longleftrightarrow> is_ok (snd (braid_send X rng (spqr_braid s)))"
    "spqr_braid (fst (ratchet_send_key X rng s)) = fst (braid_send X rng (spqr_braid s))" by simp_all
qed

section \<open>Receiving keeps the shape\<close>

text \<open>The state of a receive once the epoch secret, if any, is in.\<close>

definition absorbed :: "ext \<Rightarrow> braid_state \<Rightarrow> scka_receive \<Rightarrow> spqr_state \<Rightarrow> spqr_state" where
  "absorbed X b rcv s =
     (case recv_output_key rcv of
        None \<Rightarrow> s\<lparr>spqr_braid := b\<rparr>
      | Some es \<Rightarrow> fst (add_epoch X (es_epoch es) (es_secret es) (s\<lparr>spqr_braid := b\<rparr>)))"


lemma absorbed_shape:
  assumes "spqr_shape s" and "braid_receive X (spqr_braid s) m = (b, Inr rcv)"
    and lim: "unat (state_epoch (braid_st s)) + 1 < 2 ^ 64"
  shows "spqr_shape (absorbed X b rcv s)" and "spqr_braid (absorbed X b rcv s) = b"
    and "direction (absorbed X b rcv s) = direction s"
    and "\<And>es. recv_output_key rcv = Some es \<Longrightarrow> snd (add_epoch X (es_epoch es) (es_secret es) (s\<lparr>spqr_braid := b\<rparr>)) = Inr ()"
    and "\<And>es. recv_output_key rcv = Some es \<Longrightarrow> unat (es_epoch es) = Suc (unat (spqr_epoch s))"
proof -
  have rcv: "state_receive X (braid_st s) m = Inr (braid_phase b, recv_output_key rcv)"
    using assms(2) by (simp add: braid_receive_Inr)
  note sh = spqr_shapeD [OF assms(1)]
  note moves = state_receive_moves [OF rcv] and local = state_receive_local [OF rcv]
  have suc: "unat (es_epoch es) = Suc (unat (spqr_epoch s))" if "recv_output_key rcv = Some es" for es
    using local that sh(2,3) by (auto simp: latest_epoch_def has_secret_def)
  then show "\<And>es. recv_output_key rcv = Some es \<Longrightarrow> unat (es_epoch es) = Suc (unat (spqr_epoch s))" .
  show "\<And>es. recv_output_key rcv = Some es \<Longrightarrow> snd (add_epoch X (es_epoch es) (es_secret es) (s\<lparr>spqr_braid := b\<rparr>)) = Inr ()"
    using add_epoch_ok [of "es_epoch es" "s\<lparr>spqr_braid := b\<rparr>" X "es_secret es" for es] suc by force
  have "spqr_shape (absorbed X b rcv s) \<and> spqr_braid (absorbed X b rcv s) = b \<and> direction (absorbed X b rcv s) = direction s"
  proof (cases "recv_output_key rcv")
    case None
    have "latest_epoch (braid_phase b) = latest_epoch (braid_st s) \<and> state_epoch (braid_phase b) \<noteq> 0 \<and>
        (state_epoch (braid_phase b) = state_epoch (braid_st s) \<or>
         unat (state_epoch (braid_phase b)) = Suc (unat (state_epoch (braid_st s))))"
      using moves None sh(1,2) lim
      by (elim disjE conjE; cases "is_owner (braid_st s)")
        (auto simp: latest_epoch_def has_secret_def unat_add_one simp flip: unat_gt_0)
    then show ?thesis
      using sh None chains_present_next by (auto simp: absorbed_def spqr_shape_def)
  next
    case (Some es)
    let ?s = "s\<lparr>spqr_braid := b\<rparr>"
    let ?a = "fst (add_epoch X (es_epoch es) (es_secret es) ?s)"
    have b: "state_epoch (braid_phase b) = state_epoch (braid_st s) + 1" "\<not> is_owner (braid_phase b)"
      "phase (braid_phase b) = 0" "es_epoch es = state_epoch (braid_st s)"
      using local Some by auto
    have E: "unat (state_epoch (braid_phase b)) = Suc (unat (es_epoch es))"
      using b(1,4) lim by (simp add: unat_add_one)
    obtain c where a: "kdfchains ?a = btree_insert (es_epoch es) c (kdfchains s)" "ec_recv c \<noteq> None" "ec_send c \<noteq> None"
      "spqr_epoch ?a = es_epoch es" "spqr_braid ?a = b" "direction ?a = direction s"
      using add_epoch_ok [of "es_epoch es" ?s X "es_secret es"] suc [OF Some]
      by (auto simp: Let_def split_beta)
    have "chains_present (kdfchains s) (unat (state_epoch (braid_phase b))) (unat (es_epoch es) - 1)"
      using chains_present_next [OF sh(4)] E suc [OF Some] b(4) by simp
    then have "chains_present (kdfchains ?a) (unat (state_epoch (braid_phase b))) (unat (es_epoch es))"
      unfolding a(1) using suc [OF Some] a(2,3) by (intro chains_present_insert) simp_all
    then show ?thesis
      using Some a b E by (auto simp: absorbed_def spqr_shape_def latest_epoch_def has_secret_def simp flip: unat_gt_0)
  qed
  then show "spqr_shape (absorbed X b rcv s)" "spqr_braid (absorbed X b rcv s) = b"
    "direction (absorbed X b rcv s) = direction s" by simp_all
qed

lemma ratchet_receive_key_view:
  assumes "spqr_shape s" and "braid_receive X (spqr_braid s) m = (b, Inr rcv)"
    and "unat (state_epoch (braid_st s)) + 1 < 2 ^ 64"
  shows "ratchet_receive_key X m n s = derive_receive_key X (receiving_epoch rcv) n (absorbed X b rcv s)"
proof -
  have "(case recv_output_key rcv of
           None \<Rightarrow> (s\<lparr>spqr_braid := b\<rparr>, Inr ())
         | Some es \<Rightarrow> add_epoch X (es_epoch es) (es_secret es) (s\<lparr>spqr_braid := b\<rparr>)) =
      (absorbed X b rcv s, Inr () :: unit res)"
    using absorbed_shape(4) [OF assms] by (auto simp: absorbed_def prod_eq_iff split: option.splits)
  then show ?thesis using assms(2) by (simp add: ratchet_receive_key_def Let_def)
qed

lemma ratchet_receive_key_error:
  assumes "braid_receive X (spqr_braid s) m = (b, Inl e)"
  shows "ratchet_receive_key X m n s = (s, Inl e)"
  using assms braid_receive_error [of X "spqr_braid s" m e] by (simp add: ratchet_receive_key_def)

lemma ratchet_receive_key_shape:
  assumes "spqr_shape s" and "unat (state_epoch (braid_st s)) + 1 < 2 ^ 64"
  shows "spqr_shape (fst (ratchet_receive_key X m n s))"
    and "spqr_braid (fst (ratchet_receive_key X m n s)) = fst (braid_receive X (spqr_braid s) m)"
proof -
  have "spqr_shape (fst (ratchet_receive_key X m n s)) \<and>
    spqr_braid (fst (ratchet_receive_key X m n s)) = fst (braid_receive X (spqr_braid s) m)"
  proof (cases "snd (braid_receive X (spqr_braid s) m)")
    case (Inl e)
    then have "braid_receive X (spqr_braid s) m = (spqr_braid s, Inl e)"
      using braid_receive_error [OF Inl] by (metis prod.collapse)
    then show ?thesis using ratchet_receive_key_error assms(1) by simp
  next
    case (Inr rcv)
    then obtain b where b: "braid_receive X (spqr_braid s) m = (b, Inr rcv)" by (metis prod.collapse)
    note ab = absorbed_shape [OF assms(1) b assms(2)]
    have mv: "only_recv_moved (absorbed X b rcv s) (fst (ratchet_receive_key X m n s))"
      using ratchet_receive_key_view [OF assms(1) b assms(2)] derive_receive_key_moved by simp
    then have "chains_present (kdfchains (fst (ratchet_receive_key X m n s)))
        (unat (state_epoch (braid_phase b))) (unat (spqr_epoch (absorbed X b rcv s)))"
      using chains_present_moved [OF spqr_shapeD(4) [OF ab(1)] mv] ab(2) by simp
    then show ?thesis
      using mv ab(2) b spqr_shapeD [OF ab(1)] by (simp add: spqr_shape_def only_recv_moved_def)
  qed
  then show "spqr_shape (fst (ratchet_receive_key X m n s))"
    "spqr_braid (fst (ratchet_receive_key X m n s)) = fst (braid_receive X (spqr_braid s) m)" by simp_all
qed

end
