(* ===== verification/Spqr_Honest.thy ===== *)
theory Spqr_Honest
  imports Spqr_Epochs
begin

text \<open>
  The post-quantum key schedule of an honest run: the chains of every epoch as a function of
  the shared seed and of the braid's secrets, and that a party whose state follows the
  schedule keeps following it. \<open>pq_key R p (e, n)\<close> is the key of \<open>p\<close>'s \<open>n\<close>-th message
  keyed under epoch \<open>e\<close>.
\<close>

section \<open>The schedule\<close>

fun dir :: "party \<Rightarrow> direction" where
  "dir Alice = A2B"
| "dir Bob = B2A"

primrec chains_at :: "braid_run \<Rightarrow> nat \<Rightarrow> scka_chains" where
  "chains_at R 0 = kdf_scka_init (run_ext R) (run_seed R)"
| "chains_at R (Suc n) =
     kdf_scka_rk (run_ext R) (scka_root_key (chains_at R n)) (ss_of R (of_nat (Suc n)))"

definition send_start :: "braid_run \<Rightarrow> party \<Rightarrow> nat \<Rightarrow> scka_chain" where
  "send_start R p n =
     scka_new (fst (spqr_assign (dir p) (scka_chain_key_0 (chains_at R n)) (scka_chain_key_1 (chains_at R n))))"

definition pq_key :: "braid_run \<Rightarrow> party \<Rightarrow> u64 \<times> u32 \<Rightarrow> message_key" where
  "pq_key R p i = scka.sched (run_ext R) (send_start R p (unat (fst i))) (unat (snd i) - 1)"

abbreviation pq_sched :: "braid_run \<Rightarrow> party \<Rightarrow> u64 \<Rightarrow> nat \<Rightarrow> message_key" where
  "pq_sched R p e \<equiv> (\<lambda>i. pq_key R p (e, of_nat (Suc i)))"

text \<open>One party's receiving chain starts where the other's sending chain does.\<close>

lemma recv_start:
  "scka_new (snd (spqr_assign (dir p) (scka_chain_key_0 (chains_at R n)) (scka_chain_key_1 (chains_at R n))))
     = send_start R (other p) n"
  by (cases p) (simp_all add: send_start_def spqr_assign_def)

lemma start_follows: "scka.follows (run_ext R) (pq_sched R p e) (send_start R p (unat e))"
  unfolding scka.follows_def
proof (intro allI impI)
  fix i assume "unat (sc_n (send_start R p (unat e))) \<le> i \<and> Suc i < 2 ^ 32"
  then have "unat (of_nat (Suc i) :: u32) - 1 = i"
    by (subst unat_of_nat_less) simp_all
  then show "scka.sched (run_ext R) (send_start R p (unat e)) i = pq_key R p (e, of_nat (Suc i))"
    by (simp add: pq_key_def del: of_nat_Suc)
qed

lemma chains_at_epoch:
  assumes "unat e = Suc n"
  shows "kdf_scka_rk (run_ext R) (scka_root_key (chains_at R n)) (ss_of R e) = chains_at R (unat e)"
proof -
  have "of_nat (unat e) = e" by simp
  then have "of_nat (Suc n) = e" using assms by simp
  then show ?thesis using assms by (metis chains_at.simps(2))
qed

section \<open>States on the schedule\<close>

definition sends_follow :: "braid_run \<Rightarrow> party \<Rightarrow> spqr_state \<Rightarrow> bool" where
  "sends_follow R p s \<longleftrightarrow>
     (\<forall>e c ch. map_of (kdfchains s) e = Some c \<and> ec_send c = Some ch \<longrightarrow>
        scka.follows (run_ext R) (pq_sched R p e) ch)"

definition on_schedule :: "braid_run \<Rightarrow> party \<Rightarrow> spqr_state \<Rightarrow> bool" where
  "on_schedule R p s \<longleftrightarrow>
     direction s = dir p \<and> spqr_rk s = scka_root_key (chains_at R (unat (spqr_epoch s))) \<and>
     (\<forall>e. map_of (kdfchains s) e \<noteq> None \<longrightarrow> unat e \<le> unat (spqr_epoch s)) \<and>
     sends_follow R p s \<and> spqr_good (run_ext R) (pq_key R (other p)) s"

lemma on_scheduleD:
  assumes "on_schedule R p s"
  shows "direction s = dir p" "spqr_rk s = scka_root_key (chains_at R (unat (spqr_epoch s)))"
    "map_of (kdfchains s) e = Some c \<Longrightarrow> unat e \<le> unat (spqr_epoch s)"
    "sends_follow R p s" "spqr_good (run_ext R) (pq_key R (other p)) s"
  using assms by (auto simp: on_schedule_def)

lemma sends_followD:
  "sends_follow R p s \<Longrightarrow> map_of (kdfchains s) e = Some c \<Longrightarrow> ec_send c = Some ch \<Longrightarrow>
     scka.follows (run_ext R) (pq_sched R p e) ch"
  unfolding sends_follow_def by blast

lemma spqr_good_cong:
  "(\<And>e. recv_chain s' e = recv_chain s e) \<Longrightarrow> (\<And>e n. stored s' e n = stored s e n) \<Longrightarrow>
     spqr_good X K s' = spqr_good X K s"
  by (simp add: spqr_good_def)

lemma spqr_good_braid [simp]: "spqr_good X K (s\<lparr>spqr_braid := b\<rparr>) = spqr_good X K s"
  by (rule spqr_good_cong) (simp_all add: recv_chain_def stored_def)

lemma on_schedule_braid [simp]: "on_schedule R p (s\<lparr>spqr_braid := b\<rparr>) = on_schedule R p s"
  by (simp add: on_schedule_def sends_follow_def)

lemma on_schedule_init:
  assumes "run_seed R = braid_auth_seed (run_ext R) ss"
  shows "on_schedule R p (spqr_init (run_ext R) ss (dir p))"
proof -
  let ?s = "spqr_init (run_ext R) ss (dir p)"
  have ch: "kdfchains ?s = [(0, \<lparr>ec_send = Some (send_start R p 0), ec_recv = Some (send_start R (other p) 0)\<rparr>)]"
    using recv_start [of p R 0] assms by (simp add: spqr_init_def Let_def split_beta send_start_def)
  have rest: "mkskipped ?s = []" "direction ?s = dir p" "spqr_epoch ?s = 0"
    "spqr_rk ?s = scka_root_key (chains_at R 0)"
    using assms by (simp_all add: spqr_init_def Let_def split_beta)
  have f: "scka.follows (run_ext R) (pq_sched R q 0) (send_start R q 0)" for q
    using start_follows [of R q 0] by simp
  have "spqr_good (run_ext R) (pq_key R (other p)) ?s"
    using ch rest f by (auto simp: spqr_good_def recv_chain_def stored_def simp del: of_nat_Suc)
  moreover have "sends_follow R p ?s"
    using ch f by (auto simp: sends_follow_def simp del: of_nat_Suc split: if_splits)
  ultimately show ?thesis using ch rest by (simp add: on_schedule_def)
qed

lemma on_schedule_add_epoch:
  assumes "on_schedule R p s" and "unat e = Suc (unat (spqr_epoch s))"
  shows "on_schedule R p (fst (add_epoch (run_ext R) e (ss_of R e) s))"
proof -
  let ?a = "fst (add_epoch (run_ext R) e (ss_of R e) s)"
  note h = on_scheduleD [OF assms(1)]
  have ch: "kdf_scka_rk (run_ext R) (spqr_rk s) (ss_of R e) = chains_at R (unat e)"
    using chains_at_epoch [OF assms(2)] h(2) by simp
  let ?c = "\<lparr>ec_send = Some (send_start R p (unat e)), ec_recv = Some (send_start R (other p) (unat e))\<rparr>"
  have a: "kdfchains ?a = btree_insert e ?c (kdfchains s)" "spqr_rk ?a = scka_root_key (chains_at R (unat e))"
    "spqr_epoch ?a = e" "direction ?a = dir p" "mkskipped ?a = mkskipped s"
    using add_epoch_ok [OF assms(2), of "run_ext R" "ss_of R e"] recv_start [of p R "unat e"] h(1) ch
    by (auto simp: Let_def split_beta send_start_def)
  have fresh: "recv_chain s e = None"
    using h(3) [of e] assms(2) by (cases "map_of (kdfchains s) e") (auto simp: recv_chain_def)
  then have none: "stored s e n = None" for n
    using spqr_good_stored [OF h(5), of e n] by (cases "stored s e n") auto
  have rc: "recv_chain ?a e' = (if e' = e then Some (send_start R (other p) (unat e)) else recv_chain s e')" for e'
    using a(1) by (simp add: recv_chain_def)
  have st: "stored ?a e' n = stored s e' n" for e' n using a(5) by (simp add: stored_def)
  have "spqr_good (run_ext R) (pq_key R (other p)) ?a"
    unfolding spqr_good_def
  proof (intro conjI allI impI)
    fix e' c assume "recv_chain ?a e' = Some c"
    then show "scka.follows (run_ext R) (pq_sched R (other p) e') c"
      using rc start_follows spqr_good_chain [OF h(5)] by (auto simp del: of_nat_Suc split: if_splits)
  next
    fix e' n mk assume "stored ?a e' n = Some mk"
    then have s: "stored s e' n = Some mk" and "e' \<noteq> e" using st none by auto
    then show "mk = pq_key R (other p) (e', n)" "0 < n" "\<exists>c. recv_chain ?a e' = Some c \<and> n \<le> sc_n c"
      using spqr_good_stored [OF h(5) s] rc by simp_all
  qed
  moreover have "sends_follow R p ?a"
    using a(1) start_follows sends_followD [OF h(4)]
    by (auto simp: sends_follow_def simp del: of_nat_Suc split: if_splits)
  moreover have "unat e' \<le> unat e" if "map_of (kdfchains ?a) e' \<noteq> None" for e'
    using that a(1) h(3) [of e'] assms(2) by (auto split: if_splits)
  ultimately show ?thesis using a by (simp add: on_schedule_def)
qed


lemma on_schedule_clear:
  assumes "on_schedule R p s"
  shows "on_schedule R p (clear_old_epochs se s)"
proof (cases "checked_sub se 2")
  case None
  then show ?thesis using assms by (simp add: clear_old_epochs_def)
next
  case (Some old)
  let ?c = "clear_old_epochs se s"
  note h = on_scheduleD [OF assms]
  have k: "map_of (kdfchains ?c) e = (if e = old then None else map_of (kdfchains s) e)" for e
    using Some by (simp add: clear_old_epochs_def)
  have rc: "recv_chain ?c e = (if e = old then None else recv_chain s e)" for e
    using k by (simp add: recv_chain_def)
  have st: "stored ?c e n = (if e = old then None else stored s e n)" for e n
    using Some by (simp add: stored_def clear_old_epochs_def)
  have "spqr_good (run_ext R) (pq_key R (other p)) ?c"
    using spqr_good_chain [OF h(5)] spqr_good_stored [OF h(5)]
    by (auto simp: spqr_good_def rc st simp del: of_nat_Suc split: if_splits)
  moreover have "sends_follow R p ?c"
    using sends_followD [OF h(4)] by (auto simp: sends_follow_def k simp del: of_nat_Suc split: if_splits)
  moreover have "unat e \<le> unat (spqr_epoch s)" if "map_of (kdfchains ?c) e \<noteq> None" for e
    using that k h(3) by (auto split: if_splits)
  ultimately show ?thesis using h(1,2) by (simp add: on_schedule_def)
qed

lemma on_schedule_drop:
  assumes "on_schedule R p s"
  shows "on_schedule R p (drop_previous_send se s)"
proof -
  let ?d = "drop_previous_send se s"
  note h = on_scheduleD [OF assms]
  have rc: "recv_chain ?d e = recv_chain s e" for e
    by (cases "map_of (kdfchains s) e") (simp_all add: recv_chain_def map_of_drop_previous_send)
  have "spqr_good (run_ext R) (pq_key R (other p)) ?d"
    using h(5) spqr_good_cong [of ?d s] rc by (simp add: stored_def)
  moreover have "sends_follow R p ?d"
    using sends_followD [OF h(4)]
    by (auto simp: sends_follow_def map_of_drop_previous_send simp del: of_nat_Suc split: if_splits)
  moreover have "unat e \<le> unat (spqr_epoch s)" if "map_of (kdfchains ?d) e \<noteq> None" for e
    using that h(3) by (auto simp: map_of_drop_previous_send split: if_splits)
  ultimately show ?thesis using h(1,2) by (simp add: on_schedule_def)
qed

section \<open>Sending on the schedule\<close>

definition send_bound :: "nat \<Rightarrow> spqr_state \<Rightarrow> bool" where
  "send_bound k s \<longleftrightarrow>
     (\<forall>e c ch. map_of (kdfchains s) e = Some c \<and> ec_send c = Some ch \<longrightarrow> unat (sc_n ch) \<le> k)"

lemma on_schedule_take:
  assumes "on_schedule R p s" and "map_of (kdfchains s) e = Some c" and "ec_send c = Some ch"
    and lim: "Suc (unat (sc_n ch)) < 2 ^ 32"
  shows "on_schedule R p (s\<lparr>kdfchains :=
           btree_insert e (c\<lparr>ec_send := Some (fst (scka_advance (run_ext R) ch))\<rparr>) (kdfchains s)\<rparr>)"
    and "snd (snd (scka_advance (run_ext R) ch)) = pq_key R p (e, sc_n ch + 1)"
proof -
  let ?X = "run_ext R"
  let ?s = "s\<lparr>kdfchains := btree_insert e (c\<lparr>ec_send := Some (fst (scka_advance ?X ch))\<rparr>) (kdfchains s)\<rparr>"
  note h = on_scheduleD [OF assms(1)]
  note f = scka.follows_advance [OF sends_followD [OF h(4) assms(2,3)] lim]
  show "snd (snd (scka_advance ?X ch)) = pq_key R p (e, sc_n ch + 1)"
    using f(2) by (simp add: add.commute)
  have rc: "recv_chain ?s e' = recv_chain s e'" for e'
    using assms(2) by (simp add: recv_chain_def)
  have "spqr_good ?X (pq_key R (other p)) ?s"
    using h(5) spqr_good_cong [of ?s s, OF rc] by simp
  moreover have "sends_follow R p ?s"
    using sends_followD [OF h(4)] f(1) by (auto simp: sends_follow_def simp del: of_nat_Suc split: if_splits)
  moreover have "unat e' \<le> unat (spqr_epoch s)" if "map_of (kdfchains ?s) e' \<noteq> None" for e'
    using that h(3) assms(2) by (auto split: if_splits)
  ultimately show "on_schedule R p ?s" using h(1,2) by (simp add: on_schedule_def)
qed

lemma on_schedule_incorporated:
  assumes "run_ok R" and "spqr_shape s" and "phase_ok R (braid_st s)" and "on_schedule R p s"
    and b: "braid_send (run_ext R) (run_draw R (state_epoch (braid_st s))) (spqr_braid s) = (b, Inr sent)"
  shows "on_schedule R p (incorporated (run_ext R) b sent s)"
proof (cases "send_output_key sent")
  case None
  then show ?thesis using assms(4) by (simp add: incorporated_def)
next
  case (Some es)
  have "state_send (run_ext R) (run_draw R (state_epoch (braid_st s))) (braid_st s)
      = Inr (braid_phase b, send_msg sent, send_output_key sent)"
    using b by (simp add: braid_send_Inr)
  then have "secret_ok R (send_output_key sent)"
    using state_send_ok [OF assms(1,3) spqr_shapeD(1) [OF assms(2)]] by auto
  then have "es_secret es = ss_of R (es_epoch es)" using Some by (simp add: secret_ok_def)
  then show ?thesis
    using on_schedule_add_epoch [of R p "s\<lparr>spqr_braid := b\<rparr>" "es_epoch es"] assms(4)
      incorporated_shape(5) [OF assms(2) b Some] Some
    by (simp add: incorporated_def on_schedule_clear)
qed

lemma send_bound_incorporated:
  assumes "spqr_shape s" and "braid_send X rng (spqr_braid s) = (b, Inr sent)" and "send_bound k s"
  shows "send_bound k (incorporated X b sent s)"
proof (cases "send_output_key sent")
  case None
  then show ?thesis using assms(3) by (simp add: incorporated_def send_bound_def)
next
  case (Some es)
  let ?a = "fst (add_epoch X (es_epoch es) (es_secret es) (s\<lparr>spqr_braid := b\<rparr>))"
  obtain a c where "kdfchains ?a = btree_insert (es_epoch es) \<lparr>ec_send = Some (scka_new a), ec_recv = c\<rparr> (kdfchains s)"
    using add_epoch_ok [of "es_epoch es" "s\<lparr>spqr_braid := b\<rparr>" X "es_secret es"] incorporated_shape(5) [OF assms(1,2) Some]
    by (auto simp: Let_def split_beta)
  then have "send_bound k ?a" using assms(3) by (auto simp: send_bound_def scka_new_def split: if_splits)
  then show ?thesis
    using Some by (auto simp: incorporated_def send_bound_def clear_old_epochs_def split: option.splits if_splits)
qed

lemma ratchet_send_key_honest:
  assumes "run_ok R" and "spqr_shape s" and "phase_ok R (braid_st s)" and "on_schedule R p s"
    and "send_bound k s" and "Suc k < 2 ^ 32"
    and r: "ratchet_send_key (run_ext R) (run_draw R (state_epoch (braid_st s))) s = (s', r)"
  shows "\<exists>m n mk. r = Inr (m, n, mk) \<and> on_schedule R p s' \<and> send_bound (Suc k) s' \<and>
           mk = pq_key R p (saturating_sub (msg_epoch m) 1, n) \<and> 0 < n \<and> unat n \<le> Suc k \<and>
           (\<exists>sent. send_msg sent = m \<and>
              braid_send (run_ext R) (run_draw R (state_epoch (braid_st s))) (spqr_braid s) = (spqr_braid s', Inr sent))"
proof -
  let ?X = "run_ext R" and ?rng = "run_draw R (state_epoch (braid_st s))"
  obtain st' m out where snd: "state_send ?X ?rng (braid_st s) = Inr (st', m, out)"
    using state_send_ok [OF assms(1,3) spqr_shapeD(1) [OF assms(2)]] by blast
  obtain b sent where b: "braid_send ?X ?rng (spqr_braid s) = (b, Inr sent)"
  proof (cases "snd (braid_send ?X ?rng (spqr_braid s))")
    case (Inl e)
    then show ?thesis using snd braid_send_Inl by (metis prod.collapse sum.distinct(1))
  qed (metis prod.collapse)
  let ?se = "sending_epoch sent" and ?i = "incorporated ?X b sent s"
  obtain c ch where v: "map_of (kdfchains ?i) ?se = Some c" "ec_send c = Some ch"
    "ratchet_send_key ?X ?rng s =
       ((drop_previous_send ?se ?i)\<lparr>kdfchains := btree_insert ?se (c\<lparr>ec_send := Some (fst (scka_advance ?X ch))\<rparr>)
             (kdfchains (drop_previous_send ?se ?i))\<rparr>,
        Inr (send_msg sent, fst (snd (scka_advance ?X ch)), snd (snd (scka_advance ?X ch))))"
    using ratchet_send_key_view [OF assms(2) b] by blast
  have bd: "send_bound k ?i" using send_bound_incorporated [OF assms(2) b assms(5)] .
  then have lim: "unat (sc_n ch) \<le> k" using v(1,2) unfolding send_bound_def by blast
  have "checked_sub ?se 1 \<noteq> Some ?se" using unat_checked_sub [of ?se 1 ?se] by auto
  then have d: "map_of (kdfchains (drop_previous_send ?se ?i)) ?se = Some c"
    using v(1) by (simp add: map_of_drop_previous_send)
  note tk = on_schedule_take [OF on_schedule_drop [OF on_schedule_incorporated [OF assms(1-4) b]] d v(2)]
  have n: "unat (sc_n ch + 1) = Suc (unat (sc_n ch))" using lim assms(6) by (simp add: unat_add_one)
  have "send_bound (Suc k) s'"
    using bd v(3) r lim n unfolding send_bound_def
    by (auto simp: map_of_drop_previous_send scka_advance_n intro: le_SucI split: if_splits)
  moreover have "?se = saturating_sub (msg_epoch (send_msg sent)) 1"
    using b state_send_local(1,4) [of ?X ?rng "braid_st s"] by (auto simp: braid_send_Inr)
  moreover have "0 < sc_n ch + 1" using n by (simp add: word_less_nat_alt)
  ultimately show ?thesis
    using tk lim assms(6) v(3) r n b incorporated_shape(2) [OF assms(2) b] by (auto simp: scka_advance_n)
qed

end
