(* ===== verification/Spqr_Life.thy ===== *)
theory Spqr_Life
  imports Spqr_Epochs
begin

text \<open>
  SPQR under arbitrary input: \<open>spqr_life X ss d n s\<close> says that \<open>s\<close> is reached from the
  initial state of a party in \<open>n\<close> calls, where each send draws any bytes and each receive
  takes any message and any counter, forged ones included, and failed calls count.
\<close>

inductive spqr_life :: "ext \<Rightarrow> bytes \<Rightarrow> direction \<Rightarrow> nat \<Rightarrow> spqr_state \<Rightarrow> bool" for X ss d where
  life_init: "spqr_life X ss d 0 (spqr_init X ss d)"
| life_send: "spqr_life X ss d n s \<Longrightarrow> spqr_life X ss d (Suc n) (fst (ratchet_send_key X rng s))"
| life_receive: "spqr_life X ss d n s \<Longrightarrow> spqr_life X ss d (Suc n) (fst (ratchet_receive_key X m k s))"

lemma braid_send_keeps:
  "state_epoch (braid_phase (fst (braid_send X rng b))) = state_epoch (braid_phase b)"
  "is_owner (braid_phase (fst (braid_send X rng b))) = is_owner (braid_phase b)"
proof -
  have "state_epoch (braid_phase (fst (braid_send X rng b))) = state_epoch (braid_phase b) \<and>
      is_owner (braid_phase (fst (braid_send X rng b))) = is_owner (braid_phase b)"
  proof (cases "snd (braid_send X rng b)")
    case (Inl e)
    then show ?thesis using braid_send_error by simp
  next
    case (Inr out)
    then have "state_send X rng (braid_phase b) =
        Inr (braid_phase (fst (braid_send X rng b)), send_msg out, send_output_key out)"
      by (metis braid_send_Inr prod.collapse)
    from state_send_local(1,2) [OF this] show ?thesis by simp
  qed
  then show "state_epoch (braid_phase (fst (braid_send X rng b))) = state_epoch (braid_phase b)"
    "is_owner (braid_phase (fst (braid_send X rng b))) = is_owner (braid_phase b)" by simp_all
qed

lemma braid_receive_step:
  "state_epoch (braid_phase (fst (braid_receive X b m))) = state_epoch (braid_phase b) \<and>
   is_owner (braid_phase (fst (braid_receive X b m))) = is_owner (braid_phase b) \<or>
   state_epoch (braid_phase (fst (braid_receive X b m))) = state_epoch (braid_phase b) + 1 \<and>
   is_owner (braid_phase (fst (braid_receive X b m))) = (\<not> is_owner (braid_phase b))"
proof (cases "snd (braid_receive X b m)")
  case (Inl e)
  then show ?thesis using braid_receive_error by simp
next
  case (Inr out)
  then have "state_receive X (braid_phase b) m =
      Inr (braid_phase (fst (braid_receive X b m)), recv_output_key out)"
    by (metis braid_receive_Inr prod.collapse)
  from state_receive_local [OF this] show ?thesis by auto
qed

abbreviation spqr_now :: "spqr_state \<Rightarrow> nat" where
  "spqr_now s \<equiv> unat (state_epoch (braid_st s))"

lemma spqr_init_braid:
  "state_epoch (braid_st (spqr_init X ss d)) = 1" "is_owner (braid_st (spqr_init X ss d)) = (d = A2B)"
  "spqr_epoch (spqr_init X ss d) = 0" "map_of (kdfchains (spqr_init X ss d)) 0 \<noteq> None"
  by (simp_all add: spqr_init_def Let_def split_beta init_sender_def init_receiver_def INITIAL_EPOCH_def
      split: direction.splits)

lemma life_shape:
  "spqr_life X ss d n s \<Longrightarrow> n < 2 ^ 64 - 2 \<Longrightarrow> spqr_shape s \<and> spqr_now s \<le> n + 1"
proof (induction rule: spqr_life.induct)
  case life_init
  then show ?case by (simp add: spqr_shape_init spqr_init_braid)
next
  case (life_send n s rng)
  then show ?case using ratchet_send_key_shape(1,3) [of s X rng] braid_send_keeps(1) [of X rng "spqr_braid s"] by simp
next
  case (life_receive n s m k)
  then have "spqr_now s + 1 < 2 ^ 64" by simp
  moreover from this have "unat (state_epoch (braid_st s) + 1) = spqr_now s + 1" by (simp add: unat_add_one)
  ultimately show ?case
    using life_receive ratchet_receive_key_shape [of s X m k] braid_receive_step [of X "spqr_braid s" m] by auto
qed

section \<open>Roles alternate, so pruning reaches every second epoch\<close>

definition role_parity :: "direction \<Rightarrow> spqr_state \<Rightarrow> bool" where
  "role_parity d s \<longleftrightarrow> is_owner (braid_st s) = (odd (spqr_now s) = (d = A2B))"

definition retained :: "direction \<Rightarrow> spqr_state \<Rightarrow> bool" where
  "retained d s \<longleftrightarrow>
     (\<forall>e. unat e \<le> unat (spqr_epoch s) \<and> (even (unat e) = (d = A2B)) \<longrightarrow> map_of (kdfchains s) e \<noteq> None)"

lemma retained_moved:
  assumes "retained d s" and "only_recv_moved s s'"
  shows "retained d s'"
  unfolding retained_def
proof (intro allI impI)
  fix e :: u64
  assume "unat e \<le> unat (spqr_epoch s') \<and> (even (unat e) = (d = A2B))"
  then obtain c where "map_of (kdfchains s) e = Some c"
    using assms unfolding retained_def only_recv_moved_def by auto
  moreover have "same_shape (map_of (kdfchains s) e) (map_of (kdfchains s') e)"
    using assms(2) unfolding only_recv_moved_def by simp
  ultimately show "map_of (kdfchains s') e \<noteq> None"
    by (cases "map_of (kdfchains s') e") (simp_all add: same_shape_def)
qed

lemma retained_insert:
  assumes "retained d s" and "unat e = Suc (unat (spqr_epoch s))"
    and "kdfchains s' = btree_insert e c (kdfchains s)" and "spqr_epoch s' = e"
  shows "retained d s'"
  unfolding retained_def
proof (intro allI impI, elim conjE)
  fix e' :: u64
  assume e': "unat e' \<le> unat (spqr_epoch s')" "even (unat e') = (d = A2B)"
  show "map_of (kdfchains s') e' \<noteq> None"
  proof (cases "e' = e")
    case False
    then have "unat e' \<noteq> unat e" by simp
    with e'(1) assms(2,4) have "unat e' \<le> unat (spqr_epoch s)" by simp
    then show ?thesis using assms(1,3) e'(2) unfolding retained_def by simp
  qed (use assms(3) in simp)
qed

lemma retained_clear:
  assumes "retained d s" and "odd (unat se) = (d = A2B)"
  shows "retained d (clear_old_epochs se s)"
  unfolding retained_def
proof (intro allI impI, elim conjE)
  fix e :: u64
  assume e: "unat e \<le> unat (spqr_epoch (clear_old_epochs se s))" "even (unat e) = (d = A2B)"
  have "even (unat se) = even (unat e)" if "checked_sub se 2 = Some e"
    using unat_checked_sub [OF that, symmetric] by simp
  then have "checked_sub se 2 \<noteq> Some e" using e(2) assms(2) by blast
  then have "map_of (kdfchains (clear_old_epochs se s)) e = map_of (kdfchains s) e"
    by (auto simp: clear_old_epochs_def split: option.splits)
  then show "map_of (kdfchains (clear_old_epochs se s)) e \<noteq> None"
    using assms(1) e unfolding retained_def by simp
qed

lemma retained_send:
  assumes "spqr_shape s" and "role_parity d s" and "retained d s"
  shows "retained d (fst (ratchet_send_key X rng s))"
proof (cases "snd (braid_send X rng (spqr_braid s))")
  case (Inl e)
  then have "braid_send X rng (spqr_braid s) = (spqr_braid s, Inl e)"
    using braid_send_error [OF Inl] by (metis prod.collapse)
  then show ?thesis using assms(3) by (simp add: ratchet_send_key_def)
next
  case (Inr sent)
  then obtain b where b: "braid_send X rng (spqr_braid s) = (b, Inr sent)" by (metis prod.collapse)
  note inc = incorporated_shape [OF assms(1) b]
  let ?i = "incorporated X b sent s"
  have r: "retained d ?i"
  proof (cases "send_output_key sent")
    case None
    then show ?thesis using assms(3) by (simp add: incorporated_def retained_def)
  next
    case (Some es)
    let ?a = "fst (add_epoch X (es_epoch es) (es_secret es) (s\<lparr>spqr_braid := b\<rparr>))"
    have snd: "state_send X rng (braid_st s) = Inr (braid_phase b, send_msg sent, send_output_key sent)"
      using b by (simp add: braid_send_Inr)
    have no: "\<not> is_owner (braid_st s)" and ep: "state_epoch (braid_phase b) = state_epoch (braid_st s)"
      using state_send_local(6) [OF snd Some] state_send_local(1) [OF snd] by simp_all
    have "retained d (s\<lparr>spqr_braid := b\<rparr>)" using assms(3) by (simp add: retained_def)
    moreover obtain c where "kdfchains ?a = btree_insert (es_epoch es) c (kdfchains s)" "spqr_epoch ?a = es_epoch es"
      using add_epoch_ok [of "es_epoch es" "s\<lparr>spqr_braid := b\<rparr>" X "es_secret es"] inc(5) [OF Some] by auto
    ultimately have "retained d ?a" using retained_insert [of d "s\<lparr>spqr_braid := b\<rparr>" "es_epoch es" ?a c] inc(5) [OF Some] by simp
    moreover have "odd (unat (sending_epoch sent)) = (d = A2B)"
      using no inc(6) ep assms(2) unfolding role_parity_def by (metis even_add odd_one)
    ultimately show ?thesis using Some retained_clear by (simp add: incorporated_def)
  qed
  obtain c ch where "map_of (kdfchains ?i) (sending_epoch sent) = Some c"
     "ratchet_send_key X rng s =
       ((drop_previous_send (sending_epoch sent) ?i)
          \<lparr>kdfchains := btree_insert (sending_epoch sent) (c\<lparr>ec_send := Some (fst (scka_advance X ch))\<rparr>)
             (kdfchains (drop_previous_send (sending_epoch sent) ?i))\<rparr>,
        Inr (send_msg sent, fst (snd (scka_advance X ch)), snd (snd (scka_advance X ch))))"
    using ratchet_send_key_view [OF assms(1) b] by blast
  then show ?thesis using r by (simp add: retained_def map_of_drop_previous_send)
qed

lemma retained_receive:
  assumes "spqr_shape s" and "retained d s" and "spqr_now s + 1 < 2 ^ 64"
  shows "retained d (fst (ratchet_receive_key X m k s))"
proof (cases "snd (braid_receive X (spqr_braid s) m)")
  case (Inl e)
  then show ?thesis using assms(2) ratchet_receive_key_error by (metis fst_conv prod.collapse)
next
  case (Inr rcv)
  then obtain b where b: "braid_receive X (spqr_braid s) m = (b, Inr rcv)" by (metis prod.collapse)
  have "retained d (absorbed X b rcv s)"
  proof (cases "recv_output_key rcv")
    case None
    then show ?thesis using assms(2) by (simp add: absorbed_def retained_def)
  next
    case (Some es)
    note suc = absorbed_shape(5) [OF assms(1) b assms(3) Some]
    let ?a = "fst (add_epoch X (es_epoch es) (es_secret es) (s\<lparr>spqr_braid := b\<rparr>))"
    have "retained d (s\<lparr>spqr_braid := b\<rparr>)" using assms(2) by (simp add: retained_def)
    moreover obtain c where "kdfchains ?a = btree_insert (es_epoch es) c (kdfchains s)" "spqr_epoch ?a = es_epoch es"
      using add_epoch_ok [of "es_epoch es" "s\<lparr>spqr_braid := b\<rparr>" X "es_secret es"] suc by auto
    ultimately have "retained d ?a" using retained_insert [of d "s\<lparr>spqr_braid := b\<rparr>" "es_epoch es" ?a c] suc by simp
    then show ?thesis using Some by (simp add: absorbed_def)
  qed
  then show ?thesis
    using retained_moved derive_receive_key_moved ratchet_receive_key_view [OF assms(1) b assms(3)] by simp
qed

lemma life_retained:
  "spqr_life X ss d n s \<Longrightarrow> n < 2 ^ 64 - 2 \<Longrightarrow> role_parity d s \<and> retained d s"
proof (induction rule: spqr_life.induct)
  case life_init
  then show ?case
    using spqr_init_braid [of X ss d] by (auto simp: role_parity_def retained_def unat_eq_zero)
next
  case (life_send n s rng)
  then have sh: "spqr_shape s" using life_shape [of X ss d n s] by simp
  then show ?case
    using life_send retained_send [OF sh] ratchet_send_key_shape(3) [OF sh, of X rng] braid_send_keeps [of X rng "spqr_braid s"]
    by (simp add: role_parity_def)
next
  case (life_receive n s m k)
  then have sh: "spqr_shape s" and lim: "spqr_now s + 1 < 2 ^ 64" using life_shape [of X ss d n s] by simp_all
  then have "unat (state_epoch (braid_st s) + 1) = spqr_now s + 1" by (simp add: unat_add_one)
  then show ?case
    using life_receive retained_receive [OF sh _ lim] ratchet_receive_key_shape(2) [OF sh lim, of X m k]
      braid_receive_step [of X "spqr_braid s" m]
    by (auto simp: role_parity_def)
qed


section \<open>Properties\<close>

text \<open>
  C20. Epochs never fall out of step. Whatever a party is fed, its latest incorporated epoch
  is the braid's current epoch once it has encapsulated in it and the one before otherwise;
  so a send fails only when the braid's own send does, a receive whose braid step succeeds
  always reaches the key derivation for the message's epoch, and the chains of the two
  epochs before the braid's are there to derive from.
\<close>

theorem spqr_epochs_in_step:
  assumes "spqr_life X ss d n s" and "n < 2 ^ 64 - 2"
  shows "unat (spqr_epoch s) = (if \<not> is_owner (braid_st s) \<and> 2 \<le> phase (braid_st s) then spqr_now s else spqr_now s - 1) \<and>
    (is_ok (snd (ratchet_send_key X rng s)) \<longleftrightarrow> is_ok (snd (braid_send X rng (spqr_braid s)))) \<and>
    (case braid_receive X (spqr_braid s) m of
           (b, Inl e) \<Rightarrow> ratchet_receive_key X m k s = (s, Inl e)
         | (b, Inr rcv) \<Rightarrow> \<exists>s1. spqr_braid s1 = b \<and>
             ratchet_receive_key X m k s = derive_receive_key X (saturating_sub (msg_epoch m) 1) k s1) \<and>
    (spqr_now s \<le> unat e + 2 \<and> unat e \<le> unat (spqr_epoch s) \<longrightarrow> recv_chain s e \<noteq> None)"
proof -
  have sh: "spqr_shape s" and lim: "spqr_now s + 1 < 2 ^ 64"
    using life_shape [OF assms] assms(2) by auto
  note d = spqr_shapeD [OF sh]
  have "unat (spqr_epoch s) = (if \<not> is_owner (braid_st s) \<and> 2 \<le> phase (braid_st s) then spqr_now s else spqr_now s - 1)"
    using d(3) by (simp add: latest_epoch_def has_secret_def)
  moreover have "is_ok (snd (ratchet_send_key X rng s)) \<longleftrightarrow> is_ok (snd (braid_send X rng (spqr_braid s)))"
    using ratchet_send_key_shape(2) [OF sh] .
  moreover have "case braid_receive X (spqr_braid s) m of
           (b, Inl e) \<Rightarrow> ratchet_receive_key X m k s = (s, Inl e)
         | (b, Inr rcv) \<Rightarrow> \<exists>s1. spqr_braid s1 = b \<and>
             ratchet_receive_key X m k s = derive_receive_key X (saturating_sub (msg_epoch m) 1) k s1"
    using ratchet_receive_key_error ratchet_receive_key_view [OF sh _ lim] absorbed_shape(2) [OF sh _ lim]
    by (auto simp: braid_receive_Inr split: prod.splits sum.splits) metis
  moreover have "spqr_now s \<le> unat e + 2 \<and> unat e \<le> unat (spqr_epoch s) \<longrightarrow> recv_chain s e \<noteq> None"
    using chains_presentD [OF d(4), of e] by (auto simp: recv_chain_def)
  ultimately show ?thesis by blast
qed

definition forged :: message where
  "forged = \<lparr>msg_epoch = 7, mtype = Ct2, msg_chunk = None\<rparr>"

theorem spqr_epochs_in_step_witness:
  "\<exists>s. spqr_life demo_ext (zeros 32) A2B 2 s \<and> recv_chain s 0 \<noteq> None \<and>
       (is_ok (snd (ratchet_send_key demo_ext zeros s)) \<longleftrightarrow> is_ok (snd (braid_send demo_ext zeros (spqr_braid s))))"
proof -
  let ?s1 = "fst (ratchet_receive_key demo_ext forged 9 (spqr_init demo_ext (zeros 32) A2B))"
  let ?s = "fst (ratchet_send_key demo_ext zeros ?s1)"
  have l: "spqr_life demo_ext (zeros 32) A2B 2 ?s"
    using life_send [OF life_receive [OF life_init]] by (simp add: numeral_2_eq_2)
  have "spqr_shape ?s1 \<and> spqr_now ?s1 \<le> 1 + 1"
    using life_shape [OF life_receive [OF life_init]] by simp
  then have n: "spqr_now ?s \<le> 2"
    using ratchet_send_key_shape(3) [of ?s1 demo_ext zeros] braid_send_keeps(1) [of demo_ext zeros "spqr_braid ?s1"]
    by simp
  show ?thesis
    using spqr_epochs_in_step [OF l, of zeros forged 9 0] l n by (intro exI [of _ ?s]) simp
qed



end
