(* ===== verification/Braid_Progress.thy ===== *)
theory Braid_Progress
  imports Braid_System
begin

text \<open>
  The braid never gets stuck: from every reachable state of the two-party system there is a
  continuation, of bounded length, in which the epoch completes. \<open>leads R B P Q\<close> says that
  from a reachable state satisfying \<open>P\<close> the network can, within \<open>B\<close> calls, be driven to one
  satisfying \<open>Q\<close>. The continuation alternates a send of the party that has something to
  stream with the delivery of that codeword.
\<close>

section \<open>Leads-to\<close>

definition leads :: "braid_run \<Rightarrow> nat \<Rightarrow> (braid_system \<Rightarrow> bool) \<Rightarrow> (braid_system \<Rightarrow> bool) \<Rightarrow> bool" where
  "leads R B P Q \<longleftrightarrow>
     (\<forall>n s. braid_reach R n s \<and> n + B < 2 ^ 64 - 2 \<and> P s \<longrightarrow>
        (\<exists>j \<le> B. \<exists>s'. braid_reach R (n + j) s' \<and> Q s'))"

lemma leadsI:
  assumes "\<And>n s. braid_reach R n s \<Longrightarrow> n + B < 2 ^ 64 - 2 \<Longrightarrow> P s \<Longrightarrow>
      \<exists>j \<le> B. \<exists>s'. braid_reach R (n + j) s' \<and> Q s'"
  shows "leads R B P Q"
  using assms unfolding leads_def by blast

lemma leadsD:
  assumes "leads R B P Q" and "braid_reach R n s" and "n + B < 2 ^ 64 - 2" and "P s"
  obtains j s' where "j \<le> B" and "braid_reach R (n + j) s'" and "Q s'"
  using assms unfolding leads_def by blast

lemma leads_refl: "(\<And>s. P s \<Longrightarrow> Q s) \<Longrightarrow> leads R B P Q"
  by (rule leadsI) (metis add.right_neutral zero_le)

lemma leads_trans:
  assumes "leads R B1 P Q" and "leads R B2 Q S"
  shows "leads R (B1 + B2) P S"
proof (rule leadsI)
  fix n s assume r: "braid_reach R n s" and b: "n + (B1 + B2) < 2 ^ 64 - 2" and P: "P s"
  obtain j1 s1 where 1: "j1 \<le> B1" "braid_reach R (n + j1) s1" "Q s1"
    using leadsD [OF assms(1) r _ P] b by auto
  obtain j2 s2 where 2: "j2 \<le> B2" "braid_reach R (n + j1 + j2) s2" "S s2"
    using leadsD [OF assms(2) 1(2) _ 1(3)] 1(1) b by auto
  then show "\<exists>j \<le> B1 + B2. \<exists>s'. braid_reach R (n + j) s' \<and> S s'"
    using 1(1) by (intro exI [of _ "j1 + j2"]) (auto simp: add.assoc)
qed

lemma leads_weaken:
  assumes "leads R B P Q" and "\<And>s. P' s \<Longrightarrow> P s" and "\<And>s. Q s \<Longrightarrow> Q' s" and "B \<le> B'"
  shows "leads R B' P' Q'"
proof (rule leadsI)
  fix n s assume r: "braid_reach R n s" and b: "n + B' < 2 ^ 64 - 2" and P: "P' s"
  obtain j s' where "j \<le> B" "braid_reach R (n + j) s'" "Q s'"
    using leadsD [OF assms(1) r _ assms(2) [OF P]] b assms(4) by auto
  then show "\<exists>j \<le> B'. \<exists>s'. braid_reach R (n + j) s' \<and> Q' s'"
    using assms(3,4) le_trans by blast
qed

lemma leads_cases:
  assumes "leads R B P1 Q" and "leads R B P2 Q"
  shows "leads R B (\<lambda>s. P1 s \<or> P2 s) Q"
  using assms unfolding leads_def by blast

lemma leads_iterate:
  assumes "\<And>j. leads R B (P j) (P (Suc j))"
  shows "leads R (k * B) (P 0) (P k)"
proof (induction k)
  case 0
  show ?case by (rule leads_refl)
next
  case (Suc k)
  from leads_trans [OF Suc assms] show ?case by (simp add: add.commute)
qed

text \<open>A reachable state may be assumed to satisfy the invariants.\<close>

lemma leads_invariant:
  assumes "run_ok R" and "leads R B (\<lambda>s. P s \<and> in_lockstep s) Q"
  shows "leads R B P Q"
proof (rule leadsI)
  fix n s assume r: "braid_reach R n s" and b: "n + B < 2 ^ 64 - 2" and P: "P s"
  have "in_lockstep s" using reach_in_lockstep [OF r assms(1)] b by simp
  then show "\<exists>j \<le> B. \<exists>s'. braid_reach R (n + j) s' \<and> Q s'"
    using leadsD [OF assms(2) r b] P by blast
qed

section \<open>One send, one exchange\<close>

lemma leads_send:
  assumes "run_ok R"
    and "\<And>s b out. P s \<Longrightarrow>
      state_send (run_ext R) (run_draw R (state_epoch (st_of s p))) (st_of s p)
        = Inr (braid_phase b, send_msg out, send_output_key out) \<Longrightarrow> Q (after_send p b out s)"
  shows "leads R 1 P Q"
proof (rule leadsI)
  fix n s assume r: "braid_reach R n s" and b: "n + 1 < 2 ^ 64 - 2" and P: "P s"
  have ok: "system_ok R n s" using reach_system_ok [OF r assms(1)] b by simp
  let ?X = "run_ext R" and ?d = "run_draw R (state_epoch (st_of s p))"
  obtain st' m out where snd: "state_send ?X ?d (st_of s p) = Inr (st', m, out)"
    using state_send_ok [OF assms(1) system_okD(1,6) [OF ok], of p] by blast
  let ?b = "\<lparr>braid_phase = st'\<rparr>"
    and ?o = "\<lparr>send_msg = m, sending_epoch = saturating_sub (state_epoch st') 1, send_output_key = out\<rparr>"
  have "braid_send ?X ?d (parties s p) = (?b, Inr ?o)" using snd by (simp add: braid_send_Inr)
  from reach_send [OF r this] have "braid_reach R (n + 1) (after_send p ?b ?o s)" by simp
  moreover have "Q (after_send p ?b ?o s)" using assms(2) [OF P, of ?b ?o] snd by simp
  ultimately show "\<exists>j \<le> 1. \<exists>s'. braid_reach R (n + j) s' \<and> Q s'" by blast
qed

lemma leads_exchange:
  assumes "run_ok R"
    and "\<And>n s b out b' out'. P s \<Longrightarrow> system_ok R n s \<Longrightarrow> n + 2 < 2 ^ 64 - 2 \<Longrightarrow>
      state_send (run_ext R) (run_draw R (state_epoch (st_of s p))) (st_of s p)
        = Inr (braid_phase b, send_msg out, send_output_key out) \<Longrightarrow> msg_ok R (send_msg out) \<Longrightarrow>
      state_receive (run_ext R) (st_of s (other p)) (send_msg out)
        = Inr (braid_phase b', recv_output_key out') \<Longrightarrow>
      Q (after_receive (other p) b' out' (after_send p b out s))"
  shows "leads R 2 P Q"
proof (rule leadsI)
  fix n s assume r: "braid_reach R n s" and b: "n + 2 < 2 ^ 64 - 2" and P: "P s"
  have ok: "system_ok R n s" using reach_system_ok [OF r assms(1)] b by simp
  let ?X = "run_ext R" and ?d = "run_draw R (state_epoch (st_of s p))"
  obtain st' m out where snd: "state_send ?X ?d (st_of s p) = Inr (st', m, out)" and m: "msg_ok R m"
    using state_send_ok [OF assms(1) system_okD(1,6) [OF ok], of p] by blast
  let ?b = "\<lparr>braid_phase = st'\<rparr>"
    and ?o = "\<lparr>send_msg = m, sending_epoch = saturating_sub (state_epoch st') 1, send_output_key = out\<rparr>"
  let ?s = "after_send p ?b ?o s"
  have "braid_send ?X ?d (parties s p) = (?b, Inr ?o)" using snd by (simp add: braid_send_Inr)
  from reach_send [OF r this] have r1: "braid_reach R (Suc n) ?s" .
  have "ep s (other p) + 1 < 2 ^ 64" using system_okD(3) [OF ok, of "other p"] b by simp
  from state_receive_ok [OF assms(1) m system_okD(1,6) [OF ok] this]
  obtain st2 out2 where rcv: "state_receive ?X (st_of s (other p)) m = Inr (st2, out2)" by blast
  let ?b2 = "\<lparr>braid_phase = st2\<rparr>"
    and ?o2 = "\<lparr>receiving_epoch = saturating_sub (msg_epoch m) 1, recv_output_key = out2\<rparr>"
  have "braid_receive ?X (parties ?s (other p)) m = (?b2, Inr ?o2)"
    using rcv by (simp add: braid_receive_Inr)
  moreover have "m \<in> wire ?s (other (other p))" by simp
  ultimately have "braid_reach R (Suc (Suc n)) (after_receive (other p) ?b2 ?o2 ?s)"
    using reach_receive [OF r1] by blast
  moreover have "Q (after_receive (other p) ?b2 ?o2 ?s)"
    using assms(2) [OF P ok b, of ?b ?o ?b2 ?o2] snd m rcv by simp
  ultimately show "\<exists>j \<le> 2. \<exists>s'. braid_reach R (n + j) s' \<and> Q s'"
    by (intro exI [of _ 2]) (auto simp: numeral_2_eq_2)
qed

section \<open>Streams\<close>

text \<open>What a state streams when asked to send, and where it collects codewords of a type.\<close>

fun out_stream :: "state \<Rightarrow> (msg_type \<times> encoder) option" where
  "out_stream (KeysSampled _ _ _ _ en) = Some (Hdr, en)"
| "out_stream (HeaderSent _ _ _ _ en) = Some (Ek, en)"
| "out_stream (Ct1Received _ _ _ _ en) = Some (EkCt1Ack, en)"
| "out_stream (Ct1Sampled _ _ _ _ _ en _) = Some (Ct1, en)"
| "out_stream (EkReceivedCt1Sampled _ _ _ _ _ en) = Some (Ct1, en)"
| "out_stream (Ct2Sampled _ _ en) = Some (Ct2, en)"
| "out_stream _ = None"

fun in_stream :: "state \<Rightarrow> msg_type \<Rightarrow> decoder option" where
  "in_stream (NoHeaderReceived _ _ d) mt = (if mt = Hdr then Some d else None)"
| "in_stream (HeaderSent _ _ _ d _) mt = (if mt = Ct1 then Some d else None)"
| "in_stream (EkSentCt1Received _ _ _ _ d) mt = (if mt = Ct2 then Some d else None)"
| "in_stream (Ct1Acknowledged _ _ _ _ _ d) mt = (if mt = EkCt1Ack then Some d else None)"
| "in_stream _ mt = None"

definition same_place :: "state \<Rightarrow> state \<Rightarrow> bool" where
  "same_place st st' \<longleftrightarrow> state_epoch st' = state_epoch st \<and> is_owner st' = is_owner st \<and> phase st' = phase st"

definition moved_on :: "state \<Rightarrow> state \<Rightarrow> bool" where
  "moved_on st st' \<longleftrightarrow>
     (state_epoch st' = state_epoch st \<and> is_owner st' = is_owner st \<and> phase st < phase st') \<or>
     state_epoch st' = state_epoch st + 1"

lemma send_stream:
  assumes "out_stream st = Some (mt, en)" and "state_send X rng st = Inr (st', m, out)"
  shows "m = message_carrying (state_epoch st) mt (snd (next_chunk en))"
    and "out_stream st' = Some (mt, fst (next_chunk en))" and "same_place st st'"
  using assms by (cases st; auto simp: send_defs same_place_def Let_def split_beta)+

text \<open>A collecting state either stays, one codeword richer and still incomplete, or moves on.\<close>

lemma recv_stream:
  assumes "run_ok R" and "phase_ok R st" and "in_stream st mt = Some d"
    and "msg_ok R m" and "mtype m = mt" and "msg_epoch m = state_epoch st" and "state_epoch st \<noteq> 0"
    and "state_receive (run_ext R) st m = Inr (st', out)"
  shows "moved_on st st' \<or>
    same_place st st' \<and> (\<exists>d'. add_msg_chunk d m = Inr d' \<and> in_stream st' mt = Some d' \<and> \<not> has_message d')"
proof -
  have mt: "mt \<noteq> Idle" using assms(3) by (cases st) (auto split: if_splits)
  have "collects (run_ext R) (payload_of R (mtype m) (msg_epoch m)) d"
    using assms(2,3,5,6) by (cases st) (auto split: if_splits)
  from add_msg_collects [OF assms(1,4) _ this] obtain d' where d': "add_msg_chunk d m = Inr d'"
    "decoder_message (run_ext R) d' =
       Inr (if has_message d' then Some (payload_of R (mtype m) (msg_epoch m)) else None)"
    using mt assms(5) by blast
  have "moved_on st st'" if "has_message d'"
  proof (cases st)
    case (NoHeaderReceived e a d0)
    have "split_at (pk1_len (run_ext R)) (hdr_of R e)
        = Inr (pk1_of R e, mac_hdr (run_ext R) (auth_at R (unat e - 1)) e (pk1_of R e))"
      using pk_of_props(2) [OF assms(1)] by (simp add: split_at_Inr hdr_of_def)
    with NoHeaderReceived show ?thesis
      using that assms d' vfy_hdr_mac [OF run_okD(1) [OF assms(1)]]
      by (auto simp: recv_no_header_received_def moved_on_def split: if_splits)
  next
    case (EkSentCt1Received e a dk c d0)
    have "split_at (ct2_len (run_ext R)) (ct2m_of R e)
        = Inr (ct2_of R e, mac_ct (run_ext R) (auth_at R (unat e)) e (ct1_of R e @ ct2_of R e))"
      using encaps_of_props(4) [OF assms(1)] by (simp add: split_at_Inr ct2m_of_def)
    with EkSentCt1Received show ?thesis
      using that assms d' vfy_ct_mac [OF run_okD(1) [OF assms(1)]] encaps_of_props(5) [OF assms(1), of e]
        auth_at_epoch [of e R]
      by (auto simp: recv_ek_sent_ct1_received_def moved_on_def Let_def ss_of_def [symmetric] split: if_splits)
  qed (use that assms d' in \<open>auto simp: recv_defs moved_on_def split: if_splits sum.splits\<close>)
  moreover have "same_place st st' \<and> in_stream st' mt = Some d'" if "\<not> has_message d'"
    using that assms(3,5,6,8) d'
    by (cases st) (auto simp: recv_defs same_place_def split: if_splits)
  ultimately show ?thesis using d'(1) by blast
qed

section \<open>A stream completes\<close>

definition indices :: "decoder \<Rightarrow> u16 set" where
  "indices d = fst ` set (received d)"

definition window :: "nat \<Rightarrow> nat \<Rightarrow> nat \<Rightarrow> u16 set" where
  "window N c j = (\<lambda>i. of_nat ((c + i) mod N)) ` {..<j}"

lemma card_window: "j \<le> N \<Longrightarrow> N \<le> 2 ^ 16 \<Longrightarrow> card (window N c j) = j"
  using distinct_card [OF distinct_emit [of j "\<lparr>shards = replicate N [], cursor = c\<rparr>"]]
  by (simp add: window_def emit_conv Let_def image_image lessThan_atLeast0 comp_def)

lemma window_Suc: "window N c (Suc j) = insert (of_nat ((c + j) mod N)) (window N c j)"
  by (simp add: window_def lessThan_Suc)

lemma add_msg_indices:
  assumes "add_msg_chunk d m = Inr d'" and "msg_chunk m = Some c"
  shows "indices d' = insert (chunk_index c) (indices d)"
proof (cases "map_of (received d) (chunk_index c)")
  case None
  then have "d' = d\<lparr>received := btree_insert (chunk_index c) (chunk_data c) (received d)\<rparr>"
    using assms by (auto simp: add_msg_chunk_def add_chunk_def split: if_splits)
  then show ?thesis by (simp add: indices_def set_btree_insert)
next
  case (Some v)
  then have "chunk_index c \<in> indices d" by (force simp: indices_def dest: map_of_SomeD)
  then show ?thesis using Some assms
    by (auto simp: add_msg_chunk_def add_chunk_def split: if_splits)
qed

definition placed :: "braid_system \<Rightarrow> party \<Rightarrow> u64 \<Rightarrow> bool \<Rightarrow> nat \<Rightarrow> bool" where
  "placed s p e r i \<longleftrightarrow> state_epoch (st_of s p) = e \<and> is_owner (st_of s p) = r \<and> phase (st_of s p) = i"

text \<open>The receiver of \<open>p\<close>'s stream has left phase \<open>j\<close> of epoch \<open>e\<close>; \<open>p\<close> has not moved.\<close>

definition delivered :: "party \<Rightarrow> u64 \<Rightarrow> bool \<Rightarrow> nat \<Rightarrow> nat \<Rightarrow> braid_system \<Rightarrow> bool" where
  "delivered p e r i j s \<longleftrightarrow> placed s p e r i \<and>
     ((\<exists>j' > j. placed s (other p) e (\<not> r) j') \<or> state_epoch (st_of s (other p)) = e + 1)"

definition streaming :: "party \<Rightarrow> u64 \<Rightarrow> bool \<Rightarrow> nat \<Rightarrow> nat \<Rightarrow> msg_type \<Rightarrow> braid_system \<Rightarrow> bool" where
  "streaming p e r i j mt s \<longleftrightarrow> placed s p e r i \<and> placed s (other p) e (\<not> r) j \<and>
     (\<exists>en. out_stream (st_of s p) = Some (mt, en)) \<and> in_stream (st_of s (other p)) mt \<noteq> None"

text \<open>After \<open>n\<close> exchanges without effect, the decoder holds a window of \<open>n\<close> codewords.\<close>

definition partway :: "braid_run \<Rightarrow> party \<Rightarrow> u64 \<Rightarrow> bool \<Rightarrow> nat \<Rightarrow> nat \<Rightarrow> msg_type \<Rightarrow> nat \<Rightarrow> braid_system \<Rightarrow> bool" where
  "partway R p e r i j mt n s \<longleftrightarrow> delivered p e r i j s \<or>
     placed s p e r i \<and> placed s (other p) e (\<not> r) j \<and> phase_ok R (st_of s (other p)) \<and>
     (\<exists>en d c. out_stream (st_of s p) = Some (mt, en) \<and> in_stream (st_of s (other p)) mt = Some d \<and>
        streams R (payload_of R mt e) en \<and> cursor en = c + n \<and>
        window (length (shards en)) c n \<subseteq> indices d \<and> (0 < n \<longrightarrow> \<not> has_message d))"

lemma out_stream_streams:
  "phase_ok R st \<Longrightarrow> out_stream st = Some (mt, en) \<Longrightarrow> streams R (payload_of R mt (state_epoch st)) en"
  by (cases st) auto

lemma in_stream_collects:
  "phase_ok R st \<Longrightarrow> in_stream st mt = Some d \<Longrightarrow> collects (run_ext R) (payload_of R mt (state_epoch st)) d"
  by (cases st) (auto split: if_splits)

lemma in_stream_not_idle: "in_stream st mt = Some d \<Longrightarrow> mt \<noteq> Idle"
  by (cases st) (auto split: if_splits)

lemma partway_step:
  assumes "run_ok R"
  shows "leads R 2 (partway R p e r i j mt n) (partway R p e r i j mt (Suc n))"
proof -
  let ?P = "\<lambda>s. partway R p e r i j mt n s \<and> \<not> delivered p e r i j s"
  have "leads R 2 ?P (partway R p e r i j mt (Suc n))"
  proof (rule leads_exchange [OF assms, where p = p])
    fix k s and b b' :: braid_state and out :: scka_send and out' :: scka_receive
    assume P: "?P s" and ok: "system_ok R k s" and lim: "k + 2 < 2 ^ 64 - 2"
      and snd: "state_send (run_ext R) (run_draw R (state_epoch (st_of s p))) (st_of s p)
        = Inr (braid_phase b, send_msg out, send_output_key out)"
      and m: "msg_ok R (send_msg out)"
      and rcv: "state_receive (run_ext R) (st_of s (other p)) (send_msg out)
        = Inr (braid_phase b', recv_output_key out')"
    let ?s = "after_receive (other p) b' out' (after_send p b out s)"
    from P obtain en d c where pl: "placed s p e r i" "placed s (other p) e (\<not> r) j"
      and en: "out_stream (st_of s p) = Some (mt, en)" and d: "in_stream (st_of s (other p)) mt = Some d"
      and st: "streams R (payload_of R mt e) en" and c: "cursor en = c + n"
      and w: "window (length (shards en)) c n \<subseteq> indices d"
      by (auto simp: partway_def)
    note out = send_stream [OF en snd]
    have here: "placed ?s p e r i"
      using pl(1) out(3) by (auto simp: placed_def same_place_def)
    have "ep s (other p) + 1 < 2 ^ 64" using system_okD(3) [OF ok, of "other p"] lim by simp
    then have ph: "phase_ok R (braid_phase b')"
      using state_receive_ok [OF assms m system_okD(1,6) [OF ok], of "other p"] rcv by auto
    have meta: "mtype (send_msg out) = mt" "msg_epoch (send_msg out) = state_epoch (st_of s (other p))"
      using out(1) pl by (simp_all add: message_carrying_def placed_def)
    from recv_stream [OF assms system_okD(1) [OF ok] d m meta system_okD(6) [OF ok] rcv]
    show "partway R p e r i j mt (Suc n) ?s"
    proof
      assume "moved_on (st_of s (other p)) (braid_phase b')"
      then have "delivered p e r i j ?s"
        using here pl(2) by (auto simp: delivered_def moved_on_def placed_def)
      then show ?thesis by (simp add: partway_def)
    next
      assume "same_place (st_of s (other p)) (braid_phase b') \<and>
        (\<exists>d'. add_msg_chunk d (send_msg out) = Inr d' \<and> in_stream (braid_phase b') mt = Some d' \<and> \<not> has_message d')"
      then obtain d' where sp: "same_place (st_of s (other p)) (braid_phase b')"
        and d': "add_msg_chunk d (send_msg out) = Inr d'" "in_stream (braid_phase b') mt = Some d'" "\<not> has_message d'"
        by blast
      have "indices d' = insert (of_nat (cursor en mod length (shards en))) (indices d)"
        using add_msg_indices [OF d'(1)] out(1) by (simp add: message_carrying_def next_chunk_def Let_def)
      then have "window (length (shards en)) c (Suc n) \<subseteq> indices d'"
        using w c by (auto simp: window_Suc)
      moreover have "placed ?s (other p) e (\<not> r) j"
        using pl(2) sp by (auto simp: placed_def same_place_def)
      ultimately show ?thesis
        unfolding partway_def using here ph d' out(2) st c
        by (intro disjI2 conjI exI [of _ "fst (next_chunk en)"] exI [of _ d'] exI [of _ c])
          (simp_all add: next_chunk_def streams_def Let_def)
    qed
  qed
  moreover have "leads R 2 (delivered p e r i j) (partway R p e r i j mt (Suc n))"
    by (rule leads_refl) (simp add: partway_def)
  ultimately have "leads R 2 (\<lambda>s. ?P s \<or> delivered p e r i j s) (partway R p e r i j mt (Suc n))"
    by (rule leads_cases)
  then show ?thesis by (rule leads_weaken) auto
qed

lemma partway_complete:
  assumes "run_ok R" and "partway R p e r i j mt (data_shards_for (length (payload_of R mt e))) s"
  shows "delivered p e r i j s"
proof (rule ccontr)
  let ?k = "data_shards_for (length (payload_of R mt e))"
  assume "\<not> delivered p e r i j s"
  with assms(2) obtain en d c where ph: "phase_ok R (st_of s (other p))" and e: "state_epoch (st_of s (other p)) = e"
    and d: "in_stream (st_of s (other p)) mt = Some d"
    and st: "streams R (payload_of R mt e) en" and w: "window (length (shards en)) c ?k \<subseteq> indices d"
    and nh: "\<not> has_message d"
    by (auto simp: partway_def placed_def)
  note fits = payload_fits [OF assms(1) in_stream_not_idle [OF d], of e]
  have col: "collects (run_ext R) (payload_of R mt e) d"
    using in_stream_collects [OF ph d] e by simp
  have N: "length (shards en) = ?k + recovery_shards_for (length (payload_of R mt e))"
    using st shards_of_props(1) [OF run_okD(2) [OF assms(1)] fits] by (simp add: streams_def)
  have "card (window (length (shards en)) c ?k) = ?k"
    using card_window [of ?k "length (shards en)" c] N fits by (simp add: erasure_fits_def)
  then have "?k \<le> card (indices d)"
    using card_mono [OF _ w] by (simp add: indices_def)
  then show False
    using nh has_message_card [of d] collects_shape [OF col] by (simp add: indices_def)
qed

lemma leads_stream:
  assumes "run_ok R"
  shows "leads R (2 * data_shards_for (length (payload_of R mt e))) (streaming p e r i j mt) (delivered p e r i j)"
proof -
  let ?k = "data_shards_for (length (payload_of R mt e))"
  have "leads R (?k * 2) (partway R p e r i j mt 0) (partway R p e r i j mt ?k)"
    by (rule leads_iterate) (rule partway_step [OF assms])
  then have it: "leads R (2 * ?k) (partway R p e r i j mt 0) (delivered p e r i j)"
    by (rule leads_weaken) (auto intro: partway_complete [OF assms])
  show ?thesis
  proof (rule leadsI)
    fix n s assume r: "braid_reach R n s" and b: "n + 2 * ?k < 2 ^ 64 - 2" and s: "streaming p e r i j mt s"
    have ok: "system_ok R n s" using reach_system_ok [OF r assms] b by simp
    have "partway R p e r i j mt 0 s"
      using s system_okD(1) [OF ok] out_stream_streams [OF system_okD(1) [OF ok], of p mt]
      by (fastforce simp: partway_def streaming_def placed_def window_def)
    then show "\<exists>j' \<le> 2 * ?k. \<exists>s'. braid_reach R (n + j') s' \<and> delivered p e r i j s'"
      using leadsD [OF it r b] by blast
  qed
qed

section \<open>The stages of an epoch\<close>

text \<open>\<open>q\<close> owns the epoch \<open>e\<close>'s key pair; \<open>i\<close> is its phase and \<open>j\<close> its peer's.\<close>

definition stage :: "party \<Rightarrow> u64 \<Rightarrow> nat \<Rightarrow> nat \<Rightarrow> braid_system \<Rightarrow> bool" where
  "stage q e i j s \<longleftrightarrow> placed s q e True i \<and> placed s (other q) e False j"

lemma stage_paired:
  assumes "in_lockstep s" and "stage q e i j s"
  shows "paired i j" and "i \<le> 4" and "j \<le> 5"
proof -
  have st: "state_epoch (st_of s q) = e" "is_owner (st_of s q)" "phase (st_of s q) = i"
    "state_epoch (st_of s (other q)) = e" "\<not> is_owner (st_of s (other q))" "phase (st_of s (other q)) = j"
    using assms(2) by (simp_all add: stage_def placed_def)
  from assms(1) show "paired i j"
  proof (cases rule: lockstep_cases [where p = q])
    case own
    then show ?thesis using st by (simp add: together_def)
  qed (use st in \<open>simp_all add: together_def ahead_def\<close>)
  show "i \<le> 4" "j \<le> 5"
    using phase_le [of "st_of s q"] phase_le [of "st_of s (other q)"] st by simp_all
qed

lemma phase_out_stream:
  "is_owner st \<Longrightarrow> phase st = 1 \<Longrightarrow> \<exists>en. out_stream st = Some (Hdr, en)"
  "is_owner st \<Longrightarrow> phase st = 3 \<Longrightarrow> \<exists>en. out_stream st = Some (EkCt1Ack, en)"
  "\<not> is_owner st \<Longrightarrow> phase st = 2 \<or> phase st = 3 \<Longrightarrow> \<exists>en. out_stream st = Some (Ct1, en)"
  "\<not> is_owner st \<Longrightarrow> phase st = 5 \<Longrightarrow> \<exists>en. out_stream st = Some (Ct2, en)"
  by (cases st; simp)+

lemma phase_in_stream:
  "\<not> is_owner st \<Longrightarrow> phase st = 0 \<Longrightarrow> in_stream st Hdr \<noteq> None"
  "is_owner st \<Longrightarrow> phase st = 2 \<Longrightarrow> in_stream st Ct1 \<noteq> None"
  "is_owner st \<Longrightarrow> phase st = 4 \<Longrightarrow> in_stream st Ct2 \<noteq> None"
  "\<not> is_owner st \<Longrightarrow> phase st = 4 \<Longrightarrow> in_stream st EkCt1Ack \<noteq> None"
  by (cases st; simp)+

text \<open>Single codewords that move a state on at once.\<close>

definition reacts :: "state \<Rightarrow> msg_type \<Rightarrow> bool" where
  "reacts st mt \<longleftrightarrow>
     is_owner st \<and> phase st = 1 \<and> mt = Ct1 \<or> is_owner st \<and> phase st = 3 \<and> mt = Ct2 \<or>
     \<not> is_owner st \<and> (phase st = 2 \<or> phase st = 3) \<and> mt = EkCt1Ack"

lemma recv_reacts:
  assumes "reacts st (mtype m)" and "msg_epoch m = state_epoch st"
    and "state_receive X st m = Inr (st', out)"
  shows "moved_on st st'"
  using assms
  by (cases st) (auto simp: reacts_def recv_defs moved_on_def Let_def split: sum.splits option.splits if_splits)

lemma leads_reaction:
  assumes "run_ok R"
    and "\<And>s. P s \<Longrightarrow> placed s p e r i \<and> placed s (other p) e (\<not> r) j \<and>
           (\<exists>en. out_stream (st_of s p) = Some (mt, en)) \<and> reacts (st_of s (other p)) mt"
  shows "leads R 2 P (delivered p e r i j)"
proof (rule leads_exchange [OF assms(1), where p = p])
  fix k s and b b' :: braid_state and out :: scka_send and out' :: scka_receive
  assume P: "P s"
    and snd: "state_send (run_ext R) (run_draw R (state_epoch (st_of s p))) (st_of s p)
        = Inr (braid_phase b, send_msg out, send_output_key out)"
    and rcv: "state_receive (run_ext R) (st_of s (other p)) (send_msg out)
        = Inr (braid_phase b', recv_output_key out')"
  from assms(2) [OF P] obtain en where pl: "placed s p e r i" "placed s (other p) e (\<not> r) j"
    and en: "out_stream (st_of s p) = Some (mt, en)" and re: "reacts (st_of s (other p)) mt" by blast
  note out = send_stream [OF en snd]
  have "moved_on (st_of s (other p)) (braid_phase b')"
    using recv_reacts [OF _ _ rcv] re out(1) pl by (simp add: message_carrying_def placed_def)
  then show "delivered p e r i j (after_receive (other p) b' out' (after_send p b out s))"
    using pl out(3) by (auto simp: delivered_def moved_on_def placed_def same_place_def)
qed

text \<open>The owner has closed epoch \<open>e\<close>; its peer awaits the next epoch's first message.\<close>

definition closed_by :: "party \<Rightarrow> u64 \<Rightarrow> braid_system \<Rightarrow> bool" where
  "closed_by q e s \<longleftrightarrow> state_epoch (st_of s q) = e + 1 \<and> placed s (other q) e False 5"

definition further :: "party \<Rightarrow> u64 \<Rightarrow> nat \<Rightarrow> braid_system \<Rightarrow> bool" where
  "further q e n s \<longleftrightarrow> closed_by q e s \<or> (\<exists>i j. stage q e i j s \<and> n \<le> i + j)"

lemma no_skip: "unat (e :: u64) \<noteq> unat (e + 1) + 1"
proof (cases "unat e + 1 < 2 ^ 64")
  case True
  then show ?thesis by (simp add: unat_add_one)
next
  case False
  moreover have "unat e < 2 ^ 64" using unsigned_less [of e] by simp
  ultimately have e: "unat e = 2 ^ 64 - 1" by simp
  then have "e = of_nat (2 ^ 64 - 1)" by (intro of_nat_eq_iff_unat [THEN iffD2]) simp_all
  then have "e + 1 = 0" by simp
  then show ?thesis using e by simp
qed

lemma delivered_by_owner:
  assumes "in_lockstep s" and "delivered q e True i j s" and "n \<le> i + j"
  shows "further q e (Suc n) s"
proof -
  have pl: "placed s q e True i" using assms(2) by (simp add: delivered_def)
  have "state_epoch (st_of s (other q)) \<noteq> e + 1"
    using assms(1) pl
    by (cases rule: lockstep_cases [where p = q]) (auto simp: together_def ahead_def placed_def)
  then obtain j' where "j < j'" "placed s (other q) e False j'"
    using assms(2) by (auto simp: delivered_def)
  with pl have "stage q e i j' s" "Suc n \<le> i + j'" using assms(3) by (simp_all add: stage_def)
  then show ?thesis unfolding further_def by blast
qed

lemma delivered_by_encapsulator:
  assumes "in_lockstep s" and "delivered (other q) e False j i s" and "n \<le> i + j"
  shows "further q e (Suc n) s"
proof -
  have pl: "placed s (other q) e False j" using assms(2) by (simp add: delivered_def)
  consider i' where "i < i'" "placed s q e True i'" | "state_epoch (st_of s q) = e + 1"
    using assms(2) by (auto simp: delivered_def)
  then show ?thesis
  proof cases
    case 1
    with pl have "stage q e i' j s" "Suc n \<le> i' + j" using assms(3) by (simp_all add: stage_def)
    then show ?thesis unfolding further_def by blast
  next
    case 2
    have "j = 5"
      using assms(1) pl 2 no_skip [of e]
      by (cases rule: lockstep_cases [where p = q]) (auto simp: together_def ahead_def placed_def)
    with pl 2 show ?thesis by (simp add: further_def closed_by_def)
  qed
qed

text \<open>The codeword count of the largest object bounds each stage.\<close>

definition stage_bound :: "braid_run \<Rightarrow> nat" where
  "stage_bound R = 2 * Max (data_shards_for ` {pk1_len (run_ext R) + MAC_SIZE, pk2_len (run_ext R),
                             ct1_len (run_ext R), ct2_len (run_ext R) + MAC_SIZE})"

lemma stage_bound_ge:
  assumes "run_ok R" and "mt \<noteq> Idle"
  shows "2 * data_shards_for (length (payload_of R mt e)) \<le> stage_bound R"
  using assms(2) pk_of_props(3) [OF assms(1)] encaps_of_props(2) [OF assms(1)] payload_lengths [OF assms(1)]
  by (cases mt) (auto simp: stage_bound_def)

lemma stage_bound_ge_2: "2 \<le> stage_bound R"
proof -
  have "0 < data_shards_for (pk2_len (run_ext R))" by simp
  then have "1 \<le> Max (data_shards_for ` {pk1_len (run_ext R) + MAC_SIZE, pk2_len (run_ext R),
                             ct1_len (run_ext R), ct2_len (run_ext R) + MAC_SIZE})"
    by (simp add: Suc_le_eq less_max_iff_disj)
  then show ?thesis by (simp add: stage_bound_def)
qed

lemma leads_further:
  assumes "run_ok R" and "leads R B P Q" and "B \<le> stage_bound R"
    and "\<And>s. stage q e i j s \<Longrightarrow> in_lockstep s \<Longrightarrow> P s"
    and "\<And>s. Q s \<Longrightarrow> in_lockstep s \<Longrightarrow> further q e (Suc (i + j)) s"
  shows "leads R (stage_bound R) (stage q e i j) (further q e (Suc (i + j)))"
proof (rule leads_invariant [OF assms(1)], rule leadsI)
  fix m s assume r: "braid_reach R m s" and b: "m + stage_bound R < 2 ^ 64 - 2"
    and s: "stage q e i j s \<and> in_lockstep s"
  obtain k s' where k: "k \<le> B" "braid_reach R (m + k) s'" "Q s'"
    using leadsD [OF assms(2) r] b assms(3,4) s by (metis (no_types, lifting) add_left_mono le_less_trans)
  have "in_lockstep s'" using reach_in_lockstep [OF k(2) assms(1)] k(1) assms(3) b by simp
  then show "\<exists>k \<le> stage_bound R. \<exists>s'. braid_reach R (m + k) s' \<and> further q e (Suc (i + j)) s'"
    using k assms(3,5) by (intro exI [of _ k]) auto
qed

lemma leads_owner_stream:
  assumes "run_ok R" and "mt \<noteq> Idle"
    and "\<And>s. stage q e i j s \<Longrightarrow> in_lockstep s \<Longrightarrow> streaming q e True i j mt s"
  shows "leads R (stage_bound R) (stage q e i j) (further q e (Suc (i + j)))"
  by (rule leads_further [OF assms(1) leads_stream [OF assms(1)] stage_bound_ge [OF assms(1,2)] assms(3)])
    (auto intro: delivered_by_owner)

lemma leads_encapsulator_stream:
  assumes "run_ok R" and "mt \<noteq> Idle"
    and "\<And>s. stage q e i j s \<Longrightarrow> in_lockstep s \<Longrightarrow> streaming (other q) e False j i mt s"
  shows "leads R (stage_bound R) (stage q e i j) (further q e (Suc (i + j)))"
  by (rule leads_further [OF assms(1) leads_stream [OF assms(1)] stage_bound_ge [OF assms(1,2)] assms(3)])
    (auto intro: delivered_by_encapsulator)

lemma leads_owner_reaction:
  assumes "run_ok R"
    and "\<And>s. stage q e i j s \<Longrightarrow>
           (\<exists>en. out_stream (st_of s q) = Some (mt, en)) \<and> reacts (st_of s (other q)) mt"
  shows "leads R (stage_bound R) (stage q e i j) (further q e (Suc (i + j)))"
proof -
  have "leads R 2 (stage q e i j) (delivered q e True i j)"
    using assms(2) by (intro leads_reaction [OF assms(1)]) (simp add: stage_def)
  then show ?thesis
    by (rule leads_further [OF assms(1) _ stage_bound_ge_2]) (auto intro: delivered_by_owner)
qed

lemma leads_encapsulator_reaction:
  assumes "run_ok R"
    and "\<And>s. stage q e i j s \<Longrightarrow>
           (\<exists>en. out_stream (st_of s (other q)) = Some (mt, en)) \<and> reacts (st_of s q) mt"
  shows "leads R (stage_bound R) (stage q e i j) (further q e (Suc (i + j)))"
proof -
  have "leads R 2 (stage q e i j) (delivered (other q) e False j i)"
    using assms(2) by (intro leads_reaction [OF assms(1)]) (simp add: stage_def)
  then show ?thesis
    by (rule leads_further [OF assms(1) _ stage_bound_ge_2]) (auto intro: delivered_by_encapsulator)
qed

text \<open>The two draws: key generation and encapsulation.\<close>

lemma state_send_draws:
  assumes "state_send X rng st = Inr (st', m, out)"
    and "is_owner st \<and> phase st = 0 \<or> \<not> is_owner st \<and> phase st = 1"
  shows "phase st' = Suc (phase st)"
  using assms
  by (cases st; force simp: send_defs Let_def split_beta split: sum.splits prod.splits)

lemma leads_draw:
  assumes "run_ok R" and "i = 0 \<and> j = 0 \<or> i = 1 \<and> j = 1"
  shows "leads R (stage_bound R) (stage q e i j) (further q e (Suc (i + j)))"
proof -
  let ?p = "if i = 0 then q else other q"
  have "leads R 1 (stage q e i j) (\<lambda>s. \<exists>i' j'. stage q e i' j' s \<and> Suc (i + j) \<le> i' + j')"
  proof (rule leads_send [OF assms(1), where p = ?p])
    fix s and b :: braid_state and out :: scka_send
    assume st: "stage q e i j s"
      and snd: "state_send (run_ext R) (run_draw R (state_epoch (st_of s ?p))) (st_of s ?p)
        = Inr (braid_phase b, send_msg out, send_output_key out)"
    have "phase (braid_phase b) = Suc (phase (st_of s ?p))"
      using st assms(2) state_send_draws [OF snd] by (auto simp: stage_def placed_def)
    then have "stage q e (if i = 0 then 1 else i) (if i = 0 then j else 2) (after_send ?p b out s)"
      using st assms(2) state_send_local(1,2) [OF snd] by (auto simp: stage_def placed_def)
    then show "\<exists>i' j'. stage q e i' j' (after_send ?p b out s) \<and> Suc (i + j) \<le> i' + j'"
      using assms(2) by (intro exI conjI) auto
  qed
  then show ?thesis
    by (rule leads_further [OF assms(1)]) (use stage_bound_ge_2 [of R] in \<open>auto simp: further_def\<close>)
qed

lemma leads_stage:
  assumes "run_ok R" and "paired i j" and "i \<le> 4" and "j \<le> 5"
  shows "leads R (stage_bound R) (stage q e i j) (further q e (Suc (i + j)))"
proof -
  have "(i = 0 \<and> j = 0 \<or> i = 1 \<and> j = 1) \<or> (i = 1 \<and> j = 0) \<or> (i = 1 \<and> j = 2) \<or> (i = 2 \<and> (j = 2 \<or> j = 3)) \<or>
      (i = 3 \<and> (j = 2 \<or> j = 3)) \<or> (i = 3 \<and> j = 4) \<or> (i = 3 \<and> j = 5) \<or> (i = 4 \<and> j = 5)"
    using assms(2-4) unfolding paired_def by presburger
  then consider (draw) "i = 0 \<and> j = 0 \<or> i = 1 \<and> j = 1" | (hdr) "i = 1" "j = 0" | (ct1) "i = 1" "j = 2"
    | (ct1s) "i = 2" "j = 2 \<or> j = 3" | (ack) "i = 3" "j = 2 \<or> j = 3" | (acks) "i = 3" "j = 4"
    | (ct2) "i = 3" "j = 5" | (ct2s) "i = 4" "j = 5"
    by blast
  then show ?thesis
  proof cases
    case draw
    then show ?thesis by (rule leads_draw [OF assms(1)])
  next
    case hdr
    then show ?thesis
      by (intro leads_owner_stream [OF assms(1), of Hdr])
        (auto simp: streaming_def stage_def placed_def intro: phase_out_stream dest: phase_in_stream(1))
  next
    case ct1
    then show ?thesis
      by (intro leads_encapsulator_reaction [OF assms(1), of q e i j Ct1])
        (auto simp: stage_def placed_def reacts_def intro: phase_out_stream)
  next
    case ct1s
    then show ?thesis
      by (intro leads_encapsulator_stream [OF assms(1), of Ct1])
        (auto simp: streaming_def stage_def placed_def intro: phase_out_stream dest: phase_in_stream(2))
  next
    case ack
    then show ?thesis
      by (intro leads_owner_reaction [OF assms(1), of q e i j EkCt1Ack])
        (auto simp: stage_def placed_def reacts_def intro: phase_out_stream)
  next
    case acks
    then show ?thesis
      by (intro leads_owner_stream [OF assms(1), of EkCt1Ack])
        (auto simp: streaming_def stage_def placed_def intro: phase_out_stream dest: phase_in_stream(4))
  next
    case ct2
    then show ?thesis
      by (intro leads_encapsulator_reaction [OF assms(1), of q e i j Ct2])
        (auto simp: stage_def placed_def reacts_def intro: phase_out_stream)
  next
    case ct2s
    then show ?thesis
      by (intro leads_encapsulator_stream [OF assms(1), of Ct2])
        (auto simp: streaming_def stage_def placed_def intro: phase_out_stream dest: phase_in_stream(3))
  qed
qed

section \<open>An epoch completes\<close>

lemma leads_further_step:
  assumes "run_ok R"
  shows "leads R (stage_bound R) (further q e n) (further q e (Suc n))"
proof (rule leads_invariant [OF assms], rule leadsI)
  fix m s assume r: "braid_reach R m s" and b: "m + stage_bound R < 2 ^ 64 - 2"
    and s: "further q e n s \<and> in_lockstep s"
  then consider "closed_by q e s" | i j where "stage q e i j s" "n \<le> i + j"
    by (auto simp: further_def)
  then show "\<exists>k \<le> stage_bound R. \<exists>s'. braid_reach R (m + k) s' \<and> further q e (Suc n) s'"
  proof cases
    case 1
    then show ?thesis using r by (intro exI [of _ 0]) (auto simp: further_def)
  next
    case 2
    note pr = stage_paired [OF conjunct2 [OF s] 2(1)]
    obtain k s' where "k \<le> stage_bound R" "braid_reach R (m + k) s'" "further q e (Suc (i + j)) s'"
      using leadsD [OF leads_stage [OF assms pr] r b 2(1)] by blast
    moreover have "further q e (Suc (i + j)) s' \<Longrightarrow> further q e (Suc n) s'"
      using 2(2) unfolding further_def by (meson Suc_le_mono le_trans)
    ultimately show ?thesis by blast
  qed
qed

lemma leads_closed:
  assumes "run_ok R"
  shows "leads R (10 * stage_bound R) (stage q e i j) (closed_by q e)"
proof -
  have it: "leads R (10 * stage_bound R) (further q e 0) (further q e 10)"
    by (rule leads_iterate [where P = "further q e"]) (rule leads_further_step [OF assms])
  show ?thesis
  proof (rule leadsI)
    fix m s assume r: "braid_reach R m s" and b: "m + 10 * stage_bound R < 2 ^ 64 - 2" and "stage q e i j s"
    then have "further q e 0 s" by (auto simp: further_def)
    then obtain k s' where k: "k \<le> 10 * stage_bound R" "braid_reach R (m + k) s'" "further q e 10 s'"
      using leadsD [OF it r b] by blast
    have "in_lockstep s'" using reach_in_lockstep [OF k(2) assms] k(1) b by simp
    then have "closed_by q e s'" using k(3) stage_paired by (fastforce simp: further_def)
    then show "\<exists>k \<le> 10 * stage_bound R. \<exists>s'. braid_reach R (m + k) s' \<and> closed_by q e s'"
      using k by blast
  qed
qed

text \<open>The closing message: the first message of the new epoch moves the peer there too.\<close>

lemma leads_next_epoch:
  assumes "run_ok R"
  shows "leads R 2 (closed_by q e)
    (\<lambda>s. state_epoch (st_of s q) = e + 1 \<and> state_epoch (st_of s (other q)) = e + 1)"
proof (rule leads_exchange [OF assms, where p = q])
  fix k s and b b' :: braid_state and out :: scka_send and out' :: scka_receive
  assume c: "closed_by q e s"
    and snd: "state_send (run_ext R) (run_draw R (state_epoch (st_of s q))) (st_of s q)
        = Inr (braid_phase b, send_msg out, send_output_key out)"
    and rcv: "state_receive (run_ext R) (st_of s (other q)) (send_msg out)
        = Inr (braid_phase b', recv_output_key out')"
  have m: "msg_epoch (send_msg out) = e + 1" "state_epoch (braid_phase b) = e + 1"
    using state_send_local(1,4) [OF snd] c by (simp_all add: closed_by_def)
  obtain a en where "st_of s (other q) = Ct2Sampled e a en"
    using c by (cases "st_of s (other q)") (auto simp: closed_by_def placed_def)
  then have "braid_phase b' = KeysUnsampled (e + 1) a"
    using rcv m(1) by (simp add: recv_ct2_sampled_def)
  then have "state_epoch (braid_phase b') = e + 1" by simp
  then show "state_epoch (st_of (after_receive (other q) b' out' (after_send q b out s)) q) = e + 1 \<and>
      state_epoch (st_of (after_receive (other q) b' out' (after_send q b out s)) (other q)) = e + 1"
    using m(2) by simp
qed

end
