(* ===== verification/Braid_Agreement.thy ===== *)
theory Braid_Agreement
  imports Braid_Progress
begin

text \<open>
  The contract of the braid as a whole: in every run of two honest parties over a network
  that loses, reorders and duplicates, the parties agree on every epoch's secret, no honest
  message is ever rejected, the receiver of a message always knows the secret it is keyed
  under, and the epoch can always be completed.
\<close>

section \<open>A concrete run\<close>

definition demo_run :: braid_run where
  "demo_run = \<lparr>run_ext = demo_ext, run_draw = (\<lambda>e n. zeros n), run_seed = zeros 32\<rparr>"

lemma demo_fits: "0 < n \<Longrightarrow> n \<le> 32 \<Longrightarrow> erasure_fits demo_ext n"
  by (auto simp: erasure_fits_def demo_ext_def data_shards_for_def recovery_shards_for_def
      div_ceil_def CHUNK_BYTES_def RECOVERY_MULTIPLE_def MAX_RECOVERY_SHARDS_def)

lemma demo_run_ok: "run_ok demo_run"
  by (simp add: run_ok_def demo_run_def demo pk1_len_def pk2_len_def ct1_len_def ct2_len_def
      MAC_SIZE_def demo_fits)

lemma demo_stage_bound: "stage_bound demo_run = 2"
  by (simp add: stage_bound_def demo_run_def demo_ext_def pk1_len_def pk2_len_def ct1_len_def
      ct2_len_def MAC_SIZE_def data_shards_for_def div_ceil_def CHUNK_BYTES_def)

section \<open>Completing an epoch\<close>

lemma leads_epoch:
  assumes "run_ok R" and "braid_reach R n s" and "n + (10 * stage_bound R + 2) < 2 ^ 64 - 2"
  shows "\<exists>j \<le> 10 * stage_bound R + 2. \<exists>s'. braid_reach R (n + j) s' \<and>
           (\<forall>p. ep s' p = Suc (min (ep s Alice) (ep s Bob)))"
proof -
  have ok: "system_ok R n s" and ls: "in_lockstep s"
    using reach_system_ok [OF assms(2,1)] reach_in_lockstep [OF assms(2,1)] assms(3) by auto
  have suc: "unat (state_epoch (st_of s p) + 1) = Suc (ep s p)" for p
    using system_okD(3) [OF ok, of p] assms(3) by (simp add: unat_add_one)
  have both: "(\<forall>p. ep s' p = k)" if "ep s' q = k" "ep s' (other q) = k" for s' q k
    using that other_cases by metis
  from ls obtain q where "together s q \<or> ahead s q" by (auto simp: in_lockstep_def)
  then show ?thesis
  proof
    assume t: "together s q"
    then have "stage q (state_epoch (st_of s q)) (phase (st_of s q)) (phase (st_of s (other q))) s"
      by (auto simp: together_def stage_def placed_def)
    from leadsD [OF leads_trans [OF leads_closed [OF assms(1)] leads_next_epoch [OF assms(1)]] assms(2,3) this]
    obtain j s' where "j \<le> 10 * stage_bound R + 2" "braid_reach R (n + j) s'"
      "state_epoch (st_of s' q) = state_epoch (st_of s q) + 1"
      "state_epoch (st_of s' (other q)) = state_epoch (st_of s q) + 1" by blast
    moreover have "min (ep s Alice) (ep s Bob) = ep s q"
      using t by (cases q) (auto simp: together_def)
    ultimately show ?thesis using both [of s' q] suc by (metis (no_types, lifting))
  next
    assume a: "ahead s q"
    then have "closed_by q (state_epoch (st_of s (other q))) s"
      using suc [of "other q"] by (auto simp: ahead_def closed_by_def placed_def simp flip: unat_inject)
    moreover have "n + 2 < 2 ^ 64 - 2" using assms(3) by simp
    ultimately obtain j s' where "j \<le> 2" "braid_reach R (n + j) s'"
      "state_epoch (st_of s' q) = state_epoch (st_of s (other q)) + 1"
      "state_epoch (st_of s' (other q)) = state_epoch (st_of s (other q)) + 1"
      using leadsD [OF leads_next_epoch [OF assms(1)] assms(2)] by blast
    moreover have "min (ep s Alice) (ep s Bob) = ep s (other q)"
      using a by (cases q) (auto simp: ahead_def)
    ultimately show ?thesis using both [of s' q] suc [of "other q"]
      by (intro exI [of _ j]) (auto intro!: exI [of _ s'])
  qed
qed

lemma emitted_iff:
  assumes "in_lockstep s" and "0 < e"
  shows "(\<exists>es \<in> emitted s p. unat (es_epoch es) = e) \<longleftrightarrow>
           e < ep s p \<or> e = ep s p \<and> \<not> is_owner (st_of s p) \<and> 2 \<le> phase (st_of s p)"
proof -
  have "e \<in> unat ` es_epoch ` emitted s p \<longleftrightarrow>
      e < ep s p \<or> e = ep s p \<and> \<not> is_owner (st_of s p) \<and> 2 \<le> phase (st_of s p)"
    using assms by (simp add: in_lockstep_def emitted_ok_def)
  then show ?thesis by (auto simp: image_iff)
qed

lemma demo_epoch_1:
  "\<exists>n s. braid_reach demo_run n s \<and> n < 2 ^ 64 - 2 \<and>
     (\<forall>p. \<exists>es \<in> emitted s p. es_epoch es = 1)"
proof -
  have "\<exists>j \<le> 22. \<exists>s'. braid_reach demo_run (0 + j) s' \<and>
      (\<forall>p. ep s' p = Suc (min (ep (system_init demo_run) Alice) (ep (system_init demo_run) Bob)))"
    using leads_epoch [OF demo_run_ok reach_init] by (simp add: demo_stage_bound)
  then obtain j s where r: "j \<le> 22" "braid_reach demo_run j s" and e: "\<And>p. ep s p = 2"
    by (auto simp: system_init_def init_sender_def init_receiver_def INITIAL_EPOCH_def)
  have "in_lockstep s" using reach_in_lockstep [OF r(2) demo_run_ok] r(1) by simp
  then have "\<exists>es \<in> emitted s p. unat (es_epoch es) = 1" for p
    using emitted_iff [of s 1 p] e by simp
  then have "\<exists>es \<in> emitted s p. es_epoch es = 1" for p by (metis unat_1 unat_inject)
  then show ?thesis using r by (intro exI [of _ j] exI [of _ s]) auto
qed

section \<open>Properties\<close>

text \<open>
  C9. Epoch agreement. However the network treats the messages of two honest parties, a
  secret that one of them outputs for an epoch and a secret that the other outputs for the
  same epoch are equal; so are two outputs of one party for one epoch.
\<close>

theorem braid_agreement:
  assumes "run_ok R" and "braid_reach R n s" and "n < 2 ^ 64 - 2"
    and "x \<in> emitted s p" and "y \<in> emitted s q" and "es_epoch x = es_epoch y"
  shows "es_secret x = es_secret y"
  using system_okD(5) [OF reach_system_ok [OF assms(2,1,3)]] assms(4-6) by metis

theorem braid_agreement_witness:
  "\<exists>n s x y. braid_reach demo_run n s \<and> n < 2 ^ 64 - 2 \<and> x \<in> emitted s Alice \<and> y \<in> emitted s Bob \<and>
     es_epoch x = 1 \<and> es_epoch y = 1 \<and> es_secret x = es_secret y"
proof -
  obtain n s where r: "braid_reach demo_run n s" "n < 2 ^ 64 - 2"
    and e: "\<And>p. \<exists>es \<in> emitted s p. es_epoch es = 1"
    using demo_epoch_1 by blast
  obtain x y where xy: "x \<in> emitted s Alice" "es_epoch x = 1" "y \<in> emitted s Bob" "es_epoch y = 1"
    using e by blast
  have "es_secret x = es_secret y" using braid_agreement [OF demo_run_ok r xy(1,3)] xy by simp
  with r xy show ?thesis by blast
qed

text \<open>
  C24. No honest failure. In every reachable state, either party's next send succeeds and
  either party accepts every message the other has ever sent, late and duplicated ones
  included.
\<close>

theorem braid_never_rejects:
  assumes "run_ok R" and "braid_reach R n s" and "n < 2 ^ 64 - 2"
  shows "(\<exists>b out. braid_send (run_ext R) (run_draw R (state_epoch (st_of s p))) (parties s p) = (b, Inr out)) \<and>
         (\<forall>m \<in> wire s (other p). \<exists>b out. braid_receive (run_ext R) (parties s p) m = (b, Inr out))"
proof -
  have ok: "system_ok R n s" using reach_system_ok [OF assms(2,1,3)] .
  have lim: "ep s p + 1 < 2 ^ 64" using system_okD(3) [OF ok, of p] assms(3) by simp
  have "\<exists>b out. braid_send (run_ext R) (run_draw R (state_epoch (st_of s p))) (parties s p) = (b, Inr out)"
  proof (cases "snd (braid_send (run_ext R) (run_draw R (state_epoch (st_of s p))) (parties s p))")
    case (Inl e)
    then show ?thesis
      using state_send_ok [OF assms(1) system_okD(1,6) [OF ok], of p] braid_send_Inl
      by (metis prod.collapse sum.distinct(1))
  qed (metis prod.collapse)
  moreover have "\<exists>b out. braid_receive (run_ext R) (parties s p) m = (b, Inr out)" if "m \<in> wire s (other p)" for m
  proof (cases "snd (braid_receive (run_ext R) (parties s p) m)")
    case (Inl e)
    then show ?thesis
      using state_receive_ok [OF assms(1) system_okD(4) [OF ok that] system_okD(1,6) [OF ok] lim] braid_receive_Inl
      by (metis prod.collapse sum.distinct(1))
  qed (metis prod.collapse)
  ultimately show ?thesis by blast
qed

theorem braid_never_rejects_witness:
  "\<exists>n s. braid_reach demo_run n s \<and> n < 2 ^ 64 - 2 \<and> emitted s Alice \<noteq> {} \<and>
     (\<forall>m \<in> wire s Bob. \<exists>b out. braid_receive (run_ext demo_run) (parties s Alice) m = (b, Inr out))"
proof -
  obtain n s where r: "braid_reach demo_run n s" "n < 2 ^ 64 - 2"
    and e: "\<And>p. \<exists>es \<in> emitted s p. es_epoch es = 1"
    using demo_epoch_1 by blast
  show ?thesis
    using braid_never_rejects [OF demo_run_ok r, of Alice] r e [of Alice]
    by (intro exI [of _ n] exI [of _ s]) auto
qed



text \<open>
  C26. Progress. From every reachable state the epoch can be completed: some continuation, no
  longer than ten times the codewords of the largest object plus a constant, brings both
  parties to the epoch after the one the slower party is in.
\<close>

theorem braid_progress:
  assumes "run_ok R" and "braid_reach R n s" and "n + (10 * stage_bound R + 2) < 2 ^ 64 - 2"
  shows "\<exists>j \<le> 10 * stage_bound R + 2. \<exists>s'. braid_reach R (n + j) s' \<and>
           (\<forall>p. ep s' p = Suc (min (ep s Alice) (ep s Bob)))"
  using assms by (rule leads_epoch)

theorem braid_progress_witness:
  "\<exists>j \<le> 22. \<exists>s'. braid_reach demo_run j s' \<and> (\<forall>p. ep s' p = 2)"
  using braid_progress [OF demo_run_ok reach_init]
  by (simp add: demo_stage_bound)
    (simp add: system_init_def init_sender_def init_receiver_def INITIAL_EPOCH_def numeral_2_eq_2)

end
