(* ===== verification/Spqr_Agreement.thy ===== *)
theory Spqr_Agreement
  imports Spqr_Honest Spqr_Life Braid_Agreement
begin

text \<open>
  The contract of SPQR between two honest parties: the key a receiver derives for a message
  is the key its sender used, for every message the network delivers, in any order, across
  epoch changes; and a message of a recent epoch is always accepted.
\<close>

section \<open>Receiving on the schedule\<close>

lemma moved_on_schedule:
  assumes "on_schedule R p s" and mv: "only_recv_moved s s'" and "spqr_good (run_ext R) (pq_key R (other p)) s'"
  shows "on_schedule R p s'"
proof -
  note h = on_scheduleD [OF assms(1)]
  have "sends_follow R p s'"
    unfolding sends_follow_def
  proof (intro allI impI, elim conjE)
    fix e c ch assume c: "map_of (kdfchains s') e = Some c" "ec_send c = Some ch"
    then obtain c0 where "map_of (kdfchains s) e = Some c0" "ec_send c0 = Some ch" using moved_origin [OF mv c(1)] by auto
    then show "scka.follows (run_ext R) (pq_sched R p e) ch" using sends_followD [OF h(4)] by blast
  qed
  moreover have "unat e \<le> unat (spqr_epoch s)" if "map_of (kdfchains s') e \<noteq> None" for e
    using that moved_origin [OF mv] h(3) by blast
  ultimately show ?thesis
    using h mv assms(3) by (simp add: on_schedule_def only_recv_moved_def)
qed

lemma moved_send_bound:
  assumes "send_bound k s" and mv: "only_recv_moved s s'"
  shows "send_bound k s'"
  unfolding send_bound_def
proof (intro allI impI, elim conjE)
  fix e c ch assume c: "map_of (kdfchains s') e = Some c" "ec_send c = Some ch"
  then obtain c0 where "map_of (kdfchains s) e = Some c0" "ec_send c0 = Some ch" using moved_origin [OF mv c(1)] by auto
  then show "unat (sc_n ch) \<le> k" using assms(1) unfolding send_bound_def by blast
qed

text \<open>The state of the braid step: one more epoch at most, the older chains as they were.\<close>

lemma absorbed_honest:
  assumes "run_ok R" and "spqr_shape s" and "phase_ok R (braid_st s)" and "on_schedule R p s"
    and "msg_ok R m" and lim: "spqr_now s + 1 < 2 ^ 64" and "send_bound j s"
    and b: "braid_receive (run_ext R) (spqr_braid s) m = (b, Inr rcv)"
  shows "on_schedule R p (absorbed (run_ext R) b rcv s)" and "send_bound j (absorbed (run_ext R) b rcv s)"
    and "\<And>e. unat e \<le> unat (spqr_epoch s) \<Longrightarrow> recv_chain (absorbed (run_ext R) b rcv s) e = recv_chain s e"
    and "\<And>e n. stored (absorbed (run_ext R) b rcv s) e n = stored s e n"
proof -
  let ?X = "run_ext R" and ?a = "absorbed (run_ext R) b rcv s"
  have rcv: "state_receive ?X (braid_st s) m = Inr (braid_phase b, recv_output_key rcv)"
    using b by (simp add: braid_receive_Inr)
  have sec: "secret_ok R (recv_output_key rcv)"
    using state_receive_ok [OF assms(1,5,3) spqr_shapeD(1) [OF assms(2)] lim] rcv by auto
  have "on_schedule R p ?a \<and> send_bound j ?a \<and>
    (\<forall>e. unat e \<le> unat (spqr_epoch s) \<longrightarrow> recv_chain ?a e = recv_chain s e) \<and> (\<forall>e n. stored ?a e n = stored s e n)"
  proof (cases "recv_output_key rcv")
    case None
    then show ?thesis using assms(4,7) by (simp add: absorbed_def recv_chain_def stored_def send_bound_def)
  next
    case (Some es)
    note suc = absorbed_shape(5) [OF assms(2) b lim Some]
    have es: "es_secret es = ss_of R (es_epoch es)" using sec Some by (simp add: secret_ok_def)
    obtain x c where a: "kdfchains ?a = btree_insert (es_epoch es) \<lparr>ec_send = Some (scka_new x), ec_recv = c\<rparr> (kdfchains s)"
      "mkskipped ?a = mkskipped s"
      using add_epoch_ok [of "es_epoch es" "s\<lparr>spqr_braid := b\<rparr>" ?X "es_secret es"] suc Some
      by (auto simp: Let_def split_beta absorbed_def)
    have "on_schedule R p ?a"
      using on_schedule_add_epoch [of R p "s\<lparr>spqr_braid := b\<rparr>" "es_epoch es"] assms(4) suc Some es
      by (simp add: absorbed_def)
    moreover have "send_bound j ?a"
      using a(1) assms(7) by (auto simp: send_bound_def scka_new_def split: if_splits)
    moreover have "recv_chain ?a e = recv_chain s e" if "unat e \<le> unat (spqr_epoch s)" for e
    proof -
      have "e \<noteq> es_epoch es" using that suc by auto
      then show ?thesis using a(1) by (simp add: recv_chain_def)
    qed
    ultimately show ?thesis using a(2) by (simp add: stored_def)
  qed
  then show "on_schedule R p ?a" "send_bound j ?a"
    "\<And>e. unat e \<le> unat (spqr_epoch s) \<Longrightarrow> recv_chain ?a e = recv_chain s e"
    "\<And>e n. stored ?a e n = stored s e n" by simp_all
qed

lemma braid_receive_accepts:
  assumes "run_ok R" and "phase_ok R (braid_phase b)" and "msg_ok R m"
    and "state_epoch (braid_phase b) \<noteq> 0" and "unat (state_epoch (braid_phase b)) + 1 < 2 ^ 64"
  shows "\<exists>b' rcv. braid_receive (run_ext R) b m = (b', Inr rcv)"
proof (cases "snd (braid_receive (run_ext R) b m)")
  case (Inl e)
  then show ?thesis
    using state_receive_ok [OF assms(1,3,2,4,5)] braid_receive_Inl by (metis prod.collapse sum.distinct(1))
qed (metis prod.collapse)

lemma ratchet_receive_key_honest:
  assumes "run_ok R" and "spqr_shape s" and "phase_ok R (braid_st s)" and "on_schedule R p s"
    and "msg_ok R m" and lim: "spqr_now s + 1 < 2 ^ 64" and "send_bound j s"
    and r: "ratchet_receive_key (run_ext R) m k s = (s', r)"
  shows "on_schedule R p s' \<and> send_bound j s' \<and>
    (\<forall>mk. r = Inr mk \<longrightarrow> mk = pq_key R (other p) (saturating_sub (msg_epoch m) 1, k)) \<and>
    (\<exists>rcv. braid_receive (run_ext R) (spqr_braid s) m = (spqr_braid s', Inr rcv))"
proof -
  let ?X = "run_ext R"
  obtain b rcv where b: "braid_receive ?X (spqr_braid s) m = (b, Inr rcv)"
    using braid_receive_accepts [OF assms(1,3,5) spqr_shapeD(1) [OF assms(2)] lim] by blast
  note ab = absorbed_honest [OF assms(1-5) lim assms(7) b]
  have d: "derive_receive_key ?X (receiving_epoch rcv) k (absorbed ?X b rcv s) = (s', r)"
    using ratchet_receive_key_view [OF assms(2) b lim] r by simp
  then have mv: "only_recv_moved (absorbed ?X b rcv s) s'" using derive_receive_key_moved by (metis fst_conv)
  note good = derive_receive_key_good [OF on_scheduleD(5) [OF ab(1)] d]
  have "spqr_braid s' = b"
    using mv absorbed_shape(2) [OF assms(2) b lim] by (simp add: only_recv_moved_def)
  moreover have "receiving_epoch rcv = saturating_sub (msg_epoch m) 1"
    using b by (simp add: braid_receive_Inr)
  ultimately show ?thesis
    using good moved_on_schedule [OF ab(1) mv] moved_send_bound [OF ab(2) mv] b by auto
qed

text \<open>A key that is stored, or ahead of the chain within the skip limit, is found.\<close>

lemma derive_finds:
  assumes "spqr_good X K s" and "recv_chain s e = Some c" and "0 < n"
    and "stored s e n \<noteq> None \<or> sc_n c < n \<and> unat n \<le> unat (sc_n c) + unat MAX_SKIP + 1"
    and "unat n + unat MAX_SKIP < 2 ^ 32"
  shows "snd (derive_receive_key X e n s) = Inr (K (e, n))"
proof -
  obtain s' r where d: "derive_receive_key X e n s = (s', r)" by (metis surj_pair)
  show ?thesis
  proof (cases "stored s e n")
    case (Some mk)
    then obtain s1 where "try_skipped e n s = (s1, Some mk)"
      by (auto simp: try_skipped_def stored_def bind_eq_Some_conv Let_def)
    then show ?thesis using spqr_good_stored [OF assms(1) Some] by (simp add: derive_receive_key_def)
  next
    case None
    then have lt: "sc_n c < n" and gap: "unat n \<le> unat (sc_n c) + unat MAX_SKIP + 1" using assms(4) by auto
    have "unat (n - 1) = unat n - 1" using assms(3) unat_sub [of 1 n] by (simp add: word_le_nat_alt word_less_nat_alt)
    moreover have "unat (sc_n c + MAX_SKIP) = unat (sc_n c) + unat MAX_SKIP"
      using lt assms(5) by (subst unat_word_ariths(1)) (simp add: word_less_nat_alt)
    ultimately have "\<not> sc_n c + MAX_SKIP < n - 1" using gap by (simp add: word_less_nat_alt)
    then show ?thesis using derive_ahead [OF assms(1,2) None lt d] d by auto
  qed
qed


section \<open>Two parties\<close>

text \<open>
  As for the braid, the network may lose, reorder, delay and duplicate: \<open>carried p\<close> is the
  set of (codeword, counter, key) triples \<open>p\<close> has sent, the key kept for comparison only.
  A receive counts whether or not it yields a key.
\<close>

record spqr_system =
  peers :: "party \<Rightarrow> spqr_state"
  carried :: "party \<Rightarrow> (message \<times> u32 \<times> message_key) set"

definition spqr_system_init :: "ext \<Rightarrow> bytes \<Rightarrow> spqr_system" where
  "spqr_system_init X ss = \<lparr>peers = (\<lambda>p. spqr_init X ss (dir p)), carried = (\<lambda>_. {})\<rparr>"

inductive spqr_reach :: "braid_run \<Rightarrow> bytes \<Rightarrow> nat \<Rightarrow> spqr_system \<Rightarrow> bool" for R ss where
  spqr_start: "spqr_reach R ss 0 (spqr_system_init (run_ext R) ss)"
| spqr_sends: "spqr_reach R ss n S \<Longrightarrow>
     ratchet_send_key (run_ext R) (run_draw R (state_epoch (braid_st (peers S p)))) (peers S p) = (s', Inr out) \<Longrightarrow>
     spqr_reach R ss (Suc n) (S\<lparr>peers := (peers S)(p := s'), carried := (carried S)(p := insert out (carried S p))\<rparr>)"
| spqr_receives: "spqr_reach R ss n S \<Longrightarrow> (m, k, mk) \<in> carried S (other p) \<Longrightarrow>
     ratchet_receive_key (run_ext R) m k (peers S p) = (s', r) \<Longrightarrow>
     spqr_reach R ss (Suc n) (S\<lparr>peers := (peers S)(p := s')\<rparr>)"

text \<open>Underneath runs the braid system.\<close>

definition braid_below :: "braid_run \<Rightarrow> nat \<Rightarrow> spqr_system \<Rightarrow> braid_system \<Rightarrow> bool" where
  "braid_below R n S B \<longleftrightarrow> braid_reach R n B \<and> (\<forall>p. parties B p = spqr_braid (peers S p)) \<and>
     (\<forall>p. wire B p = fst ` carried S p)"

definition pq_system_ok :: "braid_run \<Rightarrow> nat \<Rightarrow> spqr_system \<Rightarrow> bool" where
  "pq_system_ok R n S \<longleftrightarrow>
     (\<exists>B. braid_below R n S B) \<and>
     (\<forall>p. spqr_shape (peers S p) \<and> on_schedule R p (peers S p) \<and> send_bound n (peers S p) \<and>
        (\<forall>(m, k, mk) \<in> carried S p. mk = pq_key R p (saturating_sub (msg_epoch m) 1, k) \<and> 0 < k \<and> unat k \<le> n))"

lemma pq_system_okD:
  assumes "pq_system_ok R n S"
  shows "\<exists>B. braid_below R n S B" "spqr_shape (peers S p)" "on_schedule R p (peers S p)" "send_bound n (peers S p)"
    "(m, k, mk) \<in> carried S p \<Longrightarrow> mk = pq_key R p (saturating_sub (msg_epoch m) 1, k)"
    "(m, k, mk) \<in> carried S p \<Longrightarrow> 0 < k" "(m, k, mk) \<in> carried S p \<Longrightarrow> unat k \<le> n"
  using assms by (fastforce simp: pq_system_ok_def)+

text \<open>What the braid system gives each party.\<close>

lemma braid_belowD:
  assumes "braid_below R n S B" and "run_ok R" and "n < 2 ^ 64 - 2"
  shows "phase_ok R (braid_st (peers S p))" "spqr_now (peers S p) + 1 < 2 ^ 64" "in_lockstep B"
    "(m, k, mk) \<in> carried S p \<Longrightarrow> msg_ok R m"
proof -
  have ok: "system_ok R n B" and ls: "in_lockstep B"
    using assms reach_system_ok reach_in_lockstep by (auto simp: braid_below_def)
  have st: "st_of B p = braid_st (peers S p)" using assms(1) by (simp add: braid_below_def)
  show "phase_ok R (braid_st (peers S p))" using system_okD(1) [OF ok, of p] st by simp
  show "spqr_now (peers S p) + 1 < 2 ^ 64" using system_okD(3) [OF ok, of p] st assms(3) by simp
  show "in_lockstep B" by (rule ls)
  show "msg_ok R m" if "(m, k, mk) \<in> carried S p"
    using system_okD(4) [OF ok, of m p] assms(1) that by (force simp: braid_below_def)
qed

lemma send_bound_mono: "send_bound k s \<Longrightarrow> k \<le> j \<Longrightarrow> send_bound j s"
  unfolding send_bound_def by (meson order_trans)

lemma pq_system_ok_init:
  assumes "run_seed R = braid_auth_seed (run_ext R) ss"
  shows "pq_system_ok R 0 (spqr_system_init (run_ext R) ss)"
proof -
  have br: "spqr_braid (spqr_init (run_ext R) ss (dir p)) =
      (case p of Alice \<Rightarrow> init_sender (run_ext R) (run_seed R) | Bob \<Rightarrow> init_receiver (run_ext R) (run_seed R))" for p
    using assms by (cases p) (simp_all add: spqr_init_def Let_def split_beta)
  have "braid_below R 0 (spqr_system_init (run_ext R) ss) (system_init R)"
    using reach_init [of R] br by (simp add: braid_below_def spqr_system_init_def system_init_def)
  moreover have "send_bound 0 (spqr_init (run_ext R) ss (dir p))" for p
    by (auto simp: send_bound_def spqr_init_def Let_def split_beta scka_new_def split: if_splits)
  ultimately show ?thesis
    using on_schedule_init [OF assms] spqr_shape_init
    by (auto simp: pq_system_ok_def spqr_system_init_def)
qed

lemma pq_system_ok_send:
  assumes "run_ok R" and inv: "pq_system_ok R n S" and "Suc n < 2 ^ 32"
    and "ratchet_send_key (run_ext R) (run_draw R (state_epoch (braid_st (peers S p)))) (peers S p) = (s', Inr out)"
  shows "pq_system_ok R (Suc n) (S\<lparr>peers := (peers S)(p := s'), carried := (carried S)(p := insert out (carried S p))\<rparr>)"
proof -
  let ?S = "S\<lparr>peers := (peers S)(p := s'), carried := (carried S)(p := insert out (carried S p))\<rparr>"
  note h = pq_system_okD [OF inv]
  obtain B where B: "braid_below R n S B" using h(1) by blast
  have "n < 2 ^ 64 - 2" using assms(3) by simp
  note bb = braid_belowD [OF B assms(1) this]
  obtain m k mk sent where o1: "out = (m, k, mk)" "on_schedule R p s'" "send_bound (Suc n) s'"
    "mk = pq_key R p (saturating_sub (msg_epoch m) 1, k)" "0 < k" "unat k \<le> Suc n" "send_msg sent = m"
    "braid_send (run_ext R) (run_draw R (state_epoch (braid_st (peers S p)))) (spqr_braid (peers S p)) = (spqr_braid s', Inr sent)"
    using ratchet_send_key_honest [OF assms(1) h(2) bb(1) h(3,4) assms(3,4)] by blast
  have "braid_below R (Suc n) ?S (after_send p (spqr_braid s') sent B)"
    using B reach_send [of R n B p "spqr_braid s'" sent] o1(1,7,8) by (auto simp: braid_below_def)
  moreover have "spqr_shape s'"
    using ratchet_send_key_shape(1) [OF h(2)] assms(4) by (metis fst_conv)
  ultimately show ?thesis
    using h o1 send_bound_mono [OF h(4)] by (fastforce simp: pq_system_ok_def intro: le_SucI)
qed


lemma pq_system_ok_receive:
  assumes "run_ok R" and inv: "pq_system_ok R n S" and "Suc n < 2 ^ 32" and m: "(m, k, mk) \<in> carried S (other p)"
    and "ratchet_receive_key (run_ext R) m k (peers S p) = (s', r)"
  shows "pq_system_ok R (Suc n) (S\<lparr>peers := (peers S)(p := s')\<rparr>)"
proof -
  note h = pq_system_okD [OF inv]
  obtain B where B: "braid_below R n S B" using h(1) by blast
  have "n < 2 ^ 64 - 2" using assms(3) by simp
  note bb = braid_belowD [OF B assms(1) this]
  obtain rcv where o1: "on_schedule R p s'" "send_bound n s'"
    "braid_receive (run_ext R) (spqr_braid (peers S p)) m = (spqr_braid s', Inr rcv)"
    using ratchet_receive_key_honest [OF assms(1) h(2) bb(1) h(3) bb(4) [OF m] bb(2) h(4) assms(5)] by blast
  have "m \<in> wire B (other p)" using B m by (force simp: braid_below_def)
  then have "braid_below R (Suc n) (S\<lparr>peers := (peers S)(p := s')\<rparr>) (after_receive p (spqr_braid s') rcv B)"
    using B reach_receive [of R n B m p "spqr_braid s'" rcv] o1(3) by (auto simp: braid_below_def)
  moreover have "spqr_shape s'"
    using ratchet_receive_key_shape(1) [OF h(2) bb(2)] assms(5) by (metis fst_conv)
  ultimately show ?thesis
    using h o1 send_bound_mono [OF h(4)] send_bound_mono [OF o1(2)] by (fastforce simp: pq_system_ok_def intro: le_SucI)
qed

lemma reach_pq_system_ok:
  assumes "run_ok R" and "run_seed R = braid_auth_seed (run_ext R) ss"
  shows "spqr_reach R ss n S \<Longrightarrow> n < 2 ^ 32 - 1 \<Longrightarrow> pq_system_ok R n S"
proof (induction rule: spqr_reach.induct)
  case spqr_start
  then show ?case using pq_system_ok_init [OF assms(2)] by simp
next
  case (spqr_sends n S p s' out)
  then show ?case using pq_system_ok_send [OF assms(1), of n S p s' out] by simp
next
  case (spqr_receives n S m k mk p s' r)
  then show ?case using pq_system_ok_receive [OF assms(1), of n S m k mk p s' r] by simp
qed

text \<open>The epoch a message is keyed under is one its receiver has incorporated.\<close>

lemma keyed_epoch_known:
  assumes "run_ok R" and "pq_system_ok R n S" and "n < 2 ^ 64 - 2" and m: "(m, k, mk) \<in> carried S (other p)"
  shows "unat (saturating_sub (msg_epoch m) 1) \<le> unat (spqr_epoch (peers S p))"
proof -
  note h = pq_system_okD [OF assms(2)]
  obtain B where B: "braid_below R n S B" using h(1) by blast
  have ls: "in_lockstep B" using braid_belowD(3) [OF B assms(1,3)] .
  have st: "st_of B q = braid_st (peers S q)" for q using B by (simp add: braid_below_def)
  have "m \<in> wire B (other p)" using B m by (force simp: braid_below_def)
  then have le: "unat (msg_epoch m) \<le> ep B (other p)" using ls by (auto simp: in_lockstep_def wires_ok_def)
  from ls have "unat (msg_epoch m) - 1 \<le> latest_epoch (st_of B p)"
    by (cases rule: lockstep_cases [where p = p])
      (use le in \<open>auto simp: together_def ahead_def latest_epoch_def has_secret_def\<close>)
  then show ?thesis using spqr_shapeD(3) [OF h(2), of p] st by (simp add: unat_saturating_sub)
qed

lemma delivery:
  assumes "run_ok R" and inv: "pq_system_ok R n S" and "n < 2 ^ 32 - 2002"
    and m: "(m, k, mk) \<in> carried S (other p)"
    and recent: "spqr_now (peers S p) \<le> unat (msg_epoch m) + 1"
    and fresh: "\<not> spqr_spent (peers S p) (saturating_sub (msg_epoch m) 1, k)"
    and gap: "\<And>c. recv_chain (peers S p) (saturating_sub (msg_epoch m) 1) = Some c \<Longrightarrow>
                unat k \<le> unat (sc_n c) + unat MAX_SKIP + 1"
  shows "\<exists>s'. ratchet_receive_key (run_ext R) m k (peers S p) = (s', Inr mk)"
proof -
  let ?s = "peers S p" and ?e = "saturating_sub (msg_epoch m) 1"
  note h = pq_system_okD [OF inv]
  obtain B where B: "braid_below R n S B" using h(1) by blast
  have lim64: "n < 2 ^ 64 - 2" using assms(3) by simp
  note bb = braid_belowD [OF B assms(1) lim64]
  have known: "unat ?e \<le> unat (spqr_epoch ?s)" using keyed_epoch_known [OF assms(1) inv lim64 m] .
  have near: "spqr_now ?s \<le> unat ?e + 2" using recent by (simp add: unat_saturating_sub)
  obtain c where c: "recv_chain ?s ?e = Some c"
    using chains_presentD [OF spqr_shapeD(4) [OF h(2)] near known] by (auto simp: recv_chain_def)
  obtain b rcv where b: "braid_receive (run_ext R) (spqr_braid ?s) m = (b, Inr rcv)"
    using braid_receive_accepts [OF assms(1) bb(1) bb(4) [OF m] spqr_shapeD(1) [OF h(2)] bb(2)] by blast
  let ?a = "absorbed (run_ext R) b rcv ?s"
  note ab = absorbed_honest [OF assms(1) h(2) bb(1) h(3) bb(4) [OF m] bb(2) h(4) b]
  have re: "receiving_epoch rcv = ?e" using b by (simp add: braid_receive_Inr)
  have "stored ?a ?e k \<noteq> None \<or> sc_n c < k \<and> unat k \<le> unat (sc_n c) + unat MAX_SKIP + 1"
    using fresh c gap ab(4) by (auto simp: spqr_spent_def)
  moreover have "unat k + unat MAX_SKIP < 2 ^ 32"
    using h(7) [OF m] assms(3) by (simp add: MAX_SKIP_def)
  ultimately have "snd (derive_receive_key (run_ext R) ?e k ?a) = Inr (pq_key R (other p) (?e, k))"
    using derive_finds [OF on_scheduleD(5) [OF ab(1)], of ?e c k] ab(3) [OF known] c h(6) [OF m] by simp
  then show ?thesis
    using ratchet_receive_key_view [OF h(2) b bb(2), of k] re h(5) [OF m] by (metis prod.collapse)
qed


lemma message_key_agreement:
  assumes "run_ok R" and inv: "pq_system_ok R n S" and "n < 2 ^ 64 - 2" and "(m, k, mk) \<in> carried S (other p)"
    and "ratchet_receive_key (run_ext R) m k (peers S p) = (s', Inr mk')"
  shows "mk' = mk"
proof -
  note h = pq_system_okD [OF inv]
  obtain B where B: "braid_below R n S B" using h(1) by blast
  note bb = braid_belowD [OF B assms(1,3)]
  show ?thesis
    using ratchet_receive_key_honest [OF assms(1) h(2) bb(1) h(3) bb(4) [OF assms(4)] bb(2) h(4) assms(5)]
      h(5) [OF assms(4)] by blast
qed

section \<open>A consumed number stays consumed\<close>

definition spent_past :: "spqr_state \<Rightarrow> u64 \<times> u32 \<Rightarrow> bool" where
  "spent_past s i \<longleftrightarrow> spqr_spent s i \<and> unat (fst i) \<le> unat (spqr_epoch s)"

lemma spent_past_cong:
  assumes "spent_past s i" and "recv_chain s' (fst i) = recv_chain s (fst i)"
    and "stored s' (fst i) (snd i) = stored s (fst i) (snd i)" and "unat (spqr_epoch s) \<le> unat (spqr_epoch s')"
  shows "spent_past s' i"
  using assms by (simp add: spent_past_def spqr_spent_def)

lemma spent_past_clear: "spent_past s i \<Longrightarrow> spent_past (clear_old_epochs se s) i"
  by (auto simp: spent_past_def spqr_spent_def clear_old_epochs_def recv_chain_def stored_def
      split: option.splits)

lemma spent_past_incorporated:
  assumes "spqr_shape s" and b: "braid_send X rng (spqr_braid s) = (b, Inr sent)" and "spent_past s i"
  shows "spent_past (incorporated X b sent s) i"
proof (cases "send_output_key sent")
  case None
  then show ?thesis
    using spent_past_cong [OF assms(3), of "s\<lparr>spqr_braid := b\<rparr>"] by (simp add: incorporated_def recv_chain_def stored_def)
next
  case (Some es)
  let ?a = "fst (add_epoch X (es_epoch es) (es_secret es) (s\<lparr>spqr_braid := b\<rparr>))"
  note suc = incorporated_shape(5) [OF assms(1) b Some]
  obtain c where a: "kdfchains ?a = btree_insert (es_epoch es) c (kdfchains s)" "spqr_epoch ?a = es_epoch es"
    "mkskipped ?a = mkskipped s"
    using add_epoch_ok [of "es_epoch es" "s\<lparr>spqr_braid := b\<rparr>" X "es_secret es"] suc by auto
  have "fst i \<noteq> es_epoch es" using assms(3) suc by (auto simp: spent_past_def)
  then have "spent_past ?a i"
    using spent_past_cong [OF assms(3), of ?a] a suc by (simp add: recv_chain_def stored_def)
  then show ?thesis using Some spent_past_clear by (simp add: incorporated_def)
qed

lemma spent_past_send:
  assumes "spqr_shape s" and "spent_past s i"
  shows "spent_past (fst (ratchet_send_key X rng s)) i"
proof (cases "snd (braid_send X rng (spqr_braid s))")
  case (Inl e)
  then have "braid_send X rng (spqr_braid s) = (spqr_braid s, Inl e)"
    using braid_send_error [OF Inl] by (metis prod.collapse)
  then show ?thesis using assms(2) by (simp add: ratchet_send_key_def)
next
  case (Inr sent)
  then obtain b where b: "braid_send X rng (spqr_braid s) = (b, Inr sent)" by (metis prod.collapse)
  let ?i = "incorporated X b sent s" and ?se = "sending_epoch sent"
  obtain c ch where v: "map_of (kdfchains ?i) ?se = Some c" "ec_send c = Some ch"
    "ratchet_send_key X rng s =
       ((drop_previous_send ?se ?i)\<lparr>kdfchains := btree_insert ?se (c\<lparr>ec_send := Some (fst (scka_advance X ch))\<rparr>)
             (kdfchains (drop_previous_send ?se ?i))\<rparr>,
        Inr (send_msg sent, fst (snd (scka_advance X ch)), snd (snd (scka_advance X ch))))"
    using ratchet_send_key_view [OF assms(1) b] by blast
  have "recv_chain (fst (ratchet_send_key X rng s)) e = recv_chain ?i e" for e
    using v(1) unfolding v(3)
    by (cases "map_of (kdfchains ?i) e") (auto simp: recv_chain_def map_of_drop_previous_send)
  then show ?thesis
    using spent_past_cong [OF spent_past_incorporated [OF assms(1) b assms(2)]] v(3) by (simp add: stored_def)
qed

lemma receive_spends:
  assumes "run_ok R" and "spqr_shape s" and "phase_ok R (braid_st s)" and "on_schedule R p s"
    and "msg_ok R m" and lim: "spqr_now s + 1 < 2 ^ 64" and "send_bound j s"
    and known: "unat (saturating_sub (msg_epoch m) 1) \<le> unat (spqr_epoch s)"
    and r: "ratchet_receive_key (run_ext R) m k s = (s', r)"
  shows "\<And>i. spent_past s i \<Longrightarrow> spent_past s' i"
    and "is_ok r \<Longrightarrow> \<not> spent_past s (saturating_sub (msg_epoch m) 1, k) \<and> spent_past s' (saturating_sub (msg_epoch m) 1, k)"
proof -
  let ?X = "run_ext R" and ?e = "saturating_sub (msg_epoch m) 1"
  obtain b rcv where b: "braid_receive ?X (spqr_braid s) m = (b, Inr rcv)"
    using braid_receive_accepts [OF assms(1,3,5) spqr_shapeD(1) [OF assms(2)] lim] by blast
  note ab = absorbed_honest [OF assms(1-5) lim assms(7) b]
  let ?a = "absorbed ?X b rcv s"
  have re: "receiving_epoch rcv = ?e" using b by (simp add: braid_receive_Inr)
  have d: "derive_receive_key ?X ?e k ?a = (s', r)"
    using ratchet_receive_key_view [OF assms(2) b lim] r re by simp
  then have mv: "only_recv_moved ?a s'" using derive_receive_key_moved by (metis fst_conv)
  have ep: "unat (spqr_epoch s) \<le> unat (spqr_epoch ?a)"
  proof (cases "recv_output_key rcv")
    case (Some es)
    then show ?thesis
      using absorbed_shape(5) [OF assms(2) b lim Some]
        add_epoch_ok [of "es_epoch es" "s\<lparr>spqr_braid := b\<rparr>" ?X "es_secret es"] by (auto simp: absorbed_def)
  qed (simp add: absorbed_def)
  have e': "spqr_epoch s' = spqr_epoch ?a" using mv by (simp add: only_recv_moved_def)
  have keep: "spent_past ?a i" if "spent_past s i" for i
    using spent_past_cong [OF that _ _ ep] ab(3,4) that by (simp add: spent_past_def)
  note good = derive_receive_key_good [OF on_scheduleD(5) [OF ab(1)] d]
  show "spent_past s' i" if "spent_past s i" for i
    using keep [OF that] good e' by (cases i) (simp add: spent_past_def)
  show "\<not> spent_past s (?e, k) \<and> spent_past s' (?e, k)" if ok: "is_ok r"
  proof -
    from ok obtain mk where "r = Inr mk" by (cases r) auto
    then have "\<not> spqr_spent ?a (?e, k)" "spqr_spent s' (?e, k)" using good by auto
    then show ?thesis using keep known ep e' by (auto simp: spent_past_def)
  qed
qed

section \<open>A first message\<close>

definition spqr_demo_run :: braid_run where
  "spqr_demo_run = demo_run\<lparr>run_seed := braid_auth_seed demo_ext (zeros 32)\<rparr>"

lemma spqr_demo_run_ok: "run_ok spqr_demo_run" "run_ext spqr_demo_run = demo_ext"
  "run_seed spqr_demo_run = braid_auth_seed (run_ext spqr_demo_run) (zeros 32)"
  using demo_run_ok by (simp_all add: spqr_demo_run_def run_ok_def demo_run_def)

text \<open>The first message: sent in epoch 1 under number 1, and receivable by the fresh responder.\<close>

lemma spqr_first_sent:
  assumes "run_ok R" and seed: "run_seed R = braid_auth_seed (run_ext R) ss"
  shows "\<exists>s' m mk. ratchet_send_key (run_ext R) (run_draw R 1) (spqr_init (run_ext R) ss A2B) = (s', Inr (m, 1, mk)) \<and>
     msg_epoch m = 1"
proof -
  let ?S = "spqr_system_init (run_ext R) ss"
  let ?a = "peers ?S Alice"
  have a: "?a = spqr_init (run_ext R) ss A2B" "state_epoch (braid_st ?a) = 1"
    by (simp_all add: spqr_system_init_def spqr_init_braid)
  note h = pq_system_okD [OF pq_system_ok_init [OF seed]]
  obtain B where B: "braid_below R 0 ?S B" using h(1) by blast
  have ph: "phase_ok R (braid_st ?a)" using braid_belowD(1) [OF B assms(1)] by simp
  obtain s' r where r: "ratchet_send_key (run_ext R) (run_draw R (state_epoch (braid_st ?a))) ?a = (s', r)"
    by (metis surj_pair)
  obtain m k mk sent where o1: "r = Inr (m, k, mk)" "0 < k" "unat k \<le> Suc 0" "send_msg sent = m"
    "braid_send (run_ext R) (run_draw R (state_epoch (braid_st ?a))) (spqr_braid ?a) = (spqr_braid s', Inr sent)"
    using ratchet_send_key_honest [OF assms(1) h(2) ph h(3,4) _ r] by auto
  have "msg_epoch m = 1"
    using o1(4,5) a(2) state_send_local(4) [of "run_ext R" _ "braid_st ?a"] by (auto simp: braid_send_Inr)
  moreover have "k = 1" using o1(2,3) by (simp add: word_less_nat_alt flip: unat_inject)
  ultimately show ?thesis using r o1(1) a by auto
qed

lemma spqr_first_receivable:
  "spqr_now (spqr_init X ss B2A) \<le> 1 + 1" "\<not> spqr_spent (spqr_init X ss B2A) (0, 1)"
  "recv_chain (spqr_init X ss B2A) 0 = Some c \<Longrightarrow> unat (1 :: u32) \<le> unat (sc_n c) + unat MAX_SKIP + 1"
proof -
  have rc: "\<exists>c. recv_chain (spqr_init X ss B2A) 0 = Some c \<and> sc_n c = 0"
    by (simp add: recv_chain_def spqr_init_def Let_def split_beta scka_new_def)
  then show "\<not> spqr_spent (spqr_init X ss B2A) (0, 1)" by (auto simp: spqr_spent_def)
  show "spqr_now (spqr_init X ss B2A) \<le> 1 + 1" by (simp add: spqr_init_braid)
  show "unat (1 :: u32) \<le> unat (sc_n c) + unat MAX_SKIP + 1" by simp
qed

lemma spqr_demo_first:
  "\<exists>S m k mk. spqr_reach spqr_demo_run (zeros 32) 1 S \<and> (m, k, mk) \<in> carried S Alice \<and> msg_epoch m = 1 \<and>
     k = 1 \<and> peers S Bob = spqr_init demo_ext (zeros 32) B2A"
proof -
  let ?S = "spqr_system_init (run_ext spqr_demo_run) (zeros 32)"
  obtain s' m mk where r: "ratchet_send_key (run_ext spqr_demo_run) (run_draw spqr_demo_run 1)
      (spqr_init (run_ext spqr_demo_run) (zeros 32) A2B) = (s', Inr (m, 1, mk))" "msg_epoch m = 1"
    using spqr_first_sent [OF spqr_demo_run_ok(1,3)] by blast
  then have "ratchet_send_key (run_ext spqr_demo_run) (run_draw spqr_demo_run (state_epoch (braid_st (peers ?S Alice)))) (peers ?S Alice)
      = (s', Inr (m, 1, mk))"
    by (simp add: spqr_system_init_def spqr_init_braid)
  from spqr_sends [OF spqr_start this] r(2) show ?thesis
    by (intro exI conjI) (assumption | simp add: spqr_system_init_def spqr_demo_run_ok(2))+
qed

section \<open>Properties\<close>

text \<open>
  C10. Message-key agreement. However the network treats the messages of two honest parties,
  a receiver that derives a key for a message derives the key its sender used; late and
  duplicated messages and epoch changes in between do not matter.
\<close>

theorem spqr_agreement:
  assumes "run_ok R" and "run_seed R = braid_auth_seed (run_ext R) ss"
    and "spqr_reach R ss n S" and "n < 2 ^ 32 - 1" and "(m, k, mk) \<in> carried S (other p)"
    and "ratchet_receive_key (run_ext R) m k (peers S p) = (s', Inr mk')"
  shows "mk' = mk"
  using message_key_agreement [OF assms(1) reach_pq_system_ok [OF assms(1-4)] _ assms(5,6)] assms(4) by simp


lemma spqr_demo_delivered:
  "\<exists>S m k mk. spqr_reach spqr_demo_run (zeros 32) 1 S \<and> (m, k, mk) \<in> carried S (other Bob) \<and>
     spqr_now (peers S Bob) \<le> unat (msg_epoch m) + 1 \<and>
     \<not> spqr_spent (peers S Bob) (saturating_sub (msg_epoch m) 1, k) \<and>
     (\<forall>c. recv_chain (peers S Bob) (saturating_sub (msg_epoch m) 1) = Some c \<longrightarrow>
           unat k \<le> unat (sc_n c) + unat MAX_SKIP + 1)"
proof -
  obtain S m k mk where S: "spqr_reach spqr_demo_run (zeros 32) 1 S" "(m, k, mk) \<in> carried S Alice"
    "msg_epoch m = 1" "k = 1" "peers S Bob = spqr_init demo_ext (zeros 32) B2A"
    using spqr_demo_first by blast
  show ?thesis
    using S spqr_first_receivable [of demo_ext "zeros 32"]
    by (intro exI [of _ S] exI [of _ m] exI [of _ k] exI [of _ mk]) (simp add: saturating_sub_def)
qed


theorem spqr_agreement_witness:
  "\<exists>S m k mk s' mk'. spqr_reach spqr_demo_run (zeros 32) 1 S \<and> (m, k, mk) \<in> carried S Alice \<and>
     ratchet_receive_key demo_ext m k (peers S Bob) = (s', Inr mk') \<and> mk' = mk"
proof -
  obtain S m k mk where S: "spqr_reach spqr_demo_run (zeros 32) 1 S" "(m, k, mk) \<in> carried S (other Bob)"
     "spqr_now (peers S Bob) \<le> unat (msg_epoch m) + 1"
     "\<not> spqr_spent (peers S Bob) (saturating_sub (msg_epoch m) 1, k)"
     "\<forall>c. recv_chain (peers S Bob) (saturating_sub (msg_epoch m) 1) = Some c \<longrightarrow>
           unat k \<le> unat (sc_n c) + unat MAX_SKIP + 1"
    using spqr_demo_delivered by blast
  have "pq_system_ok spqr_demo_run 1 S" using reach_pq_system_ok [OF spqr_demo_run_ok(1,3) S(1)] by simp
  from delivery [OF spqr_demo_run_ok(1) this _ S(2-4)] S(5) obtain s' mk' where
    r: "ratchet_receive_key (run_ext spqr_demo_run) m k (peers S Bob) = (s', Inr mk')" by auto
  have "mk' = mk" using spqr_agreement [OF spqr_demo_run_ok(1,3) S(1) _ S(2) r] by simp
  with S(1,2) r show ?thesis unfolding other.simps spqr_demo_run_ok(2) by blast
qed


text \<open>
  C19. Any order, once each. Feed a receiving state on a key schedule any sequence of
  (epoch, number) requests, repeated and out of order: every key it yields is the scheduled
  one, and no request is answered twice.
\<close>

theorem spqr_any_order_once:
  assumes "spqr_good X K s"
  shows "(\<forall>(i, mk) \<in> set (spqr_receiver.deliver X s is). mk = K i) \<and>
         distinct (map fst (spqr_receiver.deliver X s is))"
  using spqr_receiver.deliver_sound [OF assms] spqr_receiver.deliver_once [OF assms, of "is"]
  by (auto simp: comp_def)

theorem spqr_any_order_once_witness:
  "distinct (map fst (spqr_receiver.deliver demo_ext (spqr_init demo_ext (zeros 32) B2A) [(0, 2), (0, 1), (0, 2)])) \<and>
   (0, 2) \<in> fst ` set (spqr_receiver.deliver demo_ext (spqr_init demo_ext (zeros 32) B2A) [(0, 2), (0, 1), (0, 2)])"
proof -
  let ?s = "spqr_init demo_ext (zeros 32) B2A" and ?K = "pq_key spqr_demo_run Alice"
  have g: "spqr_good demo_ext ?K ?s"
    using on_scheduleD(5) [OF on_schedule_init [OF spqr_demo_run_ok(3), of Bob]] by (simp add: spqr_demo_run_ok(2))
  have rc: "\<exists>c. recv_chain ?s 0 = Some c \<and> sc_n c = 0"
    by (simp add: recv_chain_def spqr_init_def Let_def split_beta scka_new_def)
  then have "snd (derive_receive_key demo_ext 0 2 ?s) = Inr (?K (0, 2))"
    using derive_finds [OF g, of 0 _ 2] by (auto simp: MAX_SKIP_def)
  then have "snd (spqr_recv demo_ext ?s (0, 2)) = Some (?K (0, 2))"
    by (simp add: spqr_recv_def split_beta)
  then show ?thesis
    using spqr_any_order_once [OF g, of "[(0, 2), (0, 1), (0, 2)]"]
    by (simp add: Let_def split_beta del: spqr_receiver.deliver.simps)
      (simp add: Let_def split_beta)
qed

end
