(* ===== verification/Session_Ec.thy ===== *)
theory Session_Ec
  imports Session Spqr_Agreement
begin

text \<open>
  The Diffie-Hellman half of the session against its key schedule. In an honest run the
  ratchet keys form one sequence: secret 0 is the responder's signed prekey, secret
  \<open>c + 1\<close> opens chain \<open>c\<close>; the initiator draws the odd ones, the responder the even
  ones. Root and chain keys are then functions of the position. \<open>on_ec R g s\<close> says that a
  session whose own ratchet key is number \<open>g\<close> is on that schedule: it sends on chain
  \<open>g - 1\<close>, receives on chain \<open>g - 2\<close> and will accept chain \<open>g\<close> next.
\<close>

lemma u32_of_nat: "i < 2 ^ 32 \<Longrightarrow> unat (of_nat i :: u32) = i"
  by (simp add: unat_of_nat_less)

lemma u32_of_nat_eqD: "(of_nat j :: u32) = of_nat i \<Longrightarrow> j < 2 ^ 32 \<Longrightarrow> Suc i < 2 ^ 32 \<Longrightarrow> j = i"
  using u32_of_nat [of i] u32_of_nat [of j] by (metis Suc_lessD)

section \<open>The schedule\<close>

record session_run =
  sr_braid :: braid_run
  sr_secret :: bytes
  sr_sec :: "nat \<Rightarrow> bytes"
  sr_codec :: "message_header codec"
  sr_ident :: "party \<Rightarrow> identity_public_key"

abbreviation sr_ext :: "session_run \<Rightarrow> ext" where
  "sr_ext R \<equiv> run_ext (sr_braid R)"

definition pub :: "session_run \<Rightarrow> nat \<Rightarrow> bytes" where
  "pub R j = x_public (sr_ext R) (sr_sec R j)"

primrec rk_at :: "session_run \<Rightarrow> nat \<Rightarrow> root_key" where
  "rk_at R 0 = RootKey (sr_secret R)"
| "rk_at R (Suc i) = rk_root_key (kdf_rk (sr_ext R) (rk_at R i) (x_dh (sr_ext R) (sr_sec R (Suc i)) (pub R i)))"

definition ec_start :: "session_run \<Rightarrow> nat \<Rightarrow> chain_state" where
  "ec_start R c = chain_new (rk_chain_key (kdf_rk (sr_ext R) (rk_at R c) (x_dh (sr_ext R) (sr_sec R (Suc c)) (pub R c))))"

definition ec_key :: "session_run \<Rightarrow> nat \<Rightarrow> nat \<Rightarrow> message_key" where
  "ec_key R c i = ec.sched (sr_ext R) (ec_start R c) i"

abbreviation ec_pos :: "chain_state \<Rightarrow> nat" where
  "ec_pos ch \<equiv> unat (cs_message_number ch)"

lemma ec_start_follows: "ec.follows (sr_ext R) (ec_key R c) (ec_start R c)"
  unfolding ec.follows_def by (simp add: ec_key_def)

lemma ec_pos_start [simp]: "ec_pos (ec_start R c) = 0"
  by (simp add: ec_start_def chain_new_def)

section \<open>The skip loop\<close>

definition skipped_at :: "message_key \<Rightarrow> bytes \<Rightarrow> skipped_key" where
  "skipped_at mk d = \<lparr>sk_message_key = mk, sk_dh = d\<rparr>"

lemma ec_skip_loop_follows:
  assumes "ec.follows X K ch" and "cs_message_number ch \<le> until"
    and "length keys + (unat until - ec_pos ch) \<le> unat MAX_SKIP"
  shows "ec.follows X K (fst (ec_skip_loop X until d ch keys)) \<and>
    cs_message_number (fst (ec_skip_loop X until d ch keys)) = until \<and>
    length (snd (ec_skip_loop X until d ch keys)) \<le> length keys + (unat until - ec_pos ch) \<and>
    (\<forall>n d'. map_of (snd (ec_skip_loop X until d ch keys)) (n, d') =
       (if d' = d \<and> cs_message_number ch \<le> n \<and> n < until then Some (skipped_at (K (unat n)) d)
        else map_of keys (n, d')))"
  using assms
proof (induction X until d ch keys rule: ec_skip_loop.induct)
  case (1 X until d ch keys)
  show ?case
  proof (cases "cs_message_number ch < until")
    case True
    obtain c mk where adv: "chain_advance X ch = (c, mk)" by (metis surj_pair)
    have lt: "ec_pos ch < unat until" using True by (simp add: word_less_nat_alt)
    then have lim: "Suc (ec_pos ch) < 2 ^ 32" using u32_bound [of until] by linarith
    note f = ec.follows_advance [OF "1.prems"(1) lim, unfolded adv fst_conv snd_conv]
    have n: "cs_message_number c = cs_message_number ch + 1" using chain_advance_number [of X ch] adv by simp
    then have un: "ec_pos c = Suc (ec_pos ch)" using lim by (simp add: unat_add_one)
    let ?k = "skipped_insert (cs_message_number c - 1) d mk keys"
    have room: "length keys < unat MAX_SKIP" using "1.prems"(3) lt by linarith
    have le: "cs_message_number c \<le> until" using un lt by (simp add: word_le_nat_alt)
    have fits: "length ?k + (unat until - ec_pos c) \<le> unat MAX_SKIP"
      using length_skipped_insert [of "cs_message_number c - 1" d mk keys] "1.prems"(3) un lt by linarith
    note ih = "1.IH" [OF True adv [symmetric] refl refl f(1) le fits]
    have m: "map_of ?k = (map_of keys)((cs_message_number ch, d) \<mapsto> skipped_at (K (ec_pos ch)) d)"
      using map_of_skipped_insert [OF room] n f(2) by (simp add: skipped_at_def)
    have step: "ec_skip_loop X until d ch keys = ec_skip_loop X until d c ?k"
      using True adv by (subst ec_skip_loop.simps) (simp add: Let_def)
    have len: "length (snd (ec_skip_loop X until d c ?k)) \<le> length keys + (unat until - ec_pos ch)"
      using ih length_skipped_insert [of "cs_message_number c - 1" d mk keys] un lt by linarith
    have split: "cs_message_number ch \<le> i \<and> i < until \<longleftrightarrow> i = cs_message_number ch \<or> cs_message_number c \<le> i \<and> i < until" for i
      using un True by (auto simp: word_le_nat_alt word_less_nat_alt simp flip: unat_inject)
    have not: "\<not> cs_message_number c \<le> cs_message_number ch" using un by (simp add: word_le_nat_alt)
    have "map_of (snd (ec_skip_loop X until d ch keys)) (i, d') =
       (if d' = d \<and> cs_message_number ch \<le> i \<and> i < until then Some (skipped_at (K (unat i)) d)
        else map_of keys (i, d'))" for i d'
      using ih m split [of i] not unfolding step by auto
    then show ?thesis using ih len step by simp
  next
    case False
    then have "cs_message_number ch = until" using "1.prems"(2) by simp
    then show ?thesis using "1.prems"(1) by (auto simp: ec_skip_loop.simps)
  qed
qed

lemma ec_skip_loop_invar: "hashmap_invar keys \<Longrightarrow> hashmap_invar (snd (ec_skip_loop X until d ch keys))"
proof (induction X until d ch keys rule: ec_skip_loop.induct)
  case (1 X until d ch keys)
  show ?case
  proof (cases "cs_message_number ch < until")
    case True
    obtain c mk where adv: "chain_advance X ch = (c, mk)" by (metis surj_pair)
    have "hashmap_invar (skipped_insert n d mk keys)" for n
      using hash_map.invar_insert [OF "1.prems"] "1.prems" by (simp add: skipped_insert_def)
    then show ?thesis
      using "1.IH" [OF True adv [symmetric] refl refl] True adv by (subst ec_skip_loop.simps) (simp add: Let_def)
  qed (simp add: ec_skip_loop.simps "1.prems")
qed

section \<open>Sessions on the schedule\<close>

definition on_ec :: "session_run \<Rightarrow> nat \<Rightarrow> ratchet_session \<Rightarrow> bool" where
  "on_ec R g s \<longleftrightarrow>
     rs_dh_self s = sr_sec R g \<and> rs_dh_self_public s = DhPublicKey (pub R g) \<and> rs_root_key s = rk_at R g \<and>
     rs_dh_remote s = (if g = 0 then None else Some (DhPublicKey (pub R (g - 1)))) \<and>
     (rs_sending_chain s = None \<longleftrightarrow> g = 0) \<and>
     (\<forall>ch. rs_sending_chain s = Some ch \<longrightarrow> ec.follows (sr_ext R) (ec_key R (g - 1)) ch) \<and>
     (rs_receiving_chain s = None \<longleftrightarrow> g < 2) \<and>
     (\<forall>ch. rs_receiving_chain s = Some ch \<longrightarrow> ec.follows (sr_ext R) (ec_key R (g - 2)) ch)"

definition recv_pos :: "ratchet_session \<Rightarrow> nat" where
  "recv_pos s = (case rs_receiving_chain s of None \<Rightarrow> 0 | Some ch \<Rightarrow> ec_pos ch)"

text \<open>Every stored key is the scheduled one, behind the position of its chain.\<close>

definition store_on :: "session_run \<Rightarrow> nat \<Rightarrow> ratchet_session \<Rightarrow> bool" where
  "store_on R g s \<longleftrightarrow> hashmap_invar (rs_skipped s) \<and>
     (\<forall>n d sk. map_of (rs_skipped s) (n, d) = Some sk \<longrightarrow>
        (\<exists>c. c + 2 \<le> g \<and> d = pub R (Suc c) \<and> sk_message_key sk = ec_key R c (unat n) \<and>
             (c + 2 = g \<longrightarrow> unat n < recv_pos s)))"

lemma store_onD:
  assumes "store_on R g s"
  shows "hashmap_invar (rs_skipped s)"
    "map_of (rs_skipped s) (n, d) = Some sk \<Longrightarrow>
       \<exists>c. c + 2 \<le> g \<and> d = pub R (Suc c) \<and> sk_message_key sk = ec_key R c (unat n) \<and>
           (c + 2 = g \<longrightarrow> unat n < recv_pos s)"
  using assms unfolding store_on_def by blast+

text \<open>A header of message \<open>i\<close> of chain \<open>c\<close>, after \<open>pn\<close> messages of the chain before.\<close>

definition header_at :: "session_run \<Rightarrow> nat \<Rightarrow> nat \<Rightarrow> u32 \<Rightarrow> message_header \<Rightarrow> bool" where
  "header_at R c i pn h \<longleftrightarrow>
     h_dh_public_key h = DhPublicKey (pub R (Suc c)) \<and> h_message_number h = of_nat i \<and>
     h_previous_chain_length h = pn \<and> Suc i < 2 ^ 32"

text \<open>The key of message \<open>i\<close> of chain \<open>c\<close> can still be had.\<close>

definition avail :: "session_run \<Rightarrow> nat \<Rightarrow> ratchet_session \<Rightarrow> nat \<Rightarrow> nat \<Rightarrow> bool" where
  "avail R g s c i \<longleftrightarrow>
     c = g \<or> (c + 2 = g \<and> recv_pos s \<le> i) \<or>
     (c + 2 \<le> g \<and> map_of (rs_skipped s) (of_nat i, pub R (Suc c)) \<noteq> None)"


lemma on_ecD:
  assumes "on_ec R g s"
  shows "rs_dh_self s = sr_sec R g" "rs_dh_self_public s = DhPublicKey (pub R g)" "rs_root_key s = rk_at R g"
    "0 < g \<Longrightarrow> rs_dh_remote s = Some (DhPublicKey (pub R (g - 1)))" "g = 0 \<Longrightarrow> rs_dh_remote s = None"
    "rs_sending_chain s = None \<longleftrightarrow> g = 0"
    "rs_sending_chain s = Some ch \<Longrightarrow> ec.follows (sr_ext R) (ec_key R (g - 1)) ch"
    "rs_receiving_chain s = None \<longleftrightarrow> g < 2"
    "rs_receiving_chain s = Some ch \<Longrightarrow> ec.follows (sr_ext R) (ec_key R (g - 2)) ch"
  using assms unfolding on_ec_def by (simp_all split: if_splits)

text \<open>Skipping ahead in the current receiving chain, with room in the store.\<close>

lemma skip_receiving_on:
  assumes "on_ec R g s" and "store_on R g s" and "rs_receiving_chain s = Some ch"
    and "length (rs_skipped s) + (unat until - ec_pos ch) \<le> unat MAX_SKIP"
  shows "\<exists>ch' keys. skip_receiving_messages (sr_ext R) until s =
      (s\<lparr>rs_receiving_chain := Some ch', rs_skipped := keys\<rparr>, Inr ()) \<and>
    ec.follows (sr_ext R) (ec_key R (g - 2)) ch' \<and> ec_pos ch' = max (ec_pos ch) (unat until) \<and>
    length keys \<le> length (rs_skipped s) + (unat until - ec_pos ch) \<and>
    (\<forall>n d. map_of keys (n, d) =
       (if d = pub R (g - 1) \<and> ec_pos ch \<le> unat n \<and> unat n < unat until then Some (skipped_at (ec_key R (g - 2) (unat n)) d)
        else map_of (rs_skipped s) (n, d))) \<and>
    hashmap_invar keys"
proof -
  note f = on_ecD(9) [OF assms(1,3)]
  have g: "2 \<le> g" using on_ecD(8) [OF assms(1)] assms(3) by auto
  have dh: "rs_dh_remote s = Some (DhPublicKey (pub R (g - 1)))" using on_ecD(4) [OF assms(1)] g by simp
  show ?thesis
  proof (cases "until < cs_message_number ch")
    case True
    then have "unat until < ec_pos ch" by (simp add: word_less_nat_alt)
    then show ?thesis
      using True f assms(3) store_onD(1) [OF assms(2)]
      by (intro exI [of _ ch] exI [of _ "rs_skipped s"])
        (cases s, auto simp: skip_receiving_messages_def Let_def)
  next
    case False
    then have le: "cs_message_number ch \<le> until" by simp
    let ?l = "ec_skip_loop (sr_ext R) until (pub R (g - 1)) ch (rs_skipped s)"
    note l = ec_skip_loop_follows [OF f le assms(4), of "pub R (g - 1)"]
    have "unat (until - cs_message_number ch) = unat until - ec_pos ch" using le by (simp add: unat_sub word_le_nat_alt)
    then have "\<not> MAX_SKIP < until - cs_message_number ch" using assms(4) by (simp add: word_less_nat_alt)
    then have "skip_receiving_messages (sr_ext R) until s =
        (s\<lparr>rs_receiving_chain := Some (fst ?l), rs_skipped := snd ?l\<rparr>, Inr ())"
      using False assms(3) dh by (simp add: skip_receiving_messages_def Let_def split_beta)
    moreover have "hashmap_invar (snd ?l)"
      using ec_skip_loop_invar [OF store_onD(1) [OF assms(2)]] .
    moreover have "ec_pos (fst ?l) = max (ec_pos ch) (unat until)"
      using l le by (simp add: word_le_nat_alt max_def)
    ultimately show ?thesis
      using l by (intro exI [of _ "fst ?l"] exI [of _ "snd ?l"]) (simp add: word_le_nat_alt word_less_nat_alt)
  qed
qed


section \<open>Resolving a key\<close>

definition next_gen :: "nat \<Rightarrow> nat \<Rightarrow> nat" where
  "next_gen g c = (if c = g then g + 2 else g)"

text \<open>What resolving the key of message \<open>i\<close> of chain \<open>c\<close> must achieve.\<close>

definition resolved :: "session_run \<Rightarrow> nat \<Rightarrow> nat \<Rightarrow> nat \<Rightarrow> nat \<Rightarrow> ratchet_session \<Rightarrow> ratchet_session \<Rightarrow> bool" where
  "resolved R g c i pn s s' \<longleftrightarrow>
     on_ec R (next_gen g c) s' \<and> store_on R (next_gen g c) s' \<and>
     (\<forall>c' i'. avail R g s c' i' \<and> (c', i') \<noteq> (c, i) \<and> i' < 2 ^ 32 \<and> (c = g \<and> c' + 2 = g \<longrightarrow> i' < pn) \<longrightarrow>
        avail R (next_gen g c) s' c' i') \<and>
     (if c = g then rs_sending_chain s' = Some (ec_start R (g + 1)) \<and>
        rs_previous_sending_chain_length s' = (case rs_sending_chain s of None \<Rightarrow> 0 | Some ch \<Rightarrow> cs_message_number ch)
      else rs_sending_chain s' = rs_sending_chain s \<and>
        rs_previous_sending_chain_length s' = rs_previous_sending_chain_length s) \<and>
     (recv_pos s' = recv_pos s \<and> c \<noteq> g \<or> (c = g \<or> c + 2 = g) \<and> recv_pos s' = Suc i) \<and>
     rs_spqr s' = rs_spqr s \<and> rs_pending_prekey s' = rs_pending_prekey s"

lemma header_atD:
  assumes "header_at R c i pn h"
  shows "dh_public_key_bytes (h_dh_public_key h) = pub R (Suc c)" "h_dh_public_key h = DhPublicKey (pub R (Suc c))"
    "h_message_number h = of_nat i" "unat (h_message_number h) = i" "h_previous_chain_length h = pn" "Suc i < 2 ^ 32"
  using assms unat_of_nat_less [of i, where 'a = 32] by (auto simp: header_at_def)

lemma resolve_stored:
  assumes "on_ec R g s" and "store_on R g s" and inj: "inj_on (pub R) {..g + 1}" and "header_at R c i pn h" and "c \<le> g"
    and sk: "map_of (rs_skipped s) (of_nat i, pub R (Suc c)) = Some sk"
  shows "\<exists>s'. resolve_ec_key (sr_ext R) d h s = (s', Inr (ec_key R c i)) \<and> resolved R g c i k s s' \<and> c + 2 \<le> g"
proof -
  note hd = header_atD [OF assms(4)]
  obtain c' where c': "c' + 2 \<le> g" "pub R (Suc c) = pub R (Suc c')" "sk_message_key sk = ec_key R c' (unat (of_nat i :: u32))"
    using store_onD(2) [OF assms(2) sk] by blast
  have "Suc c = Suc c'" using inj_onD [OF inj c'(2)] c'(1) assms(5) by simp
  then have c: "c + 2 \<le> g" "sk_message_key sk = ec_key R c i" "c \<noteq> g" using c' hd(3,4) by auto
  let ?s = "s\<lparr>rs_skipped := AList.delete (of_nat i, pub R (Suc c)) (rs_skipped s)\<rparr>"
  have r: "resolve_ec_key (sr_ext R) d h s = (?s, Inr (ec_key R c i))"
    using sk c hd by (simp add: resolve_ec_key_def try_remove_by_dh_def)
  have on: "on_ec R g ?s" using assms(1) by (simp add: on_ec_def)
  have pos: "recv_pos ?s = recv_pos s" by (simp add: recv_pos_def)
  have st: "store_on R g ?s"
    using assms(2) hash_map.invar_remove [OF store_onD(1) [OF assms(2)]] unfolding store_on_def pos
    by (auto simp: delete_conv')
  have "avail R g ?s c2 i2" if "avail R g s c2 i2" "(c2, i2) \<noteq> (c, i)" "i2 < 2 ^ 32" for c2 i2
  proof (cases "c2 + 2 \<le> g \<and> map_of (rs_skipped s) (of_nat i2, pub R (Suc c2)) \<noteq> None")
    case True
    have "(of_nat i2, pub R (Suc c2)) \<noteq> (of_nat i :: u32, pub R (Suc c))"
    proof
      assume eq: "(of_nat i2, pub R (Suc c2)) = (of_nat i :: u32, pub R (Suc c))"
      then have "Suc c2 = Suc c" using inj_onD [OF inj, of "Suc c2" "Suc c"] True c(1) by simp
      moreover have "i2 = i" using eq u32_of_nat_eqD [OF _ that(3), of i] hd(6) by (simp only: prod.inject)
      ultimately show False using that(2) by simp
    qed
    then show ?thesis using True by (auto simp: avail_def delete_conv')
  next
    case False
    then show ?thesis using that(1) by (auto simp: avail_def pos)
  qed
  then have "resolved R g c i k s ?s" using on st c(3) pos by (simp add: resolved_def next_gen_def)
  then show ?thesis using r c(1) by blast
qed

text \<open>The final skip and advance on a receiving chain that has not passed the message.\<close>

lemma advance_on:
  assumes "on_ec R g s" and "store_on R g s" and "rs_receiving_chain s = Some ch"
    and "ec_pos ch \<le> i" and "Suc i < 2 ^ 32" and "length (rs_skipped s) + (i - ec_pos ch) \<le> unat MAX_SKIP"
  shows "\<exists>s1 ch1. skip_receiving_messages (sr_ext R) (of_nat i) s = (s1, Inr ()) \<and>
    rs_receiving_chain s1 = Some ch1 \<and> snd (chain_advance (sr_ext R) ch1) = ec_key R (g - 2) i \<and>
    on_ec R g (s1\<lparr>rs_receiving_chain := Some (fst (chain_advance (sr_ext R) ch1))\<rparr>) \<and>
    store_on R g (s1\<lparr>rs_receiving_chain := Some (fst (chain_advance (sr_ext R) ch1))\<rparr>) \<and>
    (\<forall>c' i'. avail R g s c' i' \<and> (c' + 2, i') \<noteq> (g, i) \<and> i' < 2 ^ 32 \<longrightarrow>
       avail R g (s1\<lparr>rs_receiving_chain := Some (fst (chain_advance (sr_ext R) ch1))\<rparr>) c' i') \<and>
    recv_pos (s1\<lparr>rs_receiving_chain := Some (fst (chain_advance (sr_ext R) ch1))\<rparr>) = Suc i \<and>
    rs_sending_chain s1 = rs_sending_chain s \<and>
    rs_previous_sending_chain_length s1 = rs_previous_sending_chain_length s \<and>
    rs_spqr s1 = rs_spqr s \<and> rs_pending_prekey s1 = rs_pending_prekey s"
proof -
  let ?X = "sr_ext R"
  have g: "2 \<le> g" using on_ecD(8) [OF assms(1)] assms(3) by auto
  then have g2: "Suc (g - 2) = g - 1" by simp
  have ui: "unat (of_nat i :: u32) = i" using assms(5) by (intro u32_of_nat) simp
  obtain ch1 keys where sk: "skip_receiving_messages ?X (of_nat i) s = (s\<lparr>rs_receiving_chain := Some ch1, rs_skipped := keys\<rparr>, Inr ())"
    "ec.follows ?X (ec_key R (g - 2)) ch1" "ec_pos ch1 = max (ec_pos ch) i" "hashmap_invar keys"
    and m: "\<And>n d. map_of keys (n, d) =
       (if d = pub R (g - 1) \<and> ec_pos ch \<le> unat n \<and> unat n < i then Some (skipped_at (ec_key R (g - 2) (unat n)) d)
        else map_of (rs_skipped s) (n, d))"
    using skip_receiving_on [OF assms(1,2,3), of "of_nat i"] assms(6) ui by auto
  have p1: "ec_pos ch1 = i" using sk(3) assms(4) by simp
  then have lim: "Suc (ec_pos ch1) < 2 ^ 32" using assms(5) by simp
  note f = ec.follows_advance [OF sk(2) lim]
  let ?s1 = "s\<lparr>rs_receiving_chain := Some ch1, rs_skipped := keys\<rparr>"
  let ?s = "?s1\<lparr>rs_receiving_chain := Some (fst (chain_advance ?X ch1))\<rparr>"
  have pos: "recv_pos ?s = Suc i" "recv_pos s = ec_pos ch"
    using p1 lim assms(3) by (simp_all add: recv_pos_def unat_add_one)
  have on: "on_ec R g ?s" using assms(1) f(1) g unfolding on_ec_def by auto
  have st: "store_on R g ?s"
    unfolding store_on_def
  proof (intro conjI allI impI)
    show "hashmap_invar (rs_skipped ?s)" using sk(4) by simp
    fix n d sk' assume "map_of (rs_skipped ?s) (n, d) = Some sk'"
    then have "map_of keys (n, d) = Some sk'" by simp
    then consider "d = pub R (g - 1)" "unat n < i" "sk' = skipped_at (ec_key R (g - 2) (unat n)) d"
      | "map_of (rs_skipped s) (n, d) = Some sk'"
      using m [of n d] by (auto split: if_splits)
    then show "\<exists>c. c + 2 \<le> g \<and> d = pub R (Suc c) \<and> sk_message_key sk' = ec_key R c (unat n) \<and>
             (c + 2 = g \<longrightarrow> unat n < recv_pos ?s)"
    proof cases
      case 1
      then show ?thesis using g g2 pos by (intro exI [of _ "g - 2"]) (simp add: skipped_at_def)
    next
      case 2
      then show ?thesis using store_onD(2) [OF assms(2) 2] pos assms(4) by fastforce
    qed
  qed
  have av: "avail R g ?s c' i'" if a: "avail R g s c' i'" "(c' + 2, i') \<noteq> (g, i)" "i' < 2 ^ 32" for c' i'
  proof -
    have u: "unat (of_nat i' :: u32) = i'" using that(3) by (rule u32_of_nat)
    consider "c' = g" | "c' + 2 = g" "ec_pos ch \<le> i'" | "c' + 2 \<le> g" "map_of (rs_skipped s) (of_nat i', pub R (Suc c')) \<noteq> None"
      using a(1) unfolding avail_def pos by blast
    then show ?thesis
    proof cases
      case 2
      then have "i' < i \<or> Suc i \<le> i'" using a(2) by force
      moreover have "pub R (Suc c') = pub R (g - 1)" using 2(1) by auto
      ultimately show ?thesis using 2 m [of "of_nat i'" "pub R (g - 1)"] u unfolding avail_def pos by auto
    next
      case 3
      then show ?thesis using m [of "of_nat i'" "pub R (Suc c')"] unfolding avail_def by auto
    qed (simp add: avail_def)
  qed
  show ?thesis
    using sk(1) f(2) p1 on st av pos(1) by (intro exI [of _ ?s1] exI [of _ ch1]) simp
qed


text \<open>The Diffie-Hellman step onto chain \<open>g\<close>.\<close>

lemma ratchet_step_on:
  assumes "x25519_ok (sr_ext R)" and "on_ec R g s" and "h_dh_public_key h = DhPublicKey (pub R (Suc g))"
  shows "on_ec R (g + 2) (perform_dh_ratchet_step (sr_ext R) (sr_sec R (g + 2)) h s)"
    and "rs_receiving_chain (perform_dh_ratchet_step (sr_ext R) (sr_sec R (g + 2)) h s) = Some (ec_start R g)"
    and "rs_sending_chain (perform_dh_ratchet_step (sr_ext R) (sr_sec R (g + 2)) h s) = Some (ec_start R (g + 1))"
proof -
  let ?X = "sr_ext R" and ?s = "perform_dh_ratchet_step (sr_ext R) (sr_sec R (g + 2)) h s"
  note e = on_ecD [OF assms(2)]
  have dh1: "x_dh ?X (sr_sec R g) (pub R (Suc g)) = x_dh ?X (sr_sec R (Suc g)) (pub R g)"
    unfolding pub_def by (rule x25519D(1) [OF assms(1)])
  have k1: "rk_root_key (kdf_rk ?X (rk_at R g) (x_dh ?X (sr_sec R (Suc g)) (pub R g))) = rk_at R (Suc g)" by simp
  have k2: "rk_root_key (kdf_rk ?X (rk_at R (Suc g)) (x_dh ?X (sr_sec R (Suc (Suc g))) (pub R (Suc g)))) = rk_at R (Suc (Suc g))"
    by simp
  show r: "rs_receiving_chain ?s = Some (ec_start R g)"
    using e(1,3) assms(3) dh1 by (simp add: perform_dh_ratchet_step_def Let_def ec_start_def)
  show sd: "rs_sending_chain ?s = Some (ec_start R (g + 1))"
    using e(1,3) assms(3) dh1 by (simp add: perform_dh_ratchet_step_def Let_def ec_start_def)
  have "rs_dh_self ?s = sr_sec R (g + 2)" "rs_dh_self_public ?s = DhPublicKey (pub R (g + 2))"
    "rs_root_key ?s = rk_at R (g + 2)" "rs_dh_remote ?s = Some (DhPublicKey (pub R (Suc g)))"
    using e(1,3) assms(3) dh1 k1 k2 by (simp_all add: perform_dh_ratchet_step_def Let_def pub_def)
  then show "on_ec R (g + 2) ?s"
    using r sd ec_start_follows [of R g] ec_start_follows [of R "g + 1"] unfolding on_ec_def by simp
qed

lemma ratchet_step_frame [simp]:
  "rs_spqr (perform_dh_ratchet_step X d h s) = rs_spqr s"
  "rs_pending_prekey (perform_dh_ratchet_step X d h s) = rs_pending_prekey s"
  "rs_previous_sending_chain_length (perform_dh_ratchet_step X d h s) =
     (case rs_sending_chain s of None \<Rightarrow> 0 | Some c \<Rightarrow> cs_message_number c)"
  by (simp_all add: perform_dh_ratchet_step_def Let_def)

text \<open>Leaving a chain: the rest of it, up to the announced length, goes into the store.\<close>

lemma leave_chain_on:
  assumes "x25519_ok (sr_ext R)" and "on_ec R g s" and "store_on R g s" and hd: "header_at R g i pn h"
    and "length (rs_skipped s) + (unat pn - recv_pos s) + i \<le> unat MAX_SKIP"
  shows "\<exists>s1. skip_receiving_messages (sr_ext R) pn s = (s1, Inr ()) \<and>
    (let s2 = perform_dh_ratchet_step (sr_ext R) (sr_sec R (g + 2)) h s1
     in on_ec R (g + 2) s2 \<and> store_on R (g + 2) s2 \<and> rs_receiving_chain s2 = Some (ec_start R g) \<and>
        rs_sending_chain s2 = Some (ec_start R (g + 1)) \<and> length (rs_skipped s2) + i \<le> unat MAX_SKIP \<and>
        (\<forall>c' i'. avail R g s c' i' \<and> i' < 2 ^ 32 \<and> (c' + 2 = g \<longrightarrow> i' < unat pn) \<longrightarrow> avail R (g + 2) s2 c' i') \<and>
        rs_previous_sending_chain_length s2 = (case rs_sending_chain s of None \<Rightarrow> 0 | Some ch \<Rightarrow> cs_message_number ch) \<and>
        rs_spqr s2 = rs_spqr s \<and> rs_pending_prekey s2 = rs_pending_prekey s)"
proof -
  let ?X = "sr_ext R"
  obtain s1 where s1: "skip_receiving_messages ?X pn s = (s1, Inr ())" "on_ec R g s1" "hashmap_invar (rs_skipped s1)"
    "length (rs_skipped s1) \<le> length (rs_skipped s) + (unat pn - recv_pos s)"
    "rs_sending_chain s1 = rs_sending_chain s" "rs_spqr s1 = rs_spqr s" "rs_pending_prekey s1 = rs_pending_prekey s"
    and m: "\<And>n d sk. map_of (rs_skipped s1) (n, d) = Some sk \<longleftrightarrow>
       (if 2 \<le> g \<and> d = pub R (g - 1) \<and> recv_pos s \<le> unat n \<and> unat n < unat pn
        then sk = skipped_at (ec_key R (g - 2) (unat n)) d else map_of (rs_skipped s) (n, d) = Some sk)"
  proof (cases "rs_receiving_chain s")
    case None
    then have "g < 2" using on_ecD(8) [OF assms(2)] by simp
    then show ?thesis
      using that [of s] None assms(2) store_onD(1) [OF assms(3)] by (simp add: skip_receiving_messages_def Let_def)
  next
    case (Some ch)
    then have g: "2 \<le> g" and pos: "recv_pos s = ec_pos ch" using on_ecD(8) [OF assms(2)] by (auto simp: recv_pos_def)
    obtain ch' keys where sk: "skip_receiving_messages ?X pn s = (s\<lparr>rs_receiving_chain := Some ch', rs_skipped := keys\<rparr>, Inr ())"
      "ec.follows ?X (ec_key R (g - 2)) ch'" "length keys \<le> length (rs_skipped s) + (unat pn - ec_pos ch)"
      "hashmap_invar keys"
      and mk: "\<And>n d. map_of keys (n, d) =
       (if d = pub R (g - 1) \<and> ec_pos ch \<le> unat n \<and> unat n < unat pn then Some (skipped_at (ec_key R (g - 2) (unat n)) d)
        else map_of (rs_skipped s) (n, d))"
      using skip_receiving_on [OF assms(2,3) Some, of pn] assms(5) pos by auto
    have "on_ec R g (s\<lparr>rs_receiving_chain := Some ch', rs_skipped := keys\<rparr>)"
      using assms(2) sk(2) g unfolding on_ec_def by auto
    then show ?thesis
      using sk mk pos g by (intro that [of "s\<lparr>rs_receiving_chain := Some ch', rs_skipped := keys\<rparr>"]) auto
  qed
  let ?s2 = "perform_dh_ratchet_step ?X (sr_sec R (g + 2)) h s1"
  note st = ratchet_step_on [OF assms(1) s1(2) header_atD(2) [OF hd]]
  have pos2: "recv_pos ?s2 = 0" using st(2) by (simp add: recv_pos_def)
  have "store_on R (g + 2) ?s2"
    unfolding store_on_def
  proof (intro conjI allI impI)
    show "hashmap_invar (rs_skipped ?s2)" using s1(3) by simp
    fix n d sk assume "map_of (rs_skipped ?s2) (n, d) = Some sk"
    then consider "2 \<le> g" "d = pub R (g - 1)" "sk = skipped_at (ec_key R (g - 2) (unat n)) d" | "map_of (rs_skipped s) (n, d) = Some sk"
      using m [of n d sk] by (auto split: if_splits)
    then show "\<exists>c. c + 2 \<le> g + 2 \<and> d = pub R (Suc c) \<and> sk_message_key sk = ec_key R c (unat n) \<and>
        (c + 2 = g + 2 \<longrightarrow> unat n < recv_pos ?s2)"
    proof cases
      case 1
      then have "Suc (g - 2) = g - 1" by simp
      then show ?thesis using 1 by (intro exI [of _ "g - 2"]) (auto simp: skipped_at_def)
    next
      case 2
      then obtain c where "c + 2 \<le> g" "d = pub R (Suc c)" "sk_message_key sk = ec_key R c (unat n)"
        using store_onD(2) [OF assms(3) 2] by blast
      then show ?thesis by (intro exI [of _ c]) simp
    qed
  qed
  moreover have "avail R (g + 2) ?s2 c' i'"
    if a: "avail R g s c' i'" "i' < 2 ^ 32" "c' + 2 = g \<longrightarrow> i' < unat pn" for c' i'
  proof -
    have u: "unat (of_nat i' :: u32) = i'" using a(2) by (rule u32_of_nat)
    consider "c' = g" | "c' + 2 = g" "recv_pos s \<le> i'" | "c' + 2 \<le> g" "map_of (rs_skipped s) (of_nat i', pub R (Suc c')) \<noteq> None"
      using a(1) unfolding avail_def by blast
    then show ?thesis
    proof cases
      case 1
      then show ?thesis using pos2 by (simp add: avail_def)
    next
      case 2
      then have "pub R (Suc c') = pub R (g - 1)" "2 \<le> g" by auto
      then have "map_of (rs_skipped s1) (of_nat i', pub R (Suc c')) \<noteq> None"
        using 2 a(3) m [of "of_nat i'" "pub R (g - 1)"] u by auto
      then show ?thesis using 2 by (simp add: avail_def)
    next
      case 3
      then have "map_of (rs_skipped s1) (of_nat i', pub R (Suc c')) \<noteq> None"
        using m [of "of_nat i'" "pub R (Suc c')"] by (auto split: if_splits)
      then show ?thesis using 3 by (simp add: avail_def)
    qed
  qed
  moreover have "length (rs_skipped ?s2) + i \<le> unat MAX_SKIP" using s1(4) assms(5) by simp
  ultimately show ?thesis
    using s1 st by (intro exI [of _ s1]) (simp add: Let_def)
qed


definition room_for :: "nat \<Rightarrow> nat \<Rightarrow> nat \<Rightarrow> u32 \<Rightarrow> ratchet_session \<Rightarrow> bool" where
  "room_for g c i pn s \<longleftrightarrow>
     length (rs_skipped s) + (if c = g then (unat pn - recv_pos s) + i else i - recv_pos s) \<le> unat MAX_SKIP"

text \<open>
  Any key that can still be had is resolved to the scheduled one, and every other one stays
  available, with the messages of a chain that is left bounded by its announced length.
\<close>

lemma resolve_on:
  assumes X: "x25519_ok (sr_ext R)" and on: "on_ec R g s" and st: "store_on R g s" and inj: "inj_on (pub R) {..g + 1}"
    and hd: "header_at R c i pn h" and "c \<le> g" and av: "avail R g s c i" and room: "room_for g c i pn s"
  shows "\<exists>s'. resolve_ec_key (sr_ext R) (sr_sec R (g + 2)) h s = (s', Inr (ec_key R c i)) \<and>
           resolved R g c i (unat pn) s s'"
proof (cases "map_of (rs_skipped s) (of_nat i, pub R (Suc c))")
  case (Some sk)
  then show ?thesis using resolve_stored [OF on st inj hd assms(6)] by blast
next
  case None
  let ?X = "sr_ext R"
  note h = header_atD [OF hd]
  have lookup: "try_remove_by_dh (dh_public_key_bytes (h_dh_public_key h)) (h_message_number h) (rs_skipped s) = (rs_skipped s, None)"
    using None h by (simp add: try_remove_by_dh_def)
  show ?thesis
  proof (cases "c = g")
    case True
    have "rs_dh_remote s = None \<or> (\<exists>r. rs_dh_remote s = Some r \<and> r \<noteq> h_dh_public_key h)"
    proof (cases "g = 0")
      case False
      have "g - 1 \<le> g + 1" "g - 1 \<noteq> Suc g" by linarith+
      then have "pub R (g - 1) \<noteq> pub R (Suc g)" using inj_onD [OF inj, of "g - 1" "Suc g"] by auto
      then show ?thesis using on_ecD(4) [OF on] False h(2) True by simp
    qed (use on_ecD(5) [OF on] in simp)
    then have need: "(case rs_dh_remote s of None \<Rightarrow> True | Some r \<Rightarrow> r \<noteq> h_dh_public_key h)" by auto
    have rm: "length (rs_skipped s) + (unat pn - recv_pos s) + i \<le> unat MAX_SKIP"
      using room True by (simp add: room_for_def)
    obtain s1 where s1: "skip_receiving_messages ?X pn s = (s1, Inr ())"
      and l: "let s2 = perform_dh_ratchet_step ?X (sr_sec R (g + 2)) h s1
     in on_ec R (g + 2) s2 \<and> store_on R (g + 2) s2 \<and> rs_receiving_chain s2 = Some (ec_start R g) \<and>
        rs_sending_chain s2 = Some (ec_start R (g + 1)) \<and> length (rs_skipped s2) + i \<le> unat MAX_SKIP \<and>
        (\<forall>c' i'. avail R g s c' i' \<and> i' < 2 ^ 32 \<and> (c' + 2 = g \<longrightarrow> i' < unat pn) \<longrightarrow> avail R (g + 2) s2 c' i') \<and>
        rs_previous_sending_chain_length s2 = (case rs_sending_chain s of None \<Rightarrow> 0 | Some ch \<Rightarrow> cs_message_number ch) \<and>
        rs_spqr s2 = rs_spqr s \<and> rs_pending_prekey s2 = rs_pending_prekey s"
      using leave_chain_on [OF X on st hd [unfolded True] rm] by blast
    define s2 where "s2 = perform_dh_ratchet_step ?X (sr_sec R (g + 2)) h s1"
    note l2 = l [folded s2_def, unfolded Let_def]
    obtain s3 ch3 where s3: "skip_receiving_messages ?X (of_nat i) s2 = (s3, Inr ())" "rs_receiving_chain s3 = Some ch3"
      "snd (chain_advance ?X ch3) = ec_key R (g + 2 - 2) i"
      and s4: "on_ec R (g + 2) (s3\<lparr>rs_receiving_chain := Some (fst (chain_advance ?X ch3))\<rparr>)"
      "store_on R (g + 2) (s3\<lparr>rs_receiving_chain := Some (fst (chain_advance ?X ch3))\<rparr>)"
      "\<forall>c' i'. avail R (g + 2) s2 c' i' \<and> (c' + 2, i') \<noteq> (g + 2, i) \<and> i' < 2 ^ 32 \<longrightarrow>
         avail R (g + 2) (s3\<lparr>rs_receiving_chain := Some (fst (chain_advance ?X ch3))\<rparr>) c' i'"
      "recv_pos (s3\<lparr>rs_receiving_chain := Some (fst (chain_advance ?X ch3))\<rparr>) = Suc i"
      and fr: "rs_sending_chain s3 = rs_sending_chain s2"
      "rs_previous_sending_chain_length s3 = rs_previous_sending_chain_length s2"
      "rs_spqr s3 = rs_spqr s2" "rs_pending_prekey s3 = rs_pending_prekey s2"
      using advance_on [of R "g + 2" s2 "ec_start R g" i] l2 h(6) by auto
    have "resolve_ec_key ?X (sr_sec R (g + 2)) h s =
        (s3\<lparr>rs_receiving_chain := Some (fst (chain_advance ?X ch3))\<rparr>, Inr (ec_key R c i))"
      using lookup need s1 s3 h(3,5) True 
      by (simp add: resolve_ec_key_def ratchet_if_new_def take_receiving_key_def s2_def Let_def split_beta)
    moreover have "resolved R g c i (unat pn) s (s3\<lparr>rs_receiving_chain := Some (fst (chain_advance ?X ch3))\<rparr>)"
      using s4 fr l2 True unfolding resolved_def next_gen_def by auto
    ultimately show ?thesis by blast
  next
    case False
    then have c: "c + 2 = g" "recv_pos s \<le> i" using av None by (auto simp: avail_def)
    then obtain ch where ch: "rs_receiving_chain s = Some ch" using on_ecD(8) [OF on] by (cases "rs_receiving_chain s") auto
    then have pos: "recv_pos s = ec_pos ch" by (simp add: recv_pos_def)
    have "rs_dh_remote s = Some (h_dh_public_key h)" using on_ecD(4) [OF on] c(1) h(2) by auto
    then have need: "\<not> (case rs_dh_remote s of None \<Rightarrow> True | Some r \<Rightarrow> r \<noteq> h_dh_public_key h)" by simp
    have rm: "length (rs_skipped s) + (i - ec_pos ch) \<le> unat MAX_SKIP" using room False pos by (simp add: room_for_def)
    have ge: "ec_pos ch \<le> i" using c(2) pos by simp
    obtain s3 ch3 where s3: "skip_receiving_messages ?X (of_nat i) s = (s3, Inr ())" "rs_receiving_chain s3 = Some ch3"
      "snd (chain_advance ?X ch3) = ec_key R (g - 2) i"
      and s4: "on_ec R g (s3\<lparr>rs_receiving_chain := Some (fst (chain_advance ?X ch3))\<rparr>)"
      "store_on R g (s3\<lparr>rs_receiving_chain := Some (fst (chain_advance ?X ch3))\<rparr>)"
      "\<forall>c' i'. avail R g s c' i' \<and> (c' + 2, i') \<noteq> (g, i) \<and> i' < 2 ^ 32 \<longrightarrow>
         avail R g (s3\<lparr>rs_receiving_chain := Some (fst (chain_advance ?X ch3))\<rparr>) c' i'"
      "recv_pos (s3\<lparr>rs_receiving_chain := Some (fst (chain_advance ?X ch3))\<rparr>) = Suc i"
      and fr: "rs_sending_chain s3 = rs_sending_chain s"
      "rs_previous_sending_chain_length s3 = rs_previous_sending_chain_length s"
      "rs_spqr s3 = rs_spqr s" "rs_pending_prekey s3 = rs_pending_prekey s"
      using advance_on [OF on st ch ge h(6) rm] by blast
    have g2: "g - 2 = c" using c(1) by simp
    have "resolve_ec_key ?X (sr_sec R (g + 2)) h s =
        (s3\<lparr>rs_receiving_chain := Some (fst (chain_advance ?X ch3))\<rparr>, Inr (ec_key R c i))"
      using lookup need s3 h(3) g2 
      by (simp add: resolve_ec_key_def ratchet_if_new_def take_receiving_key_def Let_def split_beta)
    moreover have "resolved R g c i (unat pn) s (s3\<lparr>rs_receiving_chain := Some (fst (chain_advance ?X ch3))\<rparr>)"
      using s4 fr False c(1) unfolding resolved_def next_gen_def by auto
    ultimately show ?thesis by blast
  qed
qed

end
