(* ===== verification/Session_System.thy ===== *)
theory Session_System
  imports Session_Ec
begin

text \<open>
  Two sessions over a network that may lose, reorder, delay and duplicate messages. As the
  session store prescribes (a session's data is replaced after a successful decrypt only),
  a delivery that fails leaves the receiver as it was, so only successful ones are steps.
  A \<open>letter\<close> is a message together with what was encrypted and where it sits on the
  schedule: chain, number in the chain, length of the chain before. \<open>got p\<close> holds the
  positions of the letters delivered to \<open>p\<close>. A delivery needs room in the store for the
  keys it skips, the bound that \<open>SkippedKeys\<close> enforces by dropping keys.
\<close>

record letter =
  lt_message :: ratchet_message
  lt_plaintext :: bytes
  lt_chain :: nat
  lt_number :: nat
  lt_previous :: u32

record session_system =
  ends :: "party \<Rightarrow> ratchet_session"
  gens :: "party \<Rightarrow> nat"
  letters :: "party \<Rightarrow> letter set"
  got :: "party \<Rightarrow> (nat \<times> nat) set"

definition session_init :: "session_run \<Rightarrow> session_system" where
  "session_init R =
     \<lparr>ends = (\<lambda>p. case p of
         Alice \<Rightarrow> initialize_alice (sr_ext R) (sr_sec R 1) (sr_secret R) (pub R 0)
       | Bob \<Rightarrow> initialize_bob (sr_ext R) (sr_secret R) (sr_sec R 0, pub R 0)),
      gens = (\<lambda>p. case p of Alice \<Rightarrow> 1 | Bob \<Rightarrow> 0), letters = (\<lambda>_. {}), got = (\<lambda>_. {})\<rparr>"

definition letter_of :: "session_system \<Rightarrow> party \<Rightarrow> bytes \<Rightarrow> ratchet_message \<Rightarrow> letter" where
  "letter_of S p plaintext msg =
     \<lparr>lt_message = msg, lt_plaintext = plaintext, lt_chain = gens S p - 1,
      lt_number = (case rs_sending_chain (ends S p) of None \<Rightarrow> 0 | Some ch \<Rightarrow> ec_pos ch),
      lt_previous = rs_previous_sending_chain_length (ends S p)\<rparr>"

inductive session_reach :: "session_run \<Rightarrow> nat \<Rightarrow> session_system \<Rightarrow> bool" for R where
  session_start: "session_reach R 0 (session_init R)"
| session_send: "session_reach R n S \<Longrightarrow> nonce24 nonce \<Longrightarrow>
     encrypt (sr_ext R) (sr_codec R) (run_draw (sr_braid R) (state_epoch (braid_st (rs_spqr (ends S p)))))
       nonce plaintext (sr_ident R p) (sr_ident R (other p)) (ends S p) = (s', Inr msg) \<Longrightarrow>
     session_reach R (Suc n)
       (S\<lparr>ends := (ends S)(p := s'), letters := (letters S)(p := insert (letter_of S p plaintext msg) (letters S p))\<rparr>)"
| session_deliver: "session_reach R n S \<Longrightarrow> l \<in> letters S (other p) \<Longrightarrow>
     room_for (gens S p) (lt_chain l) (lt_number l) (lt_previous l) (ends S p) \<Longrightarrow>
     decrypt (sr_ext R) (sr_codec R) (sr_sec R (gens S p + 2)) (lt_message l)
       (sr_ident R (other p)) (sr_ident R p) (ends S p) = (s', Inr plaintext) \<Longrightarrow>
     session_reach R (Suc n)
       (S\<lparr>ends := (ends S)(p := s'), gens := (gens S)(p := next_gen (gens S p) (lt_chain l)),
          got := (got S)(p := insert (lt_chain l, lt_number l) (got S p))\<rparr>)"

text \<open>What the run needs: the external code, the codec, valid identities, matching seeds.\<close>

definition session_run_ok :: "session_run \<Rightarrow> bool" where
  "session_run_ok R \<longleftrightarrow>
     run_ok (sr_braid R) \<and> x25519_ok (sr_ext R) \<and> xchacha_ok (sr_ext R) \<and> codec_ok (sr_codec R) \<and>
     run_seed (sr_braid R) = braid_auth_seed (sr_ext R) (sr_secret R) \<and>
     (\<forall>p. ed_point (sr_ext R) (identity_public_bytes (sr_ident R p)))"

lemma session_run_okD:
  assumes "session_run_ok R"
  shows "run_ok (sr_braid R)" "x25519_ok (sr_ext R)" "xchacha_ok (sr_ext R)" "codec_ok (sr_codec R)"
    "run_seed (sr_braid R) = braid_auth_seed (sr_ext R) (sr_secret R)"
    "\<exists>ad. build_ad (sr_ext R) (sr_ident R p) (sr_ident R q) hb = Inr ad"
  using assms by (simp_all add: session_run_ok_def build_ad_def to_x25519_def)

section \<open>Letters\<close>

text \<open>The post-quantum coordinates of a header.\<close>

definition pq_at :: "message_header \<Rightarrow> u64 \<times> u32" where
  "pq_at h = (saturating_sub (msg_epoch (h_braid_msg h)) 1, h_pq_message_number h)"

text \<open>A letter of \<open>p\<close> decodes, sits on the schedule, and opens under its two keys.\<close>

definition letter_keys ::
  "session_run \<Rightarrow> spqr_system \<Rightarrow> party \<Rightarrow> letter \<Rightarrow> message_header \<Rightarrow> message_key \<Rightarrow> bool" where
  "letter_keys R P p l h pq \<longleftrightarrow>
     header_deserialize (sr_codec R) (rm_header (lt_message l)) = Inr h \<and>
     header_at R (lt_chain l) (lt_number l) (lt_previous l) h \<and>
     (h_braid_msg h, h_pq_message_number h, pq) \<in> carried P p \<and>
     (\<forall>ad. build_ad (sr_ext R) (sr_ident R p) (sr_ident R (other p)) (rm_header (lt_message l)) = Inr ad \<longrightarrow>
        open_message (sr_ext R) ad (rm_ciphertext (lt_message l)) (ec_key R (lt_chain l) (lt_number l)) pq
          = Inr (lt_plaintext l))"

lemma seal_open:
  assumes "xchacha_ok X" and "nonce24 nonce" and "codec_ok H"
    and "seal_message X H nonce plaintext a b h ec pq = Inr msg"
  shows "header_deserialize H (rm_header msg) = Inr h"
    and "build_ad X a b (rm_header msg) = Inr ad \<Longrightarrow> open_message X ad (rm_ciphertext msg) ec pq = Inr plaintext"
proof -
  from assms(4) obtain hb ad' ct where m: "header_serialize H h = Inr hb" "build_ad X a b hb = Inr ad'"
    "aead_encrypt X (message_key_bytes (kdf_hybrid X ec (message_key_bytes pq))) nonce (pad plaintext) ad' = Inr ct"
    "msg = \<lparr>rm_header = hb, rm_ciphertext = ct\<rparr>"
    by (auto simp: seal_message_def Let_def split: sum.splits)
  show "header_deserialize H (rm_header msg) = Inr h"
    using header_round_trip [OF assms(3), of h] m(1,4) by auto
  show "open_message X ad (rm_ciphertext msg) ec pq = Inr plaintext" if "build_ad X a b (rm_header msg) = Inr ad"
    using aead_decrypt_encrypt [OF assms(1,2) m(3)] that m(2,4) by (simp add: open_message_def Let_def)
qed

text \<open>An encryption is a send of SPQR and one step of the sending chain.\<close>

lemma encrypt_view:
  assumes "encrypt X H rng nonce plaintext a b s = (s', Inr msg)"
  shows "\<exists>pq bm k mk ch. ratchet_send_key X rng (rs_spqr s) = (pq, Inr (bm, k, mk)) \<and>
     rs_sending_chain s = Some ch \<and> rs_pending_prekey s = None \<and>
     s' = s\<lparr>rs_spqr := pq, rs_sending_chain := Some (fst (chain_advance X ch))\<rparr> \<and>
     seal_message X H nonce plaintext a b
       \<lparr>h_dh_public_key = rs_dh_self_public s, h_previous_chain_length = rs_previous_sending_chain_length s,
        h_message_number = cs_message_number ch, h_braid_msg = bm, h_pq_message_number = k\<rparr>
       (snd (chain_advance X ch)) mk = Inr msg"
proof -
  obtain pq r where r: "ratchet_send_key X rng (rs_spqr s) = (pq, r)" by (metis surj_pair)
  have p: "rs_pending_prekey s = None" using assms by (auto simp: encrypt_def split: if_splits)
  then have e: "encrypt_raw X H rng nonce plaintext a b s = (s', Inr msg)" using assms by (simp add: encrypt_def)
  then obtain bm k mk where r2: "r = Inr (bm, k, mk)"
    using r by (cases r) (auto simp: encrypt_raw_def)
  then obtain ch where ch: "rs_sending_chain s = Some ch"
    using e r by (cases "rs_sending_chain s") (auto simp: encrypt_raw_def Let_def)
  show ?thesis
    using e r r2 ch p by (auto simp: encrypt_raw_def Let_def split_beta)
qed

text \<open>A decryption is a resolution of the ratchet key and a receive of SPQR.\<close>

lemma skip_receiving_spqr: "rs_spqr (fst (skip_receiving_messages X u t)) = rs_spqr t"
  by (simp add: skip_receiving_messages_def Let_def split_beta split: option.splits)

lemma resolve_ec_key_spqr: "rs_spqr (fst (resolve_ec_key X d h s)) = rs_spqr s"
proof -
  have r: "rs_spqr (fst (ratchet_if_new X d h s)) = rs_spqr s"
    using ratchet_if_new_cases [of X d h s] by (auto simp: skip_receiving_spqr)
  have "rs_spqr (fst (take_receiving_key X n t)) = rs_spqr t" for n t
    using take_receiving_key_cases [of X n t] by (auto simp: skip_receiving_spqr)
  then show ?thesis using resolve_ec_key_cases [of X d h s] r by (elim insertE) simp_all
qed

lemma decrypt_view:
  assumes "header_deserialize H (rm_header msg) = Inr h" and "build_ad X a b (rm_header msg) = Inr ad"
    and "resolve_ec_key X d h s = (s1, Inr ec)"
    and "ratchet_receive_key X (h_braid_msg h) (h_pq_message_number h) (rs_spqr s1) = (pq, Inr mk)"
  shows "decrypt X H d msg a b s = (s1\<lparr>rs_spqr := pq\<rparr>, open_message X ad (rm_ciphertext msg) ec mk)"
  using assms by (simp add: decrypt_def)

lemma decrypt_pq_ok:
  assumes "header_deserialize H (rm_header msg) = Inr h" and "decrypt X H d msg a b s = (s', Inr plaintext)"
  shows "is_ok (snd (ratchet_receive_key X (h_braid_msg h) (h_pq_message_number h) (rs_spqr s)))"
proof -
  obtain s1 r where r: "resolve_ec_key X d h s = (s1, r)" by (metis surj_pair)
  then have "rs_spqr s1 = rs_spqr s" using resolve_ec_key_spqr by (metis fst_conv)
  then show ?thesis
    using assms r by (auto simp: decrypt_def split: sum.splits prod.splits)
qed

end
