(* ===== verification/Session_Agreement.thy ===== *)
theory Session_Agreement
  imports Session_System
begin

text \<open>
  The contract of the session: between two honest parties, over any network, a letter that
  decrypts yields what was encrypted, and a letter not delivered before does decrypt as long
  as the bounds of the two ratchets allow it.
\<close>

section \<open>The invariant\<close>

definition send_pos :: "ratchet_session \<Rightarrow> nat" where
  "send_pos s = (case rs_sending_chain s of None \<Rightarrow> 0 | Some ch \<Rightarrow> ec_pos ch)"

definition place :: "letter \<Rightarrow> nat \<times> nat" where
  "place l = (lt_chain l, lt_number l)"

text \<open>Where the letters of \<open>q\<close> can sit, given its current chain.\<close>

definition letters_placed :: "session_system \<Rightarrow> party \<Rightarrow> bool" where
  "letters_placed S q \<longleftrightarrow>
     (\<forall>l \<in> letters S q.
        lt_chain l + 1 \<le> gens S q \<and>
        (lt_chain l + 1 = gens S q \<longrightarrow>
           lt_number l < send_pos (ends S q) \<and> lt_previous l = rs_previous_sending_chain_length (ends S q)) \<and>
        (lt_chain l + 3 = gens S q \<longrightarrow> lt_number l < unat (rs_previous_sending_chain_length (ends S q))) \<and>
        (\<forall>l' \<in> letters S q.
           (lt_chain l' + 2 = lt_chain l \<longrightarrow> lt_number l' < unat (lt_previous l)) \<and>
           (lt_chain l' = lt_chain l \<and> lt_number l' = lt_number l \<longrightarrow> l' = l)))"

text \<open>What the other party \<open>p\<close> holds for a letter: its keys if it has not arrived, a spent counter if it has.\<close>

definition letter_status :: "session_run \<Rightarrow> session_system \<Rightarrow> spqr_system \<Rightarrow> party \<Rightarrow> letter \<Rightarrow> bool" where
  "letter_status R S P p l \<longleftrightarrow>
     (\<exists>h pq. letter_keys R P (other p) l h pq \<and>
        (place l \<in> got S p \<longrightarrow> spent_past (rs_spqr (ends S p)) (pq_at h)) \<and>
        (place l \<notin> got S p \<longrightarrow> avail R (gens S p) (ends S p) (lt_chain l) (lt_number l)))"

definition neighbours :: "session_system \<Rightarrow> party \<Rightarrow> bool" where
  "neighbours S p \<longleftrightarrow>
     (gens S p = gens S (other p) + 1 \<or> gens S (other p) = gens S p + 1) \<and>
     (gens S p = gens S (other p) + 1 \<longrightarrow> recv_pos (ends S p) \<le> send_pos (ends S (other p)))"

definition session_inv :: "session_run \<Rightarrow> nat \<Rightarrow> session_system \<Rightarrow> spqr_system \<Rightarrow> bool" where
  "session_inv R n S P \<longleftrightarrow>
     spqr_reach (sr_braid R) (sr_secret R) n P \<and>
     (\<forall>p. peers P p = rs_spqr (ends S p) \<and>
        on_ec R (gens S p) (ends S p) \<and> store_on R (gens S p) (ends S p) \<and>
        rs_pending_prekey (ends S p) = None \<and> send_pos (ends S p) \<le> n \<and> gens S p \<le> 2 * n + 1 \<and>
        neighbours S p \<and> letters_placed S p \<and>
        got S p \<subseteq> place ` letters S (other p) \<and> (\<forall>l \<in> letters S (other p). letter_status R S P p l))"

lemma session_invD:
  assumes "session_inv R n S P"
  shows "spqr_reach (sr_braid R) (sr_secret R) n P" "peers P p = rs_spqr (ends S p)"
    "on_ec R (gens S p) (ends S p)" "store_on R (gens S p) (ends S p)" "rs_pending_prekey (ends S p) = None"
    "send_pos (ends S p) \<le> n" "gens S p \<le> 2 * n + 1" "neighbours S p" "letters_placed S p"
    "l \<in> letters S (other p) \<Longrightarrow> letter_status R S P p l" "got S p \<subseteq> place ` letters S (other p)"
  using assms by (simp_all add: session_inv_def)

lemma session_invI:
  assumes "spqr_reach (sr_braid R) (sr_secret R) n P"
    and "\<And>p. peers P p = rs_spqr (ends S p)" and "\<And>p. on_ec R (gens S p) (ends S p)"
    and "\<And>p. store_on R (gens S p) (ends S p)" and "\<And>p. rs_pending_prekey (ends S p) = None"
    and "\<And>p. send_pos (ends S p) \<le> n" and "\<And>p. gens S p \<le> 2 * n + 1" and "\<And>p. neighbours S p"
    and "\<And>p. letters_placed S p" and "\<And>p. got S p \<subseteq> place ` letters S (other p)"
    and "\<And>p l. l \<in> letters S (other p) \<Longrightarrow> letter_status R S P p l"
  shows "session_inv R n S P"
  using assms by (simp add: session_inv_def)

lemma letters_placedD:
  assumes "letters_placed S q" and "l \<in> letters S q"
  shows "lt_chain l + 1 \<le> gens S q"
    "lt_chain l + 1 = gens S q \<Longrightarrow> lt_number l < send_pos (ends S q)"
    "lt_chain l + 1 = gens S q \<Longrightarrow> lt_previous l = rs_previous_sending_chain_length (ends S q)"
    "lt_chain l + 3 = gens S q \<Longrightarrow> lt_number l < unat (rs_previous_sending_chain_length (ends S q))"
    "l' \<in> letters S q \<Longrightarrow> lt_chain l' + 2 = lt_chain l \<Longrightarrow> lt_number l' < unat (lt_previous l)"
    "l' \<in> letters S q \<Longrightarrow> lt_chain l' = lt_chain l \<Longrightarrow> lt_number l' = lt_number l \<Longrightarrow> l' = l"
  using assms unfolding letters_placed_def by blast+

section \<open>The start\<close>

lemma session_inv_init:
  assumes "x25519_ok (sr_ext R)"
  shows "session_inv R 0 (session_init R) (spqr_system_init (sr_ext R) (sr_secret R))"
proof (rule session_invI)
  let ?S = "session_init R"
  have sec1: "sr_sec R (Suc 0) = sr_sec R 1" by simp
  show "spqr_reach (sr_braid R) (sr_secret R) 0 (spqr_system_init (sr_ext R) (sr_secret R))" by (rule spqr_start)
  show "peers (spqr_system_init (sr_ext R) (sr_secret R)) p = rs_spqr (ends ?S p)" for p
    by (cases p) (simp_all add: spqr_system_init_def session_init_def initialize_alice_def initialize_bob_def Let_def
        spqr_new_sender_def spqr_new_receiver_def)
  show "on_ec R (gens ?S p) (ends ?S p)" for p
    using ec_start_follows [of R 0]
    by (cases p) (simp_all add: session_init_def on_ec_def initialize_alice_def initialize_bob_def Let_def ec_start_def pub_def)
  show "store_on R (gens ?S p) (ends ?S p)" for p
    by (cases p) (simp_all add: session_init_def store_on_def initialize_alice_def initialize_bob_def Let_def skipped_new_def)
  show "rs_pending_prekey (ends ?S p) = None" "send_pos (ends ?S p) \<le> 0" "gens ?S p \<le> 2 * 0 + 1" for p
    by (cases p; simp add: session_init_def send_pos_def initialize_alice_def initialize_bob_def Let_def chain_new_def)+
  show "neighbours ?S p" for p
    by (cases p) (simp_all add: neighbours_def session_init_def recv_pos_def initialize_alice_def Let_def)
  show "letters_placed ?S p" "got ?S p \<subseteq> place ` letters ?S (other p)" for p
    by (simp_all add: letters_placed_def session_init_def)
  show "letter_status R ?S (spqr_system_init (sr_ext R) (sr_secret R)) p l" if "l \<in> letters ?S (other p)" for p l
    using that by (simp add: session_init_def)
qed

section \<open>Sending\<close>

lemma on_ec_send:
  assumes "on_ec R g s" and "rs_sending_chain s = Some ch" and "Suc (ec_pos ch) < 2 ^ 32"
  shows "on_ec R g (s\<lparr>rs_spqr := pq, rs_sending_chain := Some (fst (chain_advance (sr_ext R) ch))\<rparr>)"
    and "snd (chain_advance (sr_ext R) ch) = ec_key R (g - 1) (ec_pos ch)"
proof -
  note f = ec.follows_advance [OF on_ecD(7) [OF assms(1,2)] assms(3)]
  show "snd (chain_advance (sr_ext R) ch) = ec_key R (g - 1) (ec_pos ch)" using f(2) by simp
  show "on_ec R g (s\<lparr>rs_spqr := pq, rs_sending_chain := Some (fst (chain_advance (sr_ext R) ch))\<rparr>)"
    using assms(1,2) f(1) unfolding on_ec_def by auto
qed

lemma recv_side_simps [simp]:
  "recv_pos (s\<lparr>rs_spqr := pq, rs_sending_chain := c\<rparr>) = recv_pos s"
  "store_on R g (s\<lparr>rs_spqr := pq, rs_sending_chain := c\<rparr>) = store_on R g s"
  "avail R g (s\<lparr>rs_spqr := pq, rs_sending_chain := c\<rparr>) = avail R g s"
  "recv_pos (s\<lparr>rs_spqr := pq\<rparr>) = recv_pos s" "send_pos (s\<lparr>rs_spqr := pq\<rparr>) = send_pos s"
  "store_on R g (s\<lparr>rs_spqr := pq\<rparr>) = store_on R g s" "on_ec R g (s\<lparr>rs_spqr := pq\<rparr>) = on_ec R g s"
  "avail R g (s\<lparr>rs_spqr := pq\<rparr>) = avail R g s"
  by (simp_all add: recv_pos_def send_pos_def store_on_def on_ec_def avail_def fun_eq_iff)


lemma letter_keys_mono:
  "letter_keys R P q l h pq \<Longrightarrow> carried P q \<subseteq> carried P' q \<Longrightarrow> letter_keys R P' q l h pq"
  unfolding letter_keys_def by blast

text \<open>A letter's status survives what its receiver and the other messages do.\<close>

lemma letter_status_keep:
  assumes "letter_status R S P p l" and "carried P (other p) \<subseteq> carried P' (other p)" and "got S' p = got S p"
    and "\<And>i. spent_past (rs_spqr (ends S p)) i \<Longrightarrow> spent_past (rs_spqr (ends S' p)) i"
    and "avail R (gens S p) (ends S p) = avail R (gens S' p) (ends S' p)"
  shows "letter_status R S' P' p l"
  using assms(1,3-5) letter_keys_mono [OF _ assms(2)] unfolding letter_status_def by metis

text \<open>The letter an encryption adds.\<close>

lemma encrypt_letter:
  assumes ok: "session_run_ok R" and inv: "session_inv R n S P" and lim: "Suc n < 2 ^ 32" and "nonce24 nonce"
    and e: "encrypt (sr_ext R) (sr_codec R) (run_draw (sr_braid R) (state_epoch (braid_st (rs_spqr (ends S p)))))
       nonce plaintext (sr_ident R p) (sr_ident R (other p)) (ends S p) = (s', Inr msg)"
  shows "\<exists>pq bm k mk h ch. rs_sending_chain (ends S p) = Some ch \<and>
     s' = (ends S p)\<lparr>rs_spqr := pq, rs_sending_chain := Some (fst (chain_advance (sr_ext R) ch))\<rparr> \<and>
     ratchet_send_key (sr_ext R) (run_draw (sr_braid R) (state_epoch (braid_st (peers P p)))) (peers P p) = (pq, Inr (bm, k, mk)) \<and>
     0 < gens S p \<and> on_ec R (gens S p) s' \<and> send_pos s' = Suc (send_pos (ends S p)) \<and>
     letter_keys R (P\<lparr>peers := (peers P)(p := pq), carried := (carried P)(p := insert (bm, k, mk) (carried P p))\<rparr>) p
       (letter_of S p plaintext msg) h mk"
proof -
  note i = session_invD [OF inv] and o1 = session_run_okD [OF ok]
  obtain pq bm k mk ch where v: "ratchet_send_key (sr_ext R) (run_draw (sr_braid R) (state_epoch (braid_st (rs_spqr (ends S p))))) (rs_spqr (ends S p)) = (pq, Inr (bm, k, mk))"
     "rs_sending_chain (ends S p) = Some ch"
     "s' = (ends S p)\<lparr>rs_spqr := pq, rs_sending_chain := Some (fst (chain_advance (sr_ext R) ch))\<rparr>"
     and seal: "seal_message (sr_ext R) (sr_codec R) nonce plaintext (sr_ident R p) (sr_ident R (other p))
       \<lparr>h_dh_public_key = rs_dh_self_public (ends S p), h_previous_chain_length = rs_previous_sending_chain_length (ends S p),
        h_message_number = cs_message_number ch, h_braid_msg = bm, h_pq_message_number = k\<rparr>
       (snd (chain_advance (sr_ext R) ch)) mk = Inr msg"
    using encrypt_view [OF e] by blast
  let ?h = "\<lparr>h_dh_public_key = rs_dh_self_public (ends S p), h_previous_chain_length = rs_previous_sending_chain_length (ends S p),
        h_message_number = cs_message_number ch, h_braid_msg = bm, h_pq_message_number = k\<rparr>"
  have sp: "send_pos (ends S p) = ec_pos ch" using v(2) by (simp add: send_pos_def)
  then have l: "Suc (ec_pos ch) < 2 ^ 32" using i(6) [of p] lim by simp
  note on = on_ec_send [OF i(3) v(2) l]
  have g: "0 < gens S p" using on_ecD(6) [OF i(3), of p] v(2) by auto
  have "header_at R (gens S p - 1) (ec_pos ch) (rs_previous_sending_chain_length (ends S p)) ?h"
    using on_ecD(2) [OF i(3), of p] g l by (simp add: header_at_def)
  moreover have "send_pos s' = Suc (ec_pos ch)" using v(3) l by (simp add: send_pos_def unat_add_one)
  moreover note seal_open [OF o1(3) assms(4) o1(4) seal]
  ultimately show ?thesis
    using v on g i(2) sp
    by (intro exI [of _ pq] exI [of _ bm] exI [of _ k] exI [of _ mk] exI [of _ ?h] exI [of _ ch])
      (simp add: letter_keys_def letter_of_def)
qed

text \<open>Where the new letter sits.\<close>

lemma letters_placed_send:
  assumes pl: "letters_placed S p" and g: "0 < gens S p" and "send_pos s' = Suc (send_pos (ends S p))"
    and "rs_previous_sending_chain_length s' = rs_previous_sending_chain_length (ends S p)"
  shows "letters_placed (S\<lparr>ends := (ends S)(p := s'),
     letters := (letters S)(p := insert (letter_of S p plaintext msg) (letters S p))\<rparr>) p"
proof -
  let ?l = "letter_of S p plaintext msg"
  have l: "lt_chain ?l + 1 = gens S p" "lt_number ?l = send_pos (ends S p)"
    "lt_previous ?l = rs_previous_sending_chain_length (ends S p)"
    using g by (simp_all add: letter_of_def send_pos_def)
  have old: "lt_chain l' + 1 \<le> gens S p \<and> (lt_chain l' + 1 = gens S p \<longrightarrow> lt_number l' < send_pos (ends S p)) \<and>
      (lt_chain l' + 2 = lt_chain ?l \<longrightarrow> lt_number l' < unat (lt_previous ?l))" if "l' \<in> letters S p" for l'
    using letters_placedD(1,2,4) [OF pl that] l by (auto simp: algebra_simps)
  have new: "l' \<noteq> ?l \<and> \<not> (lt_chain l' = lt_chain ?l \<and> lt_number l' = lt_number ?l) \<and> lt_chain ?l + 2 \<noteq> lt_chain l'"
    if "l' \<in> letters S p" for l'
    using old [OF that] l by auto
  have keep: "lt_chain l + 1 \<le> gens S p \<and>
        (lt_chain l + 1 = gens S p \<longrightarrow>
           lt_number l < send_pos s' \<and> lt_previous l = rs_previous_sending_chain_length s') \<and>
        (lt_chain l + 3 = gens S p \<longrightarrow> lt_number l < unat (rs_previous_sending_chain_length s'))"
    if "l \<in> insert ?l (letters S p)" for l
    using that letters_placedD(1-4) [OF pl, of l] l assms(3,4) by auto
  have pair: "(lt_chain l' + 2 = lt_chain l \<longrightarrow> lt_number l' < unat (lt_previous l)) \<and>
      (lt_chain l' = lt_chain l \<and> lt_number l' = lt_number l \<longrightarrow> l' = l)"
    if "l \<in> insert ?l (letters S p)" "l' \<in> insert ?l (letters S p)" for l l'
  proof (cases "l \<in> letters S p"; cases "l' \<in> letters S p")
    assume "l \<in> letters S p" "l' \<in> letters S p"
    then show ?thesis using letters_placedD(5,6) [OF pl, of l l'] by blast
  next
    assume a: "l \<in> letters S p" "l' \<notin> letters S p"
    then have "l' = ?l" using that(2) by blast
    then show ?thesis using new [OF a(1)] by metis
  next
    assume a: "l \<notin> letters S p" "l' \<in> letters S p"
    then have "l = ?l" using that(1) by blast
    then show ?thesis using new [OF a(2)] old [OF a(2)] by blast
  next
    assume "l \<notin> letters S p" "l' \<notin> letters S p"
    then show ?thesis using that by simp
  qed
  show ?thesis unfolding letters_placed_def using keep pair by simp
qed

lemma session_inv_send:
  assumes ok: "session_run_ok R" and inv: "session_inv R n S P" and lim: "Suc n < 2 ^ 32 - 1" and "nonce24 nonce"
    and e: "encrypt (sr_ext R) (sr_codec R) (run_draw (sr_braid R) (state_epoch (braid_st (rs_spqr (ends S p)))))
       nonce plaintext (sr_ident R p) (sr_ident R (other p)) (ends S p) = (s', Inr msg)"
  shows "\<exists>pq out. ratchet_send_key (sr_ext R) (run_draw (sr_braid R) (state_epoch (braid_st (peers P p)))) (peers P p) = (pq, Inr out) \<and>
     session_inv R (Suc n)
       (S\<lparr>ends := (ends S)(p := s'), letters := (letters S)(p := insert (letter_of S p plaintext msg) (letters S p))\<rparr>)
       (P\<lparr>peers := (peers P)(p := pq), carried := (carried P)(p := insert out (carried P p))\<rparr>)"
proof -
  let ?l = "letter_of S p plaintext msg"
  let ?S = "S\<lparr>ends := (ends S)(p := s'), letters := (letters S)(p := insert ?l (letters S p))\<rparr>"
  note i = session_invD [OF inv] and o1 = session_run_okD [OF ok]
  have lim2: "Suc n < 2 ^ 32" using lim by simp
  obtain pq bm k mk h ch where v: "rs_sending_chain (ends S p) = Some ch"
     "s' = (ends S p)\<lparr>rs_spqr := pq, rs_sending_chain := Some (fst (chain_advance (sr_ext R) ch))\<rparr>"
     "ratchet_send_key (sr_ext R) (run_draw (sr_braid R) (state_epoch (braid_st (peers P p)))) (peers P p) = (pq, Inr (bm, k, mk))"
     "0 < gens S p" "on_ec R (gens S p) s'" "send_pos s' = Suc (send_pos (ends S p))"
     and lk: "letter_keys R (P\<lparr>peers := (peers P)(p := pq), carried := (carried P)(p := insert (bm, k, mk) (carried P p))\<rparr>) p ?l h mk"
    using encrypt_letter [OF ok inv lim2 assms(4) e] by blast
  let ?P = "P\<lparr>peers := (peers P)(p := pq), carried := (carried P)(p := insert (bm, k, mk) (carried P p))\<rparr>"
  have pqok: "pq_system_ok (sr_braid R) n P" using reach_pq_system_ok [OF o1(1,5) i(1)] lim by simp
  have sp: "spent_past pq j" if "spent_past (rs_spqr (ends S p)) j" for j
    using spent_past_send [OF pq_system_okD(2) [OF pqok, of p], of j] that v(3) i(2) [of p] by (metis fst_conv)
  have l: "lt_chain ?l + 1 = gens S p" "lt_number ?l = send_pos (ends S p)"
    using v(4) by (simp_all add: letter_of_def send_pos_def)
  have fresh: "place ?l \<notin> got S (other p)"
  proof
    assume "place ?l \<in> got S (other p)"
    then obtain l' where "l' \<in> letters S p" "place l' = place ?l" using i(11) [of "other p"] by auto
    then show False using letters_placedD(2) [OF i(9), of l' p] l by (simp add: place_def)
  qed
  have av: "avail R (gens S (other p)) (ends S (other p)) (lt_chain ?l) (lt_number ?l)"
    using i(8) [of "other p"] l by (auto simp: neighbours_def avail_def)
  have "session_inv R (Suc n) ?S ?P"
  proof (rule session_invI)
    show "spqr_reach (sr_braid R) (sr_secret R) (Suc n) ?P" using spqr_sends [OF i(1) v(3)] .
    show "peers ?P q = rs_spqr (ends ?S q)" for q using i(2) [of q] v(2) by simp
    show "on_ec R (gens ?S q) (ends ?S q)" "store_on R (gens ?S q) (ends ?S q)" "rs_pending_prekey (ends ?S q) = None"
      "send_pos (ends ?S q) \<le> Suc n" "gens ?S q \<le> 2 * Suc n + 1" for q
      using i(3-7) [of q] v by auto
    show "neighbours ?S q" for q
    proof (cases "q = p")
      case True
      then show ?thesis using i(8) [of p] v(2) by (simp add: neighbours_def)
    next
      case False
      then have "q = other p" using other_cases by metis
      then show ?thesis using i(8) [of "other p"] v(6) by (simp add: neighbours_def) linarith
    qed
    show "letters_placed ?S q" for q
    proof (cases "q = p")
      case True
      then show ?thesis using letters_placed_send [OF i(9) v(4,6)] v(2) by simp
    next
      case False
      then show ?thesis using i(9) [of q] by (simp add: letters_placed_def)
    qed
    show "got ?S q \<subseteq> place ` letters ?S (other q)" for q using i(11) [of q] by auto
    show "letter_status R ?S ?P q l'" if m: "l' \<in> letters ?S (other q)" for q l'
    proof (cases "q = p")
      case True
      then have "letter_status R S P p l'" using i(10) m by simp
      then show ?thesis unfolding True by (rule letter_status_keep) (use sp v(2) in auto)
    next
      case False
      then have q: "q = other p" using other_cases by metis
      show ?thesis
      proof (cases "l' = ?l")
        case True
        then show ?thesis unfolding letter_status_def using q lk fresh av by auto
      next
        case False
        then have "letter_status R S P q l'" using i(10) m q by simp
        then show ?thesis by (rule letter_status_keep) (use q in auto)
      qed
    qed
  qed
  then show ?thesis using v(3) by blast
qed

section \<open>Delivering\<close>

lemma letter_chain_le:
  assumes "session_inv R n S P" and "l \<in> letters S (other p)"
  shows "lt_chain l \<le> gens S p"
  using letters_placedD(1) [OF session_invD(9) [OF assms(1)] assms(2)] session_invD(8) [OF assms(1), of p]
  by (auto simp: neighbours_def)

text \<open>A letter whose post-quantum key is granted decrypts, with the effect \<open>resolved\<close> on the ratchet.\<close>

lemma deliver_view:
  assumes ok: "session_run_ok R" and inv: "session_inv R n S P" and lim: "n < 2 ^ 32 - 1"
    and inj: "inj_on (pub R) {..gens S p + 1}" and l: "l \<in> letters S (other p)"
    and room: "room_for (gens S p) (lt_chain l) (lt_number l) (lt_previous l) (ends S p)"
    and lk: "letter_keys R P (other p) l h pq"
    and av: "avail R (gens S p) (ends S p) (lt_chain l) (lt_number l)"
    and r: "ratchet_receive_key (sr_ext R) (h_braid_msg h) (h_pq_message_number h) (rs_spqr (ends S p)) = (q', Inr mk)"
  shows "\<exists>s1. decrypt (sr_ext R) (sr_codec R) (sr_sec R (gens S p + 2)) (lt_message l)
       (sr_ident R (other p)) (sr_ident R p) (ends S p) = (s1\<lparr>rs_spqr := q'\<rparr>, Inr (lt_plaintext l)) \<and>
     resolved R (gens S p) (lt_chain l) (lt_number l) (unat (lt_previous l)) (ends S p) s1"
proof -
  note i = session_invD [OF inv] and o1 = session_run_okD [OF ok]
  note k = lk [unfolded letter_keys_def]
  have pqok: "pq_system_ok (sr_braid R) n P" using reach_pq_system_ok [OF o1(1,5) i(1) lim] .
  have "mk = pq"
    using message_key_agreement [OF o1(1) pqok, of "h_braid_msg h" "h_pq_message_number h" pq p q' mk] k r i(2) [of p] lim by simp
  obtain s1 where s1: "resolve_ec_key (sr_ext R) (sr_sec R (gens S p + 2)) h (ends S p) = (s1, Inr (ec_key R (lt_chain l) (lt_number l)))"
    "resolved R (gens S p) (lt_chain l) (lt_number l) (unat (lt_previous l)) (ends S p) s1"
    using resolve_on [OF o1(2) i(3,4) inj _ letter_chain_le [OF inv l] av room, of h] k by blast
  have "rs_spqr s1 = rs_spqr (ends S p)" using s1(2) by (simp add: resolved_def)
  moreover obtain ad where ad: "build_ad (sr_ext R) (sr_ident R (other p)) (sr_ident R p) (rm_header (lt_message l)) = Inr ad"
    using o1(6) by blast
  ultimately have "decrypt (sr_ext R) (sr_codec R) (sr_sec R (gens S p + 2)) (lt_message l)
       (sr_ident R (other p)) (sr_ident R p) (ends S p) =
     (s1\<lparr>rs_spqr := q'\<rparr>, open_message (sr_ext R) ad (rm_ciphertext (lt_message l)) (ec_key R (lt_chain l) (lt_number l)) mk)"
    using decrypt_view [OF _ ad s1(1)] k r by metis
  then show ?thesis using s1(2) k ad \<open>mk = pq\<close> by auto
qed

lemma pubs_distinct:
  assumes "session_inv R n S P" and "inj_on (pub R) {..2 * n + 2}"
  shows "inj_on (pub R) {..gens S p + 1}"
  using session_invD(7) [OF assms(1), of p] by (intro inj_on_subset [OF assms(2)]) auto

text \<open>Only a letter that has not arrived yet can be decrypted.\<close>

lemma decrypted_not_got:
  assumes ok: "session_run_ok R" and inv: "session_inv R n S P" and lim: "n < 2 ^ 32 - 1"
    and l: "l \<in> letters S (other p)"
    and d: "decrypt (sr_ext R) (sr_codec R) (sr_sec R (gens S p + 2)) (lt_message l)
       (sr_ident R (other p)) (sr_ident R p) (ends S p) = (s', Inr plaintext)"
  shows "place l \<notin> got S p \<and> (\<exists>h pq q' mk. letter_keys R P (other p) l h pq \<and>
     avail R (gens S p) (ends S p) (lt_chain l) (lt_number l) \<and>
     ratchet_receive_key (sr_ext R) (h_braid_msg h) (h_pq_message_number h) (rs_spqr (ends S p)) = (q', Inr mk) \<and>
     spent_past q' (pq_at h) \<and> (\<forall>j. spent_past (rs_spqr (ends S p)) j \<longrightarrow> spent_past q' j))"
proof -
  note i = session_invD [OF inv] and o1 = session_run_okD [OF ok]
  obtain h pq where lk: "letter_keys R P (other p) l h pq"
    and st: "place l \<in> got S p \<longrightarrow> spent_past (rs_spqr (ends S p)) (pq_at h)"
      "place l \<notin> got S p \<longrightarrow> avail R (gens S p) (ends S p) (lt_chain l) (lt_number l)"
    using i(10) [OF l] unfolding letter_status_def by blast
  note k = lk [unfolded letter_keys_def]
  obtain q' r where r: "ratchet_receive_key (sr_ext R) (h_braid_msg h) (h_pq_message_number h) (peers P p) = (q', r)"
    by (metis surj_pair)
  then have ok_r: "is_ok r" using decrypt_pq_ok [OF _ d] k i(2) [of p] by (metis snd_conv)
  have n64: "n < 2 ^ 64 - 2" using lim by simp
  have pqok: "pq_system_ok (sr_braid R) n P" using reach_pq_system_ok [OF o1(1,5) i(1) lim] .
  note q = pq_system_okD [OF pqok]
  obtain B where B: "braid_below (sr_braid R) n P B" using q(1) by blast
  have c: "(h_braid_msg h, h_pq_message_number h, pq) \<in> carried P (other p)" using k by blast
  note bb = braid_belowD [OF B o1(1) n64]
  note rs = receive_spends [OF o1(1) q(2) bb(1) q(3) bb(4) [OF c] bb(2) q(4) keyed_epoch_known [OF o1(1) pqok n64 c] r]
  have "\<not> spent_past (peers P p) (pq_at h)" "spent_past q' (pq_at h)" using rs(2) ok_r by (simp_all add: pq_at_def)
  then show ?thesis
    using lk st rs(1) r ok_r i(2) [of p] by (cases r) auto
qed

text \<open>What resolving a letter's key does to the sender side and to the positions.\<close>

lemma resolved_letters_placed:
  assumes pl: "letters_placed S p" and on: "on_ec R (gens S p) (ends S p)"
    and r: "resolved R (gens S p) c i k (ends S p) s1"
    and S': "gens S' p = next_gen (gens S p) c" "letters S' p = letters S p"
      "send_pos (ends S' p) = send_pos s1" "rs_previous_sending_chain_length (ends S' p) = rs_previous_sending_chain_length s1"
  shows "letters_placed S' p"
proof (cases "c = gens S p")
  case True
  then have prev: "rs_previous_sending_chain_length s1 =
      (case rs_sending_chain (ends S p) of None \<Rightarrow> 0 | Some ch \<Rightarrow> cs_message_number ch)"
    using r by (simp add: resolved_def)
  have "lt_chain l + 1 \<le> gens S p \<and> (lt_chain l + 1 = gens S p \<longrightarrow> lt_number l < unat (rs_previous_sending_chain_length s1))"
    if "l \<in> letters S p" for l
    using letters_placedD(1,2) [OF pl that] on_ecD(6) [OF on] prev by (auto simp: send_pos_def split: option.splits)
  then have one: "lt_chain l + 1 \<le> gens S p + 2 \<and> lt_chain l + 1 \<noteq> gens S p + 2 \<and>
      (lt_chain l + 3 = gens S p + 2 \<longrightarrow> lt_number l < unat (rs_previous_sending_chain_length s1))"
    if "l \<in> letters S p" for l
    using that by force
  show ?thesis
    unfolding letters_placed_def S' using one letters_placedD(5,6) [OF pl] True unfolding next_gen_def by simp
next
  case False
  then have "rs_sending_chain s1 = rs_sending_chain (ends S p)"
    "rs_previous_sending_chain_length s1 = rs_previous_sending_chain_length (ends S p)"
    using r by (simp_all add: resolved_def)
  then have "send_pos s1 = send_pos (ends S p)"
    "rs_previous_sending_chain_length s1 = rs_previous_sending_chain_length (ends S p)"
    by (simp_all add: send_pos_def)
  then show ?thesis using pl False S' unfolding letters_placed_def next_gen_def by simp
qed

lemma resolved_neighbours:
  assumes nb: "neighbours S p" "neighbours S (other p)" and pl: "letters_placed S (other p)" and l: "l \<in> letters S (other p)"
    and r: "resolved R (gens S p) (lt_chain l) (lt_number l) k (ends S p) s1"
    and S': "gens S' = (gens S)(p := next_gen (gens S p) (lt_chain l))" "ends S' (other p) = ends S (other p)"
      "send_pos (ends S' p) = send_pos s1" "recv_pos (ends S' p) = recv_pos s1"
  shows "neighbours S' p" and "neighbours S' (other p)"
proof -
  note lp = letters_placedD(1,2) [OF pl l]
  have rp: "recv_pos s1 = recv_pos (ends S p) \<and> lt_chain l \<noteq> gens S p \<or>
      (lt_chain l = gens S p \<or> lt_chain l + 2 = gens S p) \<and> recv_pos s1 = Suc (lt_number l)"
    using r by (simp add: resolved_def)
  show "neighbours S' p"
  proof (cases "lt_chain l = gens S p")
    case True
    then have "gens S (other p) = gens S p + 1" using nb(1) lp(1) by (auto simp: neighbours_def)
    then show ?thesis using True lp(2) rp S' by (auto simp: neighbours_def next_gen_def)
  next
    case False
    have "recv_pos s1 \<le> send_pos (ends S (other p))" if g: "gens S p = gens S (other p) + 1"
    proof (cases "recv_pos s1 = recv_pos (ends S p)")
      case True
      then show ?thesis using nb(1) g by (simp add: neighbours_def)
    next
      case other: False
      then have "lt_chain l + 1 = gens S (other p)" "recv_pos s1 = Suc (lt_number l)" using rp False g by auto
      then show ?thesis using lp(2) by simp
    qed
    then show ?thesis using nb(1) False S' by (simp add: neighbours_def next_gen_def)
  qed
  show "neighbours S' (other p)"
  proof (cases "lt_chain l = gens S p")
    case True
    then have "gens S (other p) = gens S p + 1" using nb(1) lp(1) by (auto simp: neighbours_def)
    then show ?thesis using True S' by (simp add: neighbours_def next_gen_def)
  next
    case False
    then have "send_pos s1 = send_pos (ends S p)" using r by (simp add: resolved_def send_pos_def)
    then show ?thesis using nb(2) False S' by (simp add: neighbours_def next_gen_def)
  qed
qed

lemma session_inv_deliver:
  assumes ok: "session_run_ok R" and inv: "session_inv R n S P" and lim: "Suc n < 2 ^ 32 - 1"
    and inj: "inj_on (pub R) {..2 * n + 2}" and l: "l \<in> letters S (other p)"
    and room: "room_for (gens S p) (lt_chain l) (lt_number l) (lt_previous l) (ends S p)"
    and d: "decrypt (sr_ext R) (sr_codec R) (sr_sec R (gens S p + 2)) (lt_message l)
       (sr_ident R (other p)) (sr_ident R p) (ends S p) = (s', Inr plaintext)"
  shows "plaintext = lt_plaintext l \<and> (\<exists>P'. session_inv R (Suc n)
     (S\<lparr>ends := (ends S)(p := s'), gens := (gens S)(p := next_gen (gens S p) (lt_chain l)),
        got := (got S)(p := insert (lt_chain l, lt_number l) (got S p))\<rparr>) P')"
proof -
  let ?S = "S\<lparr>ends := (ends S)(p := s'), gens := (gens S)(p := next_gen (gens S p) (lt_chain l)),
        got := (got S)(p := insert (lt_chain l, lt_number l) (got S p))\<rparr>"
  have lim1: "n < 2 ^ 32 - 1" using lim by simp
  note i = session_invD [OF inv]
  obtain h pq q' mk where ng: "place l \<notin> got S p" and lk: "letter_keys R P (other p) l h pq"
    and av: "avail R (gens S p) (ends S p) (lt_chain l) (lt_number l)"
    and r: "ratchet_receive_key (sr_ext R) (h_braid_msg h) (h_pq_message_number h) (rs_spqr (ends S p)) = (q', Inr mk)"
    and sp: "spent_past q' (pq_at h)" "\<forall>j. spent_past (rs_spqr (ends S p)) j \<longrightarrow> spent_past q' j"
    using decrypted_not_got [OF ok inv lim1 l d] by blast
  obtain s1 where s': "s' = s1\<lparr>rs_spqr := q'\<rparr>" and pt: "plaintext = lt_plaintext l"
    and res: "resolved R (gens S p) (lt_chain l) (lt_number l) (unat (lt_previous l)) (ends S p) s1"
    using deliver_view [OF ok inv lim1 pubs_distinct [OF inv inj] l room lk av r] d by auto
  note rd = res [unfolded resolved_def]
  have c: "(h_braid_msg h, h_pq_message_number h, pq) \<in> carried P (other p)" using lk by (simp add: letter_keys_def)
  let ?P = "P\<lparr>peers := (peers P)(p := q')\<rparr>"
  have nb: "neighbours ?S p" "neighbours ?S (other p)"
    by (rule resolved_neighbours [OF i(8) i(8) i(9) l res]; simp add: s')+
  have pl: "letters_placed ?S p" by (rule resolved_letters_placed [OF i(9,3) res]; simp add: s')
  have pos: "send_pos s1 \<le> send_pos (ends S p)" using rd by (auto simp: send_pos_def split: if_splits)
  have stat: "letter_status R ?S ?P p l'" if l': "l' \<in> letters S (other p)" for l'
  proof (cases "l' = l")
    case True
    then show ?thesis
      unfolding letter_status_def using letter_keys_mono [OF lk, of ?P] sp(1) s' by (auto simp: place_def)
  next
    case False
    then have ne: "place l' \<noteq> place l" using letters_placedD(6) [OF i(9) l l'] by (auto simp: place_def)
    obtain h' pq' where k': "letter_keys R P (other p) l' h' pq'"
      and st': "place l' \<in> got S p \<longrightarrow> spent_past (rs_spqr (ends S p)) (pq_at h')"
        "place l' \<notin> got S p \<longrightarrow> avail R (gens S p) (ends S p) (lt_chain l') (lt_number l')"
      using i(10) [OF l'] unfolding letter_status_def by blast
    have b: "lt_number l' < 2 ^ 32" using k' header_atD(6) unfolding letter_keys_def by fastforce
    have "lt_number l' < unat (lt_previous l)" if "lt_chain l = gens S p" "lt_chain l' + 2 = gens S p"
      using letters_placedD(5) [OF i(9) l l'] that by simp
    then have "avail R (next_gen (gens S p) (lt_chain l)) s1 (lt_chain l') (lt_number l')"
      if "avail R (gens S p) (ends S p) (lt_chain l') (lt_number l')"
      using rd that b ne unfolding place_def by blast
    then show ?thesis
      unfolding letter_status_def
      using letter_keys_mono [OF k', of ?P] st' sp(2) [rule_format, of "pq_at h'"] s' ne by (intro exI [of _ h'] exI [of _ pq']) (auto simp: place_def)
  qed
  have "session_inv R (Suc n) ?S ?P"
  proof (rule session_invI)
    show "spqr_reach (sr_braid R) (sr_secret R) (Suc n) ?P"
      using spqr_receives [OF i(1) c, of q' "Inr mk"] r i(2) [of p] by simp
    show "peers ?P q = rs_spqr (ends ?S q)" for q using i(2) [of q] s' by simp
    show "on_ec R (gens ?S q) (ends ?S q)" "store_on R (gens ?S q) (ends ?S q)" "rs_pending_prekey (ends ?S q) = None" for q
      using i(3-5) [of q] i(5) [of p] rd s' by simp_all
    show "send_pos (ends ?S q) \<le> Suc n" for q using i(6) [of q] pos s' by auto
    show "gens ?S q \<le> 2 * Suc n + 1" for q using i(7) [of q] by (cases "q = p") (simp_all add: next_gen_def)
    show "neighbours ?S q" for q using nb other_cases [of q p] by auto
    show "letters_placed ?S q" for q
    proof (cases "q = p")
      case True
      then show ?thesis using pl by simp
    next
      case False
      then show ?thesis using i(9) [of q] by (simp add: letters_placed_def)
    qed
    show "got ?S q \<subseteq> place ` letters ?S (other q)" for q using i(11) [of q] l by (auto simp: place_def)
    show "letter_status R ?S ?P q l'" if "l' \<in> letters ?S (other q)" for q l'
    proof (cases "q = p")
      case True
      then show ?thesis using stat that by simp
    next
      case False
      then show ?thesis by (intro letter_status_keep [OF i(10)]) (use that in simp_all)
    qed
  qed
  then show ?thesis using pt by blast
qed

text \<open>The invariant of every reachable system.\<close>

lemma session_reach_inv:
  assumes "session_run_ok R"
  shows "session_reach R n S \<Longrightarrow> n < 2 ^ 32 - 1 \<Longrightarrow> inj_on (pub R) {..2 * n + 2} \<Longrightarrow> \<exists>P. session_inv R n S P"
proof (induction rule: session_reach.induct)
  case session_start
  then show ?case using session_inv_init [OF session_run_okD(2) [OF assms]] by blast
next
  case (session_send n S nonce p plaintext s' msg)
  have "inj_on (pub R) {..2 * n + 2}" by (rule inj_on_subset [OF session_send.prems(2)]) auto
  then obtain P where "session_inv R n S P" using session_send.IH session_send.prems(1) by auto
  then show ?case using session_inv_send [OF assms _ session_send.prems(1) session_send.hyps(2,3)] by blast
next
  case (session_deliver n S l p s' plaintext)
  have j: "inj_on (pub R) {..2 * n + 2}" by (rule inj_on_subset [OF session_deliver.prems(2)]) auto
  then obtain P where "session_inv R n S P" using session_deliver.IH session_deliver.prems(1) by auto
  then show ?case
    using session_inv_deliver [OF assms _ session_deliver.prems(1) j session_deliver.hyps(2-4)] by blast
qed

end
