(* ===== verification/Field_Codec.thy ===== *)
theory Field_Codec
  imports Foundation
begin

text \<open>
  A concrete codec for records: a value is a list of byte fields, each field is written as
  its bytes, every byte behind a marker 1, and a final marker 0. It instantiates the
  \<open>codec\<close> parameter where a theorem about serialized records is applied to concrete data.
\<close>

fun put_field :: "bytes \<Rightarrow> bytes" where
  "put_field [] = [0]"
| "put_field (b # bs) = 1 # b # put_field bs"

fun get_field :: "bytes \<Rightarrow> (bytes \<times> bytes) option" where
  "get_field (m # b # rest) =
     (if m = 0 then Some ([], b # rest)
      else case get_field rest of None \<Rightarrow> None | Some (bs, r) \<Rightarrow> Some (b # bs, r))"
| "get_field [m] = (if m = 0 then Some ([], []) else None)"
| "get_field [] = None"

definition put_fields :: "bytes list \<Rightarrow> bytes" where
  "put_fields fs = concat (map put_field fs)"

fun get_fields :: "nat \<Rightarrow> bytes \<Rightarrow> bytes list option" where
  "get_fields 0 bs = (if bs = [] then Some [] else None)"
| "get_fields (Suc n) bs =
     (case get_field bs of
        None \<Rightarrow> None
      | Some (f, rest) \<Rightarrow> map_option ((#) f) (get_fields n rest))"

lemma get_put_field [simp]: "get_field (put_field f @ rest) = Some (f, rest)"
  by (induction f) (cases rest; simp)+

lemma get_put_fields [simp]: "get_fields (length fs) (put_fields fs) = Some fs"
  by (induction fs) (simp_all add: put_fields_def)

text \<open>The number of fields comes first, in unary.\<close>

definition field_codec :: "('a \<Rightarrow> bytes list) \<Rightarrow> (bytes list \<Rightarrow> 'a option) \<Rightarrow> 'a codec" where
  "field_codec to from =
     \<lparr>enc = (\<lambda>x. Inr (replicate (length (to x)) 1 @ 0 # put_fields (to x))),
      dec = (\<lambda>bs. let n = length (takeWhile (\<lambda>b. b = 1) bs)
                  in case Option.bind (get_fields n (drop (Suc n) bs)) from of
                       None \<Rightarrow> Inl ''DeserializeBadEncoding'' | Some x \<Rightarrow> Inr x)\<rparr>"

lemma takeWhile_unary: "takeWhile (\<lambda>b. b = (1 :: u8)) (replicate n 1 @ 0 # bs) = replicate n 1"
  by (induction n) simp_all

lemma field_codec_ok:
  assumes "\<And>x. from (to x) = Some x"
  shows "codec_ok (field_codec to from)"
  using assms by (simp add: codec_ok_def field_codec_def takeWhile_unary Let_def)

section \<open>Integers as fields\<close>

lemma be_bytes_Suc: "be_bytes (Suc n) w = be_bytes n (drop_bit 8 w) @ [ucast w]"
  by (simp add: be_bytes_def Suc_diff_le less_imp_le algebra_simps)

lemma from_be_snoc: "from_be (bs @ [b]) = push_bit 8 (from_be bs) + (ucast b :: 'a::len word)"
  by (simp add: from_be_def push_bit_eq_mult mult.commute)

lemma take_bit_step: "push_bit 8 (take_bit n (drop_bit 8 w)) + take_bit 8 w = take_bit (n + 8) (w :: 'a::len word)"
proof -
  have "push_bit 8 (take_bit n (drop_bit 8 w)) + take_bit 8 w =
      or (push_bit 8 (take_bit n (drop_bit 8 w))) (take_bit 8 w)"
    by (rule disjunctive_add) (auto simp: bit_simps)
  also have "\<dots> = take_bit (n + 8) w" by (rule bit_word_eqI) (auto simp: bit_simps)
  finally show ?thesis .
qed

lemma from_be_be_bytes: "from_be (be_bytes n w) = take_bit (8 * n) (w :: 'a::len word)"
proof (induction n arbitrary: w)
  case 0
  show ?case by (simp add: be_bytes_def from_be_def)
next
  case (Suc n)
  have "ucast (ucast w :: u8) = take_bit 8 w" by (rule bit_word_eqI) (auto simp: bit_simps)
  then show ?case using Suc [of "drop_bit 8 w"] take_bit_step [of "8 * n" w] by (simp add: be_bytes_Suc from_be_snoc add.commute)
qed

lemma from_be_word [simp]: "LENGTH('a) \<le> 8 * n \<Longrightarrow> from_be (be_bytes n w) = (w :: 'a::len word)"
  by (simp add: from_be_be_bytes take_bit_word_eq_self)

lemma from_be_u32 [simp]: "from_be (u32_be w) = w"
  by (simp add: u32_be_def)

lemma from_be_u64 [simp]: "from_be (u64_be w) = w"
  by (simp add: u64_be_def)

end
