(* ===== verification/Session_Contract.thy ===== *)
theory Session_Contract
  imports Session_Agreement Field_Codec
begin

text \<open>
  What a session promises: an established party can always send; what arrives is what was
  sent, once; what was not delivered yet can be; and the handshake, both ratchets and the
  AEAD compose into a session established by the first message.
\<close>

section \<open>Sending is always possible\<close>

definition seals :: "ext \<Rightarrow> bytes \<Rightarrow> bool" where
  "seals X nonce \<longleftrightarrow> (\<forall>k ad m. xchacha_seal X k nonce ad m \<noteq> None)"

lemma xchacha_seals: "xchacha_ok X \<Longrightarrow> seals X nonce"
  using xchachaD(1) [of X] by (simp add: seals_def)

lemma seal_message_ok:
  assumes "seals X nonce" and "codec_ok H" and "build_ad X a b hb = Inr ad" and "header_serialize H h = Inr hb"
  shows "\<exists>msg. seal_message X H nonce plaintext a b h ec pq = Inr msg"
  using assms by (auto simp: seals_def seal_message_def aead_encrypt_def Let_def split: option.splits)

lemma encrypt_raw_ok:
  assumes "seals X nonce" and "codec_ok H" and "\<And>hb. \<exists>ad. build_ad X a b hb = Inr ad"
    and "ratchet_send_key X rng (rs_spqr s) = (pq, Inr (m, k, mk))" and "rs_sending_chain s = Some ch"
  shows "\<exists>msg. encrypt_raw X H rng nonce plaintext a b s =
     (s\<lparr>rs_spqr := pq, rs_sending_chain := Some (fst (chain_advance X ch))\<rparr>, Inr msg)"
proof -
  obtain hb where hb: "header_serialize H h = Inr hb" if "h = \<lparr>h_dh_public_key = rs_dh_self_public s,
      h_previous_chain_length = rs_previous_sending_chain_length s, h_message_number = cs_message_number ch,
      h_braid_msg = m, h_pq_message_number = k\<rparr>" for h
    using header_round_trip [OF assms(2)] by blast
  obtain ad where ad: "build_ad X a b hb = Inr ad" using assms(3) by blast
  show ?thesis
    using seal_message_ok [OF assms(1,2) ad hb [OF refl], of plaintext "snd (chain_advance X ch)" mk] assms(4,5)
    by (auto simp: encrypt_raw_def Let_def split_beta)
qed

lemma encrypt_honest:
  assumes ok: "session_run_ok R" and inv: "session_inv R n S P" and lim: "Suc n < 2 ^ 32 - 1"
    and "seals (sr_ext R) nonce" and g: "0 < gens S p"
  shows "\<exists>s' msg. encrypt (sr_ext R) (sr_codec R) (run_draw (sr_braid R) (state_epoch (braid_st (rs_spqr (ends S p)))))
     nonce plaintext (sr_ident R p) (sr_ident R (other p)) (ends S p) = (s', Inr msg)"
proof -
  note i = session_invD [OF inv] and o1 = session_run_okD [OF ok]
  have pqok: "pq_system_ok (sr_braid R) n P" using reach_pq_system_ok [OF o1(1,5) i(1)] lim by simp
  note q = pq_system_okD [OF pqok]
  obtain B where B: "braid_below (sr_braid R) n P B" using q(1) by blast
  have n64: "n < 2 ^ 64 - 2" using lim by simp
  have lim2: "Suc n < 2 ^ 32" using lim by simp
  obtain pq r where r: "ratchet_send_key (sr_ext R) (run_draw (sr_braid R) (state_epoch (braid_st (peers P p)))) (peers P p) = (pq, r)"
    by (metis surj_pair)
  obtain m k mk where "r = Inr (m, k, mk)"
    using ratchet_send_key_honest [OF o1(1) q(2) braid_belowD(1) [OF B o1(1) n64] q(3,4) lim2 r] by blast
  moreover obtain ch where "rs_sending_chain (ends S p) = Some ch" using on_ecD(6) [OF i(3), of p] g by auto
  ultimately show ?thesis
    using encrypt_raw_ok [OF assms(4) o1(4,6), of _ "ends S p"] r i(2,5) [of p] by (fastforce simp: encrypt_def)
qed

section \<open>The first message\<close>

text \<open>The initiator's first letter can be sent, and the responder's fresh session decrypts it.\<close>

definition after_send :: "session_system \<Rightarrow> party \<Rightarrow> bytes \<Rightarrow> ratchet_session \<Rightarrow> ratchet_message \<Rightarrow> session_system" where
  "after_send S p plaintext s' msg =
     S\<lparr>ends := (ends S)(p := s'), letters := (letters S)(p := insert (letter_of S p plaintext msg) (letters S p))\<rparr>"

lemma first_letter:
  assumes ok: "session_run_ok R" and "seals (sr_ext R) nonce" and "nonce24 nonce" and "pub R 0 \<noteq> pub R 1"
  shows "\<exists>s' msg h. encrypt (sr_ext R) (sr_codec R) (run_draw (sr_braid R) 1) nonce plaintext
       (sr_ident R Alice) (sr_ident R Bob) (ends (session_init R) Alice) = (s', Inr msg) \<and>
     session_reach R 1 (after_send (session_init R) Alice plaintext s' msg) \<and>
     header_deserialize (sr_codec R) (rm_header msg) = Inr h \<and>
     msg_epoch (h_braid_msg h) = 1 \<and> h_pq_message_number h = 1 \<and>
     (\<exists>s2. decrypt (sr_ext R) (sr_codec R) (sr_sec R 2) msg (sr_ident R Alice) (sr_ident R Bob)
        (ends (session_init R) Bob) = (s2, Inr plaintext))"
proof -
  note o1 = session_run_okD [OF ok]
  let ?S = "session_init R" and ?P = "spqr_system_init (sr_ext R) (sr_secret R)"
  have inv: "session_inv R 0 ?S ?P" using session_inv_init [OF o1(2)] .
  note i = session_invD [OF inv]
  have pA: "peers ?P Alice = spqr_init (sr_ext R) (sr_secret R) A2B" "peers ?P Bob = spqr_init (sr_ext R) (sr_secret R) B2A"
    by (simp_all add: spqr_system_init_def)
  have e1: "state_epoch (braid_st (rs_spqr (ends ?S Alice))) = 1"
    unfolding i(2) [of Alice, symmetric] pA by (simp add: spqr_init_braid)
  have g: "gens ?S Alice = 1" "gens ?S Bob = 0" by (simp_all add: session_init_def)
  obtain s' msg where e: "encrypt (sr_ext R) (sr_codec R) (run_draw (sr_braid R) (state_epoch (braid_st (rs_spqr (ends ?S Alice)))))
       nonce plaintext (sr_ident R Alice) (sr_ident R (other Alice)) (ends ?S Alice) = (s', Inr msg)"
    using encrypt_honest [OF ok inv _ assms(2), of Alice plaintext] g by auto
  let ?S1 = "after_send ?S Alice plaintext s' msg" and ?l = "letter_of ?S Alice plaintext msg"
  obtain pq out where out: "ratchet_send_key (sr_ext R) (run_draw (sr_braid R) (state_epoch (braid_st (peers ?P Alice)))) (peers ?P Alice) = (pq, Inr out)"
    and inv1: "session_inv R (Suc 0) ?S1 (?P\<lparr>peers := (peers ?P)(Alice := pq), carried := (carried ?P)(Alice := insert out (carried ?P Alice))\<rparr>)"
    using session_inv_send [OF ok inv _ assms(3) e] by (auto simp: after_send_def)
  let ?P1 = "?P\<lparr>peers := (peers ?P)(Alice := pq), carried := (carried ?P)(Alice := insert out (carried ?P Alice))\<rparr>"
  obtain m mk where m: "out = (m, 1, mk)" "msg_epoch m = 1"
    using spqr_first_sent [OF o1(1,5)] out pA(1) by (auto simp: spqr_init_braid)
  have l: "?l \<in> letters ?S1 (other Bob)" "lt_chain ?l = 0" "lt_number ?l = 0" "lt_previous ?l = 0" "lt_message ?l = msg"
    "lt_plaintext ?l = plaintext"
    by (simp_all add: after_send_def letter_of_def session_init_def initialize_alice_def Let_def chain_new_def)
  have gB: "gens ?S1 Bob = 0" "got ?S1 Bob = {}" "ends ?S1 Bob = ends ?S Bob"
    by (simp_all add: after_send_def session_init_def)
  obtain h mk' where lk: "letter_keys R ?P1 (other Bob) ?l h mk'" and av: "avail R (gens ?S1 Bob) (ends ?S1 Bob) (lt_chain ?l) (lt_number ?l)"
    using session_invD(10) [OF inv1 l(1)] gB(2) by (auto simp: letter_status_def)
  have "carried ?P1 (other Bob) = {out}" by (simp add: spqr_system_init_def)
  then have h: "header_deserialize (sr_codec R) (rm_header msg) = Inr h" "h_braid_msg h = m" "h_pq_message_number h = 1" "mk' = mk"
    using lk l(5) m(1) unfolding letter_keys_def by auto
  have pq1: "pq_system_ok (sr_braid R) 1 ?P1" using reach_pq_system_ok [OF o1(1,5) session_invD(1) [OF inv1]] by simp
  have sB: "rs_spqr (ends ?S1 Bob) = spqr_init (sr_ext R) (sr_secret R) B2A" using i(2) [of Bob] gB(3) pA(2) by simp
  have "\<exists>q'. ratchet_receive_key (sr_ext R) m 1 (peers ?P1 Bob) = (q', Inr mk)"
    using spqr_first_receivable [of "sr_ext R" "sr_secret R"] m pA(2)
    by (intro delivery [OF o1(1) pq1]) (simp_all add: saturating_sub_def)
  then obtain q' where q': "ratchet_receive_key (sr_ext R) (h_braid_msg h) (h_pq_message_number h) (rs_spqr (ends ?S1 Bob)) = (q', Inr mk)"
    using h sB pA(2) by auto
  have room: "room_for (gens ?S1 Bob) (lt_chain ?l) (lt_number ?l) (lt_previous ?l) (ends ?S1 Bob)"
    using l gB by (simp add: room_for_def session_init_def initialize_bob_def skipped_new_def)
  have inj: "inj_on (pub R) {..gens ?S1 Bob + 1}"
    using assms(4) gB(1) by (auto simp: inj_on_def atMost_Suc)
  have "\<exists>s2. decrypt (sr_ext R) (sr_codec R) (sr_sec R (gens ?S1 Bob + 2)) (lt_message ?l)
       (sr_ident R (other Bob)) (sr_ident R Bob) (ends ?S1 Bob) = (s2, Inr (lt_plaintext ?l))"
    using deliver_view [OF ok inv1 _ inj l(1) room lk av q'] by auto
  then have "\<exists>s2. decrypt (sr_ext R) (sr_codec R) (sr_sec R 2) msg (sr_ident R Alice) (sr_ident R Bob)
        (ends ?S Bob) = (s2, Inr plaintext)"
    using l(5,6) gB by (simp add: eval_nat_numeral)
  moreover have "session_reach R 1 ?S1"
    using session_reach.session_send [OF session_start assms(3) e] by (simp add: after_send_def)
  ultimately show ?thesis using e e1 h m by auto
qed

section \<open>Establishment\<close>

text \<open>The initial root is kept.\<close>

lemma skip_receiving_root: "rs_initial_root_id (fst (skip_receiving_messages X u t)) = rs_initial_root_id t"
  by (simp add: skip_receiving_messages_def Let_def split_beta split: option.splits)

lemma resolve_ec_key_root: "rs_initial_root_id (fst (resolve_ec_key X d h s)) = rs_initial_root_id s"
proof -
  have step: "rs_initial_root_id (perform_dh_ratchet_step X d h t) = rs_initial_root_id t" for t
    by (simp add: perform_dh_ratchet_step_def Let_def)
  have r: "rs_initial_root_id (fst (ratchet_if_new X d h s)) = rs_initial_root_id s"
    using ratchet_if_new_cases [of X d h s] by (auto simp: skip_receiving_root step)
  have "rs_initial_root_id (fst (take_receiving_key X n t)) = rs_initial_root_id t" for n t
    using take_receiving_key_cases [of X n t] by (auto simp: skip_receiving_root)
  then show ?thesis using resolve_ec_key_cases [of X d h s] r by (elim insertE) simp_all
qed

lemma decrypt_root: "rs_initial_root_id (fst (decrypt X H d msg a b s)) = rs_initial_root_id s"
proof (cases "header_deserialize H (rm_header msg)"; cases "build_ad X a b (rm_header msg)")
  fix h ad assume hd: "header_deserialize H (rm_header msg) = Inr h" "build_ad X a b (rm_header msg) = Inr ad"
  obtain s1 r where r: "resolve_ec_key X d h s = (s1, r)" by (metis surj_pair)
  then have "rs_initial_root_id s1 = rs_initial_root_id s" using resolve_ec_key_root [of X d h s] by simp
  then show ?thesis using hd r by (auto simp: decrypt_def split: sum.splits prod.splits)
qed (simp_all add: decrypt_def)

text \<open>Encrypting does not look at the pending handshake message.\<close>

lemma encrypt_raw_pending:
  "encrypt_raw X H rng nonce plaintext a b (s\<lparr>rs_pending_prekey := q\<rparr>) =
     (let r = encrypt_raw X H rng nonce plaintext a b s in ((fst r)\<lparr>rs_pending_prekey := q\<rparr>, snd r))"
  by (simp add: encrypt_raw_def Let_def split_beta split: sum.splits option.splits prod.splits)

definition first_run :: "ext \<Rightarrow> (nat \<Rightarrow> bytes) \<Rightarrow> bytes \<Rightarrow> braid_run" where
  "first_run X rng seed = \<lparr>run_ext = X, run_draw = (\<lambda>_. rng), run_seed = seed\<rparr>"

definition establish_run ::
  "ext \<Rightarrow> message_header codec \<Rightarrow> (nat \<Rightarrow> bytes) \<Rightarrow> bytes \<Rightarrow> bytes \<Rightarrow> bytes \<Rightarrow> bytes \<Rightarrow>
   identity_public_key \<Rightarrow> identity_public_key \<Rightarrow> session_run" where
  "establish_run X H rng ss spk alice_dh bob_dh alice bob =
     \<lparr>sr_braid = first_run X rng (braid_auth_seed X ss), sr_secret = ss,
      sr_sec = (\<lambda>j. if j = 0 then spk else if j = 1 then alice_dh else bob_dh),
      sr_codec = H, sr_ident = (\<lambda>p. case p of Alice \<Rightarrow> alice | Bob \<Rightarrow> bob)\<rparr>"

lemma establish_run_simps [simp]:
  "sr_ext (establish_run X H rng ss spk da db a b) = X" "sr_codec (establish_run X H rng ss spk da db a b) = H"
  "run_draw (sr_braid (establish_run X H rng ss spk da db a b)) e = rng" "sr_secret (establish_run X H rng ss spk da db a b) = ss"
  "sr_sec (establish_run X H rng ss spk da db a b) 0 = spk" "sr_sec (establish_run X H rng ss spk da db a b) 1 = da"
  "sr_sec (establish_run X H rng ss spk da db a b) 2 = db" "sr_sec (establish_run X H rng ss spk da db a b) (Suc 0) = da"
  "sr_ident (establish_run X H rng ss spk da db a b) Alice = a" "sr_ident (establish_run X H rng ss spk da db a b) Bob = b"
  by (simp_all add: establish_run_def first_run_def)

lemma establish_run_ok:
  assumes "run_ok (first_run X rng [])" and "x25519_ok X" and "xchacha_ok X" and "codec_ok H"
    and "ed_point X (identity_public_bytes a)" and "ed_point X (identity_public_bytes b)"
  shows "session_run_ok (establish_run X H rng ss spk da db a b)"
  using assms by (simp add: session_run_ok_def establish_run_def first_run_def run_ok_def split: party.splits)

text \<open>The first message of a session opened with a pending handshake, at both ends.\<close>

lemma establish:
  assumes "session_run_ok R" and "seals (sr_ext R) nonce" and "nonce24 nonce" and "pub R 0 \<noteq> pub R 1"
  shows "\<exists>s' msg s2. encrypt_message (sr_ext R) (sr_codec R) (run_draw (sr_braid R) 1) nonce plaintext (sr_ident R Alice) (sr_ident R Bob)
       (initialize_alice_with_prekey (sr_ext R) (sr_sec R 1) (sr_secret R) (pub R 0) im)
         = (s', Inr (PreKeyMessage (wrap_prekey im (sr_ident R Alice) msg))) \<and>
     decrypt (sr_ext R) (sr_codec R) (sr_sec R 2) msg (sr_ident R Alice) (sr_ident R Bob)
        (initialize_bob (sr_ext R) (sr_secret R) (sr_sec R 0, pub R 0)) = (s2, Inr plaintext) \<and>
     rs_initial_root_id s' = rs_initial_root_id s2"
proof -
  let ?a = "initialize_alice (sr_ext R) (sr_sec R 1) (sr_secret R) (pub R 0)"
  let ?b = "initialize_bob (sr_ext R) (sr_secret R) (sr_sec R 0, pub R 0)"
  have ends: "ends (session_init R) Alice = ?a" "ends (session_init R) Bob = ?b" by (simp_all add: session_init_def)
  obtain s' msg s2 where f: "encrypt (sr_ext R) (sr_codec R) (run_draw (sr_braid R) 1) nonce plaintext (sr_ident R Alice) (sr_ident R Bob) ?a = (s', Inr msg)"
    "decrypt (sr_ext R) (sr_codec R) (sr_sec R 2) msg (sr_ident R Alice) (sr_ident R Bob) ?b = (s2, Inr plaintext)"
    using first_letter [OF assms] unfolding ends by blast
  obtain pq ch where s': "s' = ?a\<lparr>rs_spqr := pq, rs_sending_chain := ch\<rparr>" using encrypt_view [OF f(1)] by blast
  have "encrypt_raw (sr_ext R) (sr_codec R) (run_draw (sr_braid R) 1) nonce plaintext (sr_ident R Alice) (sr_ident R Bob) ?a = (s', Inr msg)"
    using f(1) by (simp add: encrypt_def split: if_splits)
  then have "encrypt_message (sr_ext R) (sr_codec R) (run_draw (sr_braid R) 1) nonce plaintext (sr_ident R Alice) (sr_ident R Bob)
       (initialize_alice_with_prekey (sr_ext R) (sr_sec R 1) (sr_secret R) (pub R 0) im)
         = (s'\<lparr>rs_pending_prekey := None\<rparr>, Inr (PreKeyMessage (wrap_prekey im (sr_ident R Alice) msg)))"
    by (simp add: encrypt_message_def initialize_alice_with_prekey_def encrypt_raw_pending)
  moreover have "rs_initial_root_id s2 = rs_initial_root_id ?b"
    using decrypt_root [of "sr_ext R" "sr_codec R" "sr_sec R 2" msg "sr_ident R Alice" "sr_ident R Bob" ?b] f(2) by simp
  then have "rs_initial_root_id (s'\<lparr>rs_pending_prekey := None\<rparr>) = rs_initial_root_id s2"
    using s' by (simp add: initialize_alice_def initialize_bob_def Let_def)
  ultimately show ?thesis using f(2) by blast
qed

section \<open>A concrete run\<close>

definition mtype_byte :: "msg_type \<Rightarrow> u8" where
  "mtype_byte t = (case t of Idle \<Rightarrow> 0 | Hdr \<Rightarrow> 1 | Ek \<Rightarrow> 2 | EkCt1Ack \<Rightarrow> 3 | Ct1 \<Rightarrow> 4 | Ct2 \<Rightarrow> 5)"

definition byte_mtype :: "u8 \<Rightarrow> msg_type" where
  "byte_mtype b = (if b = 0 then Idle else if b = 1 then Hdr else if b = 2 then Ek else if b = 3 then EkCt1Ack
     else if b = 4 then Ct1 else Ct2)"

definition header_fields :: "message_header \<Rightarrow> bytes list" where
  "header_fields h =
     [dh_public_key_bytes (h_dh_public_key h), u32_be (h_previous_chain_length h), u32_be (h_message_number h),
      u64_be (msg_epoch (h_braid_msg h)), [mtype_byte (mtype (h_braid_msg h))], u32_be (h_pq_message_number h)] @
     (case msg_chunk (h_braid_msg h) of None \<Rightarrow> [] | Some c \<Rightarrow> [be_bytes 2 (chunk_index c), chunk_data c])"

fun fields_header :: "bytes list \<Rightarrow> message_header option" where
  "fields_header (d # pn # n # e # t # k # rest) =
     Some \<lparr>h_dh_public_key = DhPublicKey d, h_previous_chain_length = from_be pn, h_message_number = from_be n,
           h_braid_msg = \<lparr>msg_epoch = from_be e, mtype = byte_mtype (hd t),
             msg_chunk = (case rest of [i, c] \<Rightarrow> Some \<lparr>chunk_index = from_be i, chunk_data = c\<rparr> | _ \<Rightarrow> None)\<rparr>,
           h_pq_message_number = from_be k\<rparr>"
| "fields_header _ = None"

definition demo_header_codec :: "message_header codec" where
  "demo_header_codec = field_codec header_fields fields_header"

lemma byte_mtype_byte [simp]: "byte_mtype (mtype_byte t) = t"
  by (cases t) (simp_all add: byte_mtype_def mtype_byte_def)

lemma demo_header_codec_ok: "codec_ok demo_header_codec"
  unfolding demo_header_codec_def
proof (rule field_codec_ok)
  show "fields_header (header_fields h) = Some h" for h
    by (cases "h_dh_public_key h"; cases "msg_chunk (h_braid_msg h)")
      (simp_all add: header_fields_def)
qed

definition demo_session_run :: session_run where
  "demo_session_run =
     \<lparr>sr_braid = spqr_demo_run, sr_secret = zeros 32, sr_sec = (\<lambda>j. replicate 32 (of_nat j)),
      sr_codec = demo_header_codec, sr_ident = (\<lambda>_. IdentityPublicKey (zeros 32))\<rparr>"

lemma demo_session_run_ok: "session_run_ok demo_session_run"
  using spqr_demo_run_ok demo_header_codec_ok demo_x25519 demo_xchacha
  by (simp add: session_run_ok_def demo_session_run_def demo_ext_def)

lemma demo_seals: "seals (sr_ext demo_session_run) (zeros 24)" "nonce24 (zeros 24)"
  by (simp_all add: seals_def demo_session_run_def spqr_demo_run_ok(2) demo_ext_def demo_seal_def nonce24_def NONCE_SIZE_def)

lemma demo_pub: "pub demo_session_run j = replicate 32 (of_nat j)"
  by (simp add: pub_def demo_session_run_def spqr_demo_run_ok(2) demo_ext_def fit_def resize_def)

lemma demo_pub_inj: "inj_on (pub demo_session_run) {..4}"
proof (rule inj_onI)
  fix i j :: nat assume "i \<in> {..4}" "j \<in> {..4}" "pub demo_session_run i = pub demo_session_run j"
  then have "unat (of_nat i :: u8) = unat (of_nat j :: u8)" "i < 2 ^ 8" "j < 2 ^ 8" by (simp_all add: demo_pub)
  then show "i = j" by (simp add: unat_of_nat)
qed

text \<open>A reachable state of the concrete run with a letter in flight from Alice to Bob.\<close>

lemma demo_letter:
  "\<exists>S l h s2. session_reach demo_session_run 1 S \<and> l \<in> letters S (other Bob) \<and> lt_plaintext l = [1, 2, 3] \<and>
     (lt_chain l, lt_number l) \<notin> got S Bob \<and>
     room_for (gens S Bob) (lt_chain l) (lt_number l) (lt_previous l) (ends S Bob) \<and>
     header_deserialize (sr_codec demo_session_run) (rm_header (lt_message l)) = Inr h \<and>
     msg_epoch (h_braid_msg h) = 1 \<and> h_pq_message_number h = 1 \<and>
     rs_spqr (ends S Bob) = spqr_init demo_ext (zeros 32) B2A \<and>
     decrypt (sr_ext demo_session_run) (sr_codec demo_session_run) (sr_sec demo_session_run (gens S Bob + 2)) (lt_message l)
       (sr_ident demo_session_run (other Bob)) (sr_ident demo_session_run Bob) (ends S Bob) = (s2, Inr [1, 2, 3])"
proof -
  let ?R = demo_session_run
  have "pub ?R 0 \<noteq> pub ?R 1" using inj_onD [OF demo_pub_inj, of 0 1] by auto
  then obtain s' msg h s2 where r: "session_reach ?R 1 (after_send (session_init ?R) Alice [1, 2, 3] s' msg)"
    "header_deserialize (sr_codec ?R) (rm_header msg) = Inr h" "msg_epoch (h_braid_msg h) = 1" "h_pq_message_number h = 1"
    "decrypt (sr_ext ?R) (sr_codec ?R) (sr_sec ?R 2) msg (sr_ident ?R Alice) (sr_ident ?R Bob)
        (ends (session_init ?R) Bob) = (s2, Inr [1, 2, 3])"
    using first_letter [OF demo_session_run_ok demo_seals, of "[1, 2, 3]"] by blast
  let ?S = "after_send (session_init ?R) Alice [1, 2, 3] s' msg" and ?l = "letter_of (session_init ?R) Alice [1, 2, 3] msg"
  have l: "?l \<in> letters ?S (other Bob)" "lt_chain ?l = 0" "lt_number ?l = 0" "lt_previous ?l = 0" "lt_message ?l = msg"
    "lt_plaintext ?l = [1, 2, 3]" "gens ?S Bob = 0" "got ?S Bob = {}" "ends ?S Bob = ends (session_init ?R) Bob"
    by (simp_all add: after_send_def letter_of_def session_init_def initialize_alice_def Let_def chain_new_def)
  have b: "rs_skipped (ends (session_init ?R) Bob) = []"
    "rs_spqr (ends (session_init ?R) Bob) = spqr_init demo_ext (zeros 32) B2A"
    by (simp_all add: session_init_def initialize_bob_def skipped_new_def spqr_new_receiver_def demo_session_run_def spqr_demo_run_ok(2))
  show ?thesis
    using r l b by (intro exI [of _ ?S] exI [of _ ?l] exI [of _ h] exI [of _ s2]) (simp add: room_for_def eval_nat_numeral)
qed

section \<open>Properties\<close>



lemma letter_deliverable:
  assumes "session_run_ok R" and "session_reach R n S" and "n < 2 ^ 32 - 2002" and "inj_on (pub R) {..2 * n + 2}"
    and "l \<in> letters S (other p)" and "(lt_chain l, lt_number l) \<notin> got S p"
    and "room_for (gens S p) (lt_chain l) (lt_number l) (lt_previous l) (ends S p)"
    and "header_deserialize (sr_codec R) (rm_header (lt_message l)) = Inr h"
    and "spqr_now (rs_spqr (ends S p)) \<le> unat (msg_epoch (h_braid_msg h)) + 1"
    and "\<not> spqr_spent (rs_spqr (ends S p)) (pq_at h)"
    and "\<forall>c. recv_chain (rs_spqr (ends S p)) (fst (pq_at h)) = Some c \<longrightarrow>
           unat (h_pq_message_number h) \<le> unat (sc_n c) + unat MAX_SKIP + 1"
  shows "\<exists>s'. decrypt (sr_ext R) (sr_codec R) (sr_sec R (gens S p + 2)) (lt_message l)
           (sr_ident R (other p)) (sr_ident R p) (ends S p) = (s', Inr (lt_plaintext l))"
proof -
  have lim: "n < 2 ^ 32 - 1" using assms(3) by simp
  obtain P where inv: "session_inv R n S P" using session_reach_inv [OF assms(1,2) lim assms(4)] by auto
  note i = session_invD [OF inv] and o1 = session_run_okD [OF assms(1)]
  obtain pq where lk: "letter_keys R P (other p) l h pq" and av: "avail R (gens S p) (ends S p) (lt_chain l) (lt_number l)"
    using i(10) [OF assms(5)] assms(6,8) by (auto simp: letter_status_def place_def letter_keys_def)
  have c: "(h_braid_msg h, h_pq_message_number h, pq) \<in> carried P (other p)" using lk by (simp add: letter_keys_def)
  have pqok: "pq_system_ok (sr_braid R) n P" using reach_pq_system_ok [OF o1(1,5) i(1) lim] .
  have "\<exists>q'. ratchet_receive_key (sr_ext R) (h_braid_msg h) (h_pq_message_number h) (peers P p) = (q', Inr pq)"
    using assms(9-11) i(2) [of p] by (intro delivery [OF o1(1) pqok assms(3) c]) (simp_all add: pq_at_def)
  then show ?thesis
    using deliver_view [OF assms(1) inv lim pubs_distinct [OF inv assms(4)] assms(5,7) lk av] i(2) [of p] by auto
qed



text \<open>
  C5. An established party can always send. In every such run, a party that holds a sending
  chain (the initiator from the start, the responder from its first delivery) can encrypt.
\<close>

theorem session_can_send:
  assumes "session_run_ok R" and "session_reach R n S" and "n < 2 ^ 32 - 2" and "inj_on (pub R) {..2 * n + 2}"
    and "0 < gens S p"
  shows "\<exists>s' msg. encrypt (sr_ext R) (sr_codec R) (run_draw (sr_braid R) (state_epoch (braid_st (rs_spqr (ends S p)))))
           nonce plaintext (sr_ident R p) (sr_ident R (other p)) (ends S p) = (s', Inr msg)"
proof -
  obtain P where inv: "session_inv R n S P" using session_reach_inv [OF assms(1,2) _ assms(4)] assms(3) by auto
  then show ?thesis using encrypt_honest [OF assms(1) inv _ xchacha_seals [OF session_run_okD(3) [OF assms(1)]] assms(5)] assms(3) by simp
qed

theorem session_can_send_witness:
  "\<exists>s' msg. encrypt demo_ext demo_header_codec (run_draw spqr_demo_run
       (state_epoch (braid_st (rs_spqr (ends (session_init demo_session_run) Alice))))) (zeros 24) [7]
     (IdentityPublicKey (zeros 32)) (IdentityPublicKey (zeros 32)) (ends (session_init demo_session_run) Alice) = (s', Inr msg)"
proof -
  have j: "inj_on (pub demo_session_run) {..2 * 0 + 2}" by (rule inj_on_subset [OF demo_pub_inj]) auto
  have "0 < gens (session_init demo_session_run) Alice" by (simp add: session_init_def)
  from session_can_send [OF demo_session_run_ok session_start _ j this, of "zeros 24" "[7]"] show ?thesis
    by (simp add: demo_session_run_def spqr_demo_run_ok(2))
qed

text \<open>
  C3. Session establishment. Alice processes a bundle that Bob published, opens a session from
  it and encrypts; Bob, from his secrets alone, decrypts her prekey message: he obtains the
  plaintext and a session on the same initial root. The handshake, the Diffie-Hellman ratchet,
  the post-quantum ratchet, padding and the AEAD all take part.
\<close>

theorem session_establishment:
  assumes "ed25519_ok X" and "x25519_ok X" and "identity_dh_ok X" and "mlkem_ok X" and "xchacha_ok X"
    and "codec_ok H" and "run_ok (first_run X rng [])" and "nonce24 nonce"
    and "length (identity_seed alice) = 32" and "length (identity_seed bob) = 32"
    and "publishes X bob spk opk (dk_from_seed_bytes X kyber_seed) bundle"
    and "x_public X spk \<noteq> x_public X alice_dh"
  shows "\<exists>out s_alice pm s_bob.
     process_prekey_bundle X eph_rand kem_rand alice bundle = Inr out \<and>
     encrypt_message X H rng nonce plaintext (public_key X alice) (public_key X bob)
       (initialize_alice_with_prekey X alice_dh (px_shared_secret out) (x_public X spk) (px_initial_message out))
       = (s_alice, Inr (PreKeyMessage pm)) \<and>
     decrypt_prekey_message X H bob_dh pm bob spk (x_public X spk) (map_option snd opk) kyber_seed = Inr (s_bob, plaintext) \<and>
     root_key_id s_alice = root_key_id s_bob"
proof -
  obtain out where out: "process_prekey_bundle X eph_rand kem_rand alice bundle = Inr out"
    "process_initial_message X bob spk (map_option snd opk) (dk_from_seed_bytes X kyber_seed) (px_initial_message out) = Inr (px_shared_secret out)"
    "im_identity_key (px_initial_message out) = public_key X alice"
    using pqxdh_agree [OF assms(1-4,9-11)] by blast
  let ?R = "establish_run X H rng (px_shared_secret out) spk alice_dh bob_dh (public_key X alice) (public_key X bob)"
  have "ed_point X (identity_public_bytes (public_key X kp))" for kp using assms(1) by (simp add: ed25519_ok_def public_key_def)
  then have ok: "session_run_ok ?R" using establish_run_ok [OF assms(7,2,5,6)] by blast
  have pubs: "pub ?R 0 = x_public X spk" "pub ?R 1 = x_public X alice_dh" by (simp_all add: pub_def)
  obtain s' msg s2 where e: "encrypt_message X H rng nonce plaintext (public_key X alice) (public_key X bob)
       (initialize_alice_with_prekey X alice_dh (px_shared_secret out) (x_public X spk) (px_initial_message out))
         = (s', Inr (PreKeyMessage (wrap_prekey (px_initial_message out) (public_key X alice) msg)))"
     "decrypt X H bob_dh msg (public_key X alice) (public_key X bob)
        (initialize_bob X (px_shared_secret out) (spk, x_public X spk)) = (s2, Inr plaintext)"
     "rs_initial_root_id s' = rs_initial_root_id s2"
    using establish [OF ok _ assms(8), of plaintext "px_initial_message out"] xchacha_seals [OF assms(5)] assms(12) pubs by auto
  let ?pm = "wrap_prekey (px_initial_message out) (public_key X alice) msg"
  have "decrypt_prekey_message X H bob_dh ?pm bob spk (x_public X spk) (map_option snd opk) kyber_seed = Inr (s2, plaintext)"
    using out(2,3) e(2) by (cases "px_initial_message out") (simp add: decrypt_prekey_message_def wrap_prekey_def Let_def)
  then show ?thesis using out(1) e(1,3) unfolding root_key_id_def by blast
qed

theorem session_establishment_witness:
  "\<exists>out s_alice pm s_bob.
     process_prekey_bundle demo_ext (replicate 32 9) (replicate 32 8) (IdentityKeyPair (replicate 32 2)) demo_bundle = Inr out \<and>
     encrypt_message demo_ext demo_header_codec zeros (zeros 24) [1, 2] (public_key demo_ext (IdentityKeyPair (replicate 32 2))) (public_key demo_ext demo_bob)
       (initialize_alice_with_prekey demo_ext (replicate 32 6) (px_shared_secret out) (x_public demo_ext (replicate 32 3)) (px_initial_message out))
       = (s_alice, Inr (PreKeyMessage pm)) \<and>
     decrypt_prekey_message demo_ext demo_header_codec (replicate 32 7) pm demo_bob (replicate 32 3) (x_public demo_ext (replicate 32 3))
       (Some (replicate 32 4)) (zeros 64) = Inr (s_bob, [1, 2])"
proof -
  have p: "publishes demo_ext demo_bob (replicate 32 3) (Some (PreKeyId 1, replicate 32 4)) (dk_from_seed_bytes demo_ext (zeros 64)) demo_bundle"
    by (simp add: publishes_def demo_bundle_def dk_from_seed_bytes_def demo_ext_def)
  have r: "run_ok (first_run demo_ext zeros [])"
    using demo_run_ok by (simp add: run_ok_def demo_run_def first_run_def)
  have d: "x_public demo_ext (replicate 32 3) \<noteq> x_public demo_ext (replicate 32 6)"
    by (simp add: demo_ext_def fit_def resize_def)
  from session_establishment [OF demo_ed25519 demo_x25519 demo_identity_dh demo_mlkem demo_xchacha demo_header_codec_ok r demo_seals(2) _ _ p d,
      of "IdentityKeyPair (replicate 32 2)" "replicate 32 9" "replicate 32 8" "[1, 2]" "replicate 32 7"]
  show ?thesis by (auto simp: demo_bob_def)
qed

text \<open>
  Stored sessions. Writing a session and reading it back gives the same session (the
  diagnostic initial-root tag apart, which is not stored), and a record of any other version
  is refused with the version named.
\<close>

theorem session_storage:
  assumes "codec_inverts C (serialized_of s)" and "skipped_ok (rs_skipped s)"
  shows "(\<exists>bs. session_serialize C s = Inr bs \<and> session_deserialize C bs = Inr (s\<lparr>rs_initial_root_id := 0\<rparr>)) \<and>
    (\<forall>bs st. deserialize C bs = Inr st \<and> ss_session_version st \<noteq> SESSION_VERSION \<longrightarrow>
       session_deserialize C bs = Inl (version_error (ss_session_version st)))"
  using session_round_trip [OF assms] by (auto simp: session_deserialize_def)

theorem session_storage_witness:
  "\<exists>C bs. session_serialize C (ends (session_init demo_session_run) Bob) = Inr bs \<and>
     session_deserialize C bs = Inr ((ends (session_init demo_session_run) Bob)\<lparr>rs_initial_root_id := 0\<rparr>)"
proof -
  let ?s = "ends (session_init demo_session_run) Bob"
  let ?C = "\<lparr>enc = (\<lambda>_. Inr []), dec = (\<lambda>_. Inr (serialized_of ?s))\<rparr>"
  have c: "codec_inverts ?C (serialized_of ?s)" by (simp add: codec_inverts_def)
  have "skipped_ok (rs_skipped ?s)" by (simp add: session_init_def initialize_bob_def skipped_ok_new)
  from session_storage [OF c this] show ?thesis by blast
qed

text \<open>
  C31. Bounded memory. Whatever message arrives and whether or not it decrypts, the store of
  skipped keys keeps at most \<open>MAX_SKIP\<close> keys, each under the ratchet key and number it was
  skipped at; encrypting does not touch it.
\<close>

theorem session_store_bounded:
  assumes "skipped_ok (rs_skipped s)"
  shows "skipped_ok (rs_skipped (fst (decrypt X H d msg a b s))) \<and>
    length (rs_skipped (fst (decrypt X H d msg a b s))) \<le> unat MAX_SKIP \<and>
    rs_skipped (fst (encrypt_raw X H rng nonce plaintext a b s)) = rs_skipped s"
  using decrypt_skipped_ok [OF assms] encrypt_raw_skipped by (auto simp: skipped_ok_def)

theorem session_store_bounded_witness:
  "skipped_ok (rs_skipped (initialize_bob demo_ext (zeros 32) ([], []))) \<and>
   length (rs_skipped (fst (decrypt demo_ext demo_header_codec [] \<lparr>rm_header = [], rm_ciphertext = []\<rparr>
     (IdentityPublicKey []) (IdentityPublicKey []) (initialize_bob demo_ext (zeros 32) ([], []))))) \<le> 2000"
proof -
  have s: "skipped_ok (rs_skipped (initialize_bob demo_ext (zeros 32) ([], [])))" by (simp add: initialize_bob_def)
  from session_store_bounded [OF this] have
    "length (rs_skipped (fst (decrypt demo_ext demo_header_codec [] \<lparr>rm_header = [], rm_ciphertext = []\<rparr>
     (IdentityPublicKey []) (IdentityPublicKey []) (initialize_bob demo_ext (zeros 32) ([], []))))) \<le> unat MAX_SKIP" by blast
  then show ?thesis using s by (simp add: MAX_SKIP_def)
qed

end
