(* ===== verification/Skip_Bounds.thy ===== *)
theory Skip_Bounds
  imports Session_Contract
begin

text \<open>
  The two skip loops of the ratchets, \<open>while chain.message_number < until\<close> and
  \<open>while chain.n < until\<close>, seen as a number of chain steps. The counters are 32-bit words
  and \<open>until\<close> comes from a message not yet authenticated, so the number of steps is what
  bounds the work a peer can cause.
\<close>

abbreviation ec_step :: "ext \<Rightarrow> chain_state \<Rightarrow> chain_state" where
  "ec_step X c \<equiv> fst (chain_advance X c)"

abbreviation pq_step :: "ext \<Rightarrow> scka_chain \<Rightarrow> scka_chain" where
  "pq_step X c \<equiv> fst (scka_advance X c)"

lemma less_step: "unat b - unat a = Suc (unat b - unat (a + 1))" if "a < b" for a b :: u32
proof -
  have "unat (a + 1) = unat a + 1" using that by (rule unat_add_one_if_less)
  then show ?thesis using that by (simp add: word_less_nat_alt)
qed

lemma ec_skip_loop_steps:
  "fst (ec_skip_loop X until d c keys) = (ec_step X ^^ (unat until - unat (cs_message_number c))) c \<and>
   until \<le> cs_message_number (fst (ec_skip_loop X until d c keys))"
proof (induction X until d c keys rule: ec_skip_loop.induct)
  case (1 X until d c keys)
  show ?case
  proof (cases "cs_message_number c < until")
    case True
    obtain c' mk where adv: "chain_advance X c = (c', mk)" by (metis surj_pair)
    then have "cs_message_number c' = cs_message_number c + 1" using chain_advance_number [of X c] by simp
    then show ?thesis
      using "1.IH" [OF True adv [symmetric] refl refl] True adv less_step [OF True]
      by (subst (1 2) ec_skip_loop.simps) (auto simp: Let_def funpow_Suc_right simp del: funpow.simps(2))
  qed (simp add: ec_skip_loop.simps word_le_nat_alt word_less_nat_alt)
qed

lemma skip_loop_steps:
  "fst (skip_loop X until c) = (pq_step X ^^ (unat until - unat (sc_n c))) c \<and> until \<le> sc_n (fst (skip_loop X until c))"
proof (induction X until c rule: skip_loop.induct)
  case (1 X until c)
  show ?case
  proof (cases "sc_n c < until")
    case True
    obtain c' e where adv: "scka_advance X c = (c', e)" by (metis surj_pair)
    then have "sc_n c' = sc_n c + 1" by (auto simp: scka_advance_def Let_def)
    then show ?thesis
      using "1.IH" [OF True adv [symmetric] refl] True adv less_step [OF True]
      by (subst (1 2) skip_loop.simps) (auto simp: Let_def split_beta funpow_Suc_right simp del: funpow.simps(2))
  qed (simp add: skip_loop.simps word_le_nat_alt word_less_nat_alt)
qed

lemma ec_skip_bounded:
  "\<exists>k \<le> unat MAX_SKIP.
     rs_receiving_chain (fst (skip_receiving_messages X until s)) = map_option (ec_step X ^^ k) (rs_receiving_chain s) \<and>
     (is_ok (snd (skip_receiving_messages X until s)) \<longrightarrow>
        (\<forall>c. rs_receiving_chain (fst (skip_receiving_messages X until s)) = Some c \<longrightarrow> until \<le> cs_message_number c))"
proof (cases "rs_receiving_chain s")
  case None
  then show ?thesis by (auto simp: skip_receiving_messages_def Let_def)
next
  case (Some c)
  show ?thesis
  proof (cases "cs_message_number c \<le> until \<and> until - cs_message_number c \<le> MAX_SKIP")
    case True
    then have "unat (until - cs_message_number c) \<le> unat MAX_SKIP" by (simp add: word_le_nat_alt)
    then have "unat until - unat (cs_message_number c) \<le> unat MAX_SKIP" using True by (simp add: unat_sub)
    moreover have "until \<le> cs_message_number ((ec_step X ^^ (unat until - unat (cs_message_number c))) c)"
      using ec_skip_loop_steps [of X until "[]" c "[]"] by metis
    ultimately show ?thesis
      using Some True ec_skip_loop_steps [of X until, THEN conjunct1]
      by (intro exI [of _ "unat until - unat (cs_message_number c)"])
        (auto simp: skip_receiving_messages_def Let_def split_beta)
  next
    case False
    then show ?thesis
      using Some by (intro exI [of _ 0]) (auto simp: skip_receiving_messages_def Let_def is_ok_def not_le)
  qed
qed

lemma pq_skip_bounded:
  "\<exists>k \<le> unat MAX_SKIP.
     recv_chain (fst (skip_message_keys X epoch until s)) epoch = map_option (pq_step X ^^ k) (recv_chain s epoch) \<and>
     (is_ok (snd (skip_message_keys X epoch until s)) \<longrightarrow>
        (\<forall>c. recv_chain (fst (skip_message_keys X epoch until s)) epoch = Some c \<longrightarrow> until \<le> sc_n c))"
proof (cases "recv_chain s epoch")
  case None
  then have "skip_message_keys X epoch until s = (s, Inr ())"
    by (auto simp: recv_chain_def skip_message_keys_def split: option.splits)
  with None show ?thesis by auto
next
  case (Some c)
  then obtain ec where ec: "map_of (kdfchains s) epoch = Some ec" "ec_recv ec = Some c"
    by (auto simp: recv_chain_def split: Option.bind_splits)
  show ?thesis
  proof (cases "sc_n c + MAX_SKIP < until")
    case True
    with Some ec show ?thesis by (intro exI [of _ 0]) (simp add: skip_message_keys_def is_ok_def)
  next
    case False
    have "unat (sc_n c + MAX_SKIP) \<le> unat (sc_n c) + unat MAX_SKIP" by (simp add: unat_word_ariths)
    then have le: "unat until - unat (sc_n c) \<le> unat MAX_SKIP" using False by (simp add: word_less_nat_alt)
    have "recv_chain (fst (skip_message_keys X epoch until s)) epoch = Some (fst (skip_loop X until c))"
      using ec False by (auto simp: skip_message_keys_def recv_chain_def Let_def split_beta)
    then show ?thesis
      using Some le skip_loop_steps [of X until c] by (intro exI [of _ "unat until - unat (sc_n c)"]) auto
  qed
qed

text \<open>
  C17. The skip loops end, after a bounded number of steps. Whatever counter a message claims,
  both ratchets either refuse it leaving the chain where it was, or step the chain at most
  \<open>MAX_SKIP\<close> times, and when they accept it the loop has reached the counter. This holds for
  every 32-bit counter, also where the bound \<open>chain.n + MAX_SKIP\<close> wraps around.
\<close>

theorem skip_loops_terminate:
  "(\<exists>k \<le> unat MAX_SKIP.
     rs_receiving_chain (fst (skip_receiving_messages X until s)) = map_option (ec_step X ^^ k) (rs_receiving_chain s) \<and>
     (is_ok (snd (skip_receiving_messages X until s)) \<longrightarrow>
        (\<forall>c. rs_receiving_chain (fst (skip_receiving_messages X until s)) = Some c \<longrightarrow> until \<le> cs_message_number c))) \<and>
   (\<exists>k \<le> unat MAX_SKIP.
     recv_chain (fst (skip_message_keys X epoch until q)) epoch = map_option (pq_step X ^^ k) (recv_chain q epoch) \<and>
     (is_ok (snd (skip_message_keys X epoch until q)) \<longrightarrow>
        (\<forall>c. recv_chain (fst (skip_message_keys X epoch until q)) epoch = Some c \<longrightarrow> until \<le> sc_n c)))"
  using ec_skip_bounded pq_skip_bounded by (rule conjI)

definition demo_receiver :: ratchet_session where
  "demo_receiver = (initialize_bob demo_ext (zeros 32) (zeros 32, zeros 32))\<lparr>rs_receiving_chain := Some (chain_new (ChainKey (zeros 32)))\<rparr>"

theorem skip_loops_terminate_witness:
  "\<exists>k c. k \<le> unat MAX_SKIP \<and> c = (ec_step demo_ext ^^ k) (chain_new (ChainKey (zeros 32))) \<and>
     rs_receiving_chain (fst (skip_receiving_messages demo_ext 5 demo_receiver)) = Some c \<and> 5 \<le> cs_message_number c"
proof -
  have r: "rs_receiving_chain demo_receiver = Some (chain_new (ChainKey (zeros 32)))" by (simp add: demo_receiver_def)
  then have ok: "is_ok (snd (skip_receiving_messages demo_ext 5 demo_receiver))"
    by (simp add: skip_receiving_messages_def chain_new_def Let_def split_beta MAX_SKIP_def is_ok_def)
  from skip_loops_terminate [THEN conjunct1, of demo_ext 5 demo_receiver] obtain k where "k \<le> unat MAX_SKIP"
    "rs_receiving_chain (fst (skip_receiving_messages demo_ext 5 demo_receiver)) = Some ((ec_step demo_ext ^^ k) (chain_new (ChainKey (zeros 32))))"
    "5 \<le> cs_message_number ((ec_step demo_ext ^^ k) (chain_new (ChainKey (zeros 32))))"
    using ok by (auto simp: r)
  then show ?thesis by blast
qed

end
