(* ===== verification/Sesame.thy ===== *)
theory Sesame
  imports Keys Interfaces "HOL-Library.Multiset"
begin

text \<open>
  \<open>protocol/sesame\<close>: which of the sessions with a remote device is used for sending
  (\<open>lifecycle.rs\<close>, \<open>state.rs\<close>, \<open>mod.rs\<close>). A device record has an active session and a
  bounded list of inactive ones; \<open>sessions\<close> is that list with the active one in front, the
  logical indices the code uses. A user record maps device ids to device records. A method
  that hands out \<open>&mut DeviceRecord\<close> is modelled by the lookup and \<open>set_device\<close>.
\<close>

section \<open>Lifecycle\<close>

definition MAXLATENCY :: u64 where
  "MAXLATENCY = 2 * 60 * 60"

definition MAXSEND :: u64 where
  "MAXSEND = 30 * 24 * 60 * 60"

definition MAXRECV :: u64 where
  "MAXRECV = 60 * 24 * 60 * 60"

definition is_stale_for_sending :: "timestamp \<Rightarrow> timestamp \<Rightarrow> bool" where
  "is_stale_for_sending created now \<longleftrightarrow> saturating_sub (timestamp_secs now) (timestamp_secs created) > MAXSEND"

definition is_stale_for_receiving :: "timestamp \<Rightarrow> timestamp \<Rightarrow> bool" where
  "is_stale_for_receiving used now \<longleftrightarrow> saturating_sub (timestamp_secs now) (timestamp_secs used) > MAXRECV"

section \<open>Session entries\<close>

datatype session_state = Initiating | Regular

record session_entry =
  session_data :: bytes
  se_state :: session_state
  created_at :: timestamp
  last_used :: timestamp
  convergence_priority :: u64

definition new_with_priority :: "bytes \<Rightarrow> session_state \<Rightarrow> timestamp \<Rightarrow> u64 \<Rightarrow> session_entry" where
  "new_with_priority bs st now priority =
     \<lparr>session_data = bs, se_state = st, created_at = now, last_used = now, convergence_priority = priority\<rparr>"

definition session_entry_new :: "bytes \<Rightarrow> session_state \<Rightarrow> timestamp \<Rightarrow> session_entry" where
  "session_entry_new bs st now = new_with_priority bs st now 0"

definition touch :: "timestamp \<Rightarrow> session_entry \<Rightarrow> session_entry" where
  "touch now e = e\<lparr>last_used := now\<rparr>"

section \<open>Device records\<close>

record device_record =
  active_session :: "session_entry option"
  inactive_sessions :: "session_entry list"
  dr_identity_key :: "identity_public_key option"

definition device_record_new :: device_record where
  "device_record_new = \<lparr>active_session = None, inactive_sessions = [], dr_identity_key = None\<rparr>"

definition MAX_INACTIVE_SESSIONS :: nat where
  "MAX_INACTIVE_SESSIONS = 10"

definition insert_session :: "session_entry \<Rightarrow> device_record \<Rightarrow> device_record" where
  "insert_session session d =
     (let inactive = (case active_session d of None \<Rightarrow> inactive_sessions d
                      | Some old_active \<Rightarrow> old_active # inactive_sessions d);
          d = d\<lparr>active_session := Some session, inactive_sessions := inactive\<rparr>
      in if length (inactive_sessions d) > MAX_INACTIVE_SESSIONS
         then d\<lparr>inactive_sessions := take MAX_INACTIVE_SESSIONS (inactive_sessions d)\<rparr>
         else d)"

text \<open>The three assignments that both branches of \<open>record_decrypt_success\<close> make.\<close>

definition decrypted_entry :: "bytes \<Rightarrow> timestamp \<Rightarrow> session_entry \<Rightarrow> session_entry" where
  "decrypted_entry updated_data now e =
     (let e = e\<lparr>session_data := updated_data, last_used := now\<rparr>
      in if se_state e = Initiating then e\<lparr>se_state := Regular\<rparr> else e)"

text \<open>\<open>Vec::remove\<close> at an index in range.\<close>

definition remove_nth :: "nat \<Rightarrow> 'a list \<Rightarrow> 'a list" where
  "remove_nth i xs = take i xs @ drop (Suc i) xs"

definition record_decrypt_success ::
  "nat \<Rightarrow> bytes \<Rightarrow> timestamp \<Rightarrow> device_record \<Rightarrow> device_record \<times> bytes option" where
  "record_decrypt_success logical_index updated_data now d =
     (let d' =
        (if logical_index = 0
         then (case active_session d of
                 None \<Rightarrow> d
               | Some active \<Rightarrow> d\<lparr>active_session := Some (decrypted_entry updated_data now active)\<rparr>)
         else
           (let idx = logical_index - 1
            in if idx < length (inactive_sessions d)
               then
                 (let entry = decrypted_entry updated_data now (inactive_sessions d ! idx);
                      d = d\<lparr>inactive_sessions := (inactive_sessions d)[idx := entry]\<rparr>;
                      active_priority = (case active_session d of None \<Rightarrow> 0 | Some s \<Rightarrow> convergence_priority s)
                  in if active_session d = None \<or> convergence_priority (inactive_sessions d ! idx) > active_priority
                     then
                       (let promoted = inactive_sessions d ! idx;
                            rest = remove_nth idx (inactive_sessions d)
                        in d\<lparr>active_session := Some promoted,
                             inactive_sessions := (case active_session d of None \<Rightarrow> rest | Some old \<Rightarrow> old # rest)\<rparr>)
                     else d)
               else d))
      in (d', map_option session_data (active_session d')))"

definition prune_stale :: "timestamp \<Rightarrow> device_record \<Rightarrow> device_record" where
  "prune_stale now d =
     d\<lparr>inactive_sessions := filter (\<lambda>s. \<not> is_stale_for_receiving (last_used s) now) (inactive_sessions d)\<rparr>"

definition needs_reestablish :: "timestamp \<Rightarrow> device_record \<Rightarrow> bool" where
  "needs_reestablish now d =
     (case active_session d of None \<Rightarrow> True | Some s \<Rightarrow> is_stale_for_sending (created_at s) now)"

section \<open>User records\<close>

record user_record =
  devices :: "(string, device_record) hashmap"

definition user_record_new :: user_record where
  "user_record_new = \<lparr>devices = []\<rparr>"

definition get_device :: "string \<Rightarrow> user_record \<Rightarrow> device_record option" where
  "get_device dev_id u = map_of (devices u) dev_id"

definition set_device :: "string \<Rightarrow> device_record \<Rightarrow> user_record \<Rightarrow> user_record" where
  "set_device dev_id d u = u\<lparr>devices := AList.update dev_id d (devices u)\<rparr>"

definition get_or_create_device :: "string \<Rightarrow> user_record \<Rightarrow> user_record \<times> device_record" where
  "get_or_create_device dev_id u =
     (case get_device dev_id u of
        Some d \<Rightarrow> (u, d)
      | None \<Rightarrow> (set_device dev_id device_record_new u, device_record_new))"

text \<open>\<open>get_device_mut\<close>: the record as it stands, and the user record once it is overwritten.\<close>

definition get_device_mut :: "string \<Rightarrow> user_record \<Rightarrow> (device_record \<times> (device_record \<Rightarrow> user_record)) option" where
  "get_device_mut dev_id u = map_option (\<lambda>d. (d, \<lambda>d'. set_device dev_id d' u)) (get_device dev_id u)"

definition remove_device :: "string \<Rightarrow> user_record \<Rightarrow> user_record" where
  "remove_device dev_id u = u\<lparr>devices := AList.delete dev_id (devices u)\<rparr>"

definition device_ids :: "user_record \<Rightarrow> string list" where
  "device_ids u = map fst (devices u)"

record device_changes =
  added :: "string list"
  removed :: "string list"

text \<open>
  The two loops of \<open>refresh_devices\<close>. The code walks two hash-set differences, whose order
  it leaves open; here they follow the server's list and the device map.
\<close>

definition kept_for_receiving :: "timestamp \<Rightarrow> user_record \<Rightarrow> string \<Rightarrow> bool" where
  "kept_for_receiving now u dev_id =
     (case get_device dev_id u of
        None \<Rightarrow> False
      | Some d \<Rightarrow> (case active_session d of
                     None \<Rightarrow> False
                   | Some active \<Rightarrow> \<not> is_stale_for_receiving (last_used active) now))"

fun add_devices :: "string list \<Rightarrow> user_record \<times> device_changes \<Rightarrow> user_record \<times> device_changes" where
  "add_devices [] uc = uc"
| "add_devices (new_id # ids) (u, c) =
     add_devices ids (set_device new_id device_record_new u, c\<lparr>added := added c @ [new_id]\<rparr>)"

fun drop_devices :: "timestamp \<Rightarrow> string list \<Rightarrow> user_record \<times> device_changes \<Rightarrow> user_record \<times> device_changes" where
  "drop_devices now [] uc = uc"
| "drop_devices now (gone_id # ids) (u, c) =
     (if kept_for_receiving now u gone_id then drop_devices now ids (u, c)
      else drop_devices now ids (remove_device gone_id u, c\<lparr>removed := removed c @ [gone_id]\<rparr>))"

definition refresh_devices :: "string list \<Rightarrow> timestamp \<Rightarrow> user_record \<Rightarrow> user_record \<times> device_changes" where
  "refresh_devices server_device_ids now u =
     (let current = device_ids u;
          server = remdups server_device_ids;
          uc = add_devices (filter (\<lambda>i. i \<notin> set current) server) (u, \<lparr>added = [], removed = []\<rparr>)
      in drop_devices now (filter (\<lambda>i. i \<notin> set server) current) uc)"

section \<open>The sessions of a device\<close>

definition sessions :: "device_record \<Rightarrow> session_entry list" where
  "sessions d = (case active_session d of None \<Rightarrow> [] | Some a \<Rightarrow> [a]) @ inactive_sessions d"

definition device_ok :: "device_record \<Rightarrow> bool" where
  "device_ok d \<longleftrightarrow> length (inactive_sessions d) \<le> MAX_INACTIVE_SESSIONS"

definition active_priority :: "device_record \<Rightarrow> u64" where
  "active_priority d = (case active_session d of None \<Rightarrow> 0 | Some s \<Rightarrow> convergence_priority s)"

definition priorities :: "device_record \<Rightarrow> u64 multiset" where
  "priorities d = mset (map convergence_priority (sessions d))"

lemma decrypted_entry_simps [simp]:
  "convergence_priority (decrypted_entry bs now e) = convergence_priority e"
  "session_data (decrypted_entry bs now e) = bs" "last_used (decrypted_entry bs now e) = now"
  "created_at (decrypted_entry bs now e) = created_at e" "se_state (decrypted_entry bs now e) = Regular"
  by (cases "se_state e"; simp add: decrypted_entry_def Let_def)+

lemma mset_remove_nth: "i < length xs \<Longrightarrow> add_mset (xs ! i) (mset (remove_nth i xs)) = mset xs"
proof -
  assume "i < length xs"
  then have "mset xs = mset (take i xs @ xs ! i # drop (Suc i) xs)" using id_take_nth_drop [of i xs] by simp
  then show ?thesis by (simp add: remove_nth_def)
qed

lemma length_remove_nth: "i < length xs \<Longrightarrow> Suc (length (remove_nth i xs)) = length xs"
  using mset_remove_nth [of i xs] by (metis size_add_mset size_mset)

lemma remove_nth_update [simp]: "remove_nth i (xs[i := x]) = remove_nth i xs"
  by (simp add: remove_nth_def)

lemma sessions_insert: "sessions (insert_session s d) = take (Suc MAX_INACTIVE_SESSIONS) (s # sessions d)"
  by (auto simp: sessions_def insert_session_def Let_def take_Cons' split: option.splits)

lemma sessions_Some: "active_session d = Some a \<Longrightarrow> sessions d = a # inactive_sessions d"
  by (simp add: sessions_def)

section \<open>What a decryption does to the record\<close>

text \<open>The session it happened on, by logical index, and the record with that session advanced.\<close>

definition inactive_at :: "nat \<Rightarrow> device_record \<Rightarrow> session_entry" where
  "inactive_at i d = inactive_sessions d ! (i - 1)"

lemma record_decrypt_active:
  assumes "active_session d = Some a"
  shows "fst (record_decrypt_success 0 bs now d) = d\<lparr>active_session := Some (decrypted_entry bs now a)\<rparr>"
  using assms by (simp add: record_decrypt_success_def Let_def)

lemma record_decrypt_keep:
  assumes "active_session d = Some a" and "0 < i" "i \<le> length (inactive_sessions d)"
    and "convergence_priority (inactive_at i d) \<le> convergence_priority a"
  shows "fst (record_decrypt_success i bs now d) =
     d\<lparr>inactive_sessions := (inactive_sessions d)[i - 1 := decrypted_entry bs now (inactive_at i d)]\<rparr>"
  using assms by (auto simp: record_decrypt_success_def inactive_at_def Let_def)

lemma record_decrypt_promote:
  assumes "active_session d = Some a" and "0 < i" "i \<le> length (inactive_sessions d)"
    and "convergence_priority a < convergence_priority (inactive_at i d)"
  shows "fst (record_decrypt_success i bs now d) =
     d\<lparr>active_session := Some (decrypted_entry bs now (inactive_at i d)),
       inactive_sessions := a # remove_nth (i - 1) (inactive_sessions d)\<rparr>"
  using assms by (auto simp: record_decrypt_success_def inactive_at_def Let_def)

lemma record_decrypt_first:
  assumes "active_session d = None" and "0 < i" "i \<le> length (inactive_sessions d)"
  shows "fst (record_decrypt_success i bs now d) =
     d\<lparr>active_session := Some (decrypted_entry bs now (inactive_at i d)),
       inactive_sessions := remove_nth (i - 1) (inactive_sessions d)\<rparr>"
  using assms by (auto simp: record_decrypt_success_def inactive_at_def Let_def)

lemma record_decrypt_none:
  assumes "length (inactive_sessions d) < i \<or> i = 0 \<and> active_session d = None"
  shows "fst (record_decrypt_success i bs now d) = d"
  using assms by (auto simp: record_decrypt_success_def Let_def)

lemma record_decrypt_data:
  "snd (record_decrypt_success i bs now d) = map_option session_data (active_session (fst (record_decrypt_success i bs now d)))"
  by (simp add: record_decrypt_success_def Let_def)

text \<open>The five cases, exhaustively.\<close>

lemma record_decrypt_cases:
  obtains (active) a where "i = 0" "active_session d = Some a"
  | (keep) a where "active_session d = Some a" "0 < i" "i \<le> length (inactive_sessions d)"
      "convergence_priority (inactive_at i d) \<le> convergence_priority a"
  | (promote) a where "active_session d = Some a" "0 < i" "i \<le> length (inactive_sessions d)"
      "convergence_priority a < convergence_priority (inactive_at i d)"
  | (first) "active_session d = None" "0 < i" "i \<le> length (inactive_sessions d)"
  | (none) "length (inactive_sessions d) < i \<or> i = 0 \<and> active_session d = None"
  by (cases "active_session d"; cases "i = 0"; meson bot_nat_0.not_eq_extremum not_le)

lemma mset_update_map:
  "i < length xs \<Longrightarrow> f x = f (xs ! i) \<Longrightarrow> image_mset f (mset (xs[i := x])) = image_mset f (mset xs)"
  by (metis length_map list_update_id map_update mset_map nth_map)

lemma priorities_decrypt: "priorities (fst (record_decrypt_success i bs now d)) = priorities d"
proof (cases rule: record_decrypt_cases [of i d])
  case (keep a)
  then show ?thesis
    by (simp add: record_decrypt_keep priorities_def sessions_def mset_update_map inactive_at_def)
next
  case (promote a)
  then show ?thesis
    using mset_remove_nth [of "i - 1" "map convergence_priority (inactive_sessions d)"]
    by (simp add: record_decrypt_promote priorities_def sessions_def inactive_at_def remove_nth_def take_map drop_map)
next
  case first
  then show ?thesis
    using mset_remove_nth [of "i - 1" "map convergence_priority (inactive_sessions d)"]
    by (simp add: record_decrypt_first priorities_def sessions_def inactive_at_def remove_nth_def take_map drop_map)
qed (auto simp: record_decrypt_active record_decrypt_none priorities_def sessions_def)

lemma device_ok_decrypt: "device_ok d \<Longrightarrow> device_ok (fst (record_decrypt_success i bs now d))"
proof (cases rule: record_decrypt_cases [of i d])
  case (promote a)
  then show "device_ok d \<Longrightarrow> ?thesis"
    using length_remove_nth [of "i - 1" "inactive_sessions d"] by (simp add: record_decrypt_promote device_ok_def)
next
  case first
  then have "Suc (length (remove_nth (i - 1) (inactive_sessions d))) = length (inactive_sessions d)"
    by (intro length_remove_nth) simp
  then show "device_ok d \<Longrightarrow> ?thesis" using first by (simp add: record_decrypt_first device_ok_def)
qed (auto simp: record_decrypt_active record_decrypt_keep record_decrypt_none device_ok_def)

lemma device_ok_insert: "device_ok (insert_session s d)"
  by (simp add: device_ok_def insert_session_def Let_def)

lemma device_ok_prune: "device_ok d \<Longrightarrow> device_ok (prune_stale now d)"
  unfolding device_ok_def prune_stale_def by (simp add: le_trans [OF length_filter_le])

lemma device_ok_new: "device_ok device_record_new"
  by (simp add: device_ok_def device_record_new_def)

lemma active_priority_decrypt:
  assumes "active_session d = Some a" and "i < length (sessions d)"
  shows "active_priority (fst (record_decrypt_success i bs now d)) =
     max (active_priority d) (convergence_priority (sessions d ! i))"
    and "active_session (fst (record_decrypt_success i bs now d)) \<noteq> None"
  using assms
  by (cases rule: record_decrypt_cases [of i d];
      auto simp: record_decrypt_active record_decrypt_keep record_decrypt_promote active_priority_def sessions_Some
        inactive_at_def max_def)+

end
