(* ===== verification/Sesame_Contract.thy ===== *)
theory Sesame_Contract
  imports Sesame Braid_System
begin

text \<open>
  What session management promises: bounded records that lose no session but the oldest, a
  device list reconciled with the server's, lifetimes that leave room for messages in flight,
  and two peers that opened sessions at the same time settling on one of them.
  \<open>level_register\<close> is the contract behind the last: a replica whose level only grows to the
  highest weight it has seen, in whatever order.
\<close>

section \<open>Replicas that keep the highest level seen\<close>

locale level_register =
  fixes recv :: "'m \<Rightarrow> 's \<Rightarrow> 's"
    and level :: "'s \<Rightarrow> 'v::linorder"
    and weight :: "'m \<Rightarrow> 'v"
    and accepts :: "'s \<Rightarrow> 'm \<Rightarrow> bool"
  assumes recv_level: "accepts s m \<Longrightarrow> level (recv m s) = max (level s) (weight m)"
    and accepts_recv: "accepts s m \<Longrightarrow> accepts s m' \<Longrightarrow> accepts (recv m s) m'"
begin

lemma level_fold:
  "\<forall>m \<in> set ms. accepts s m \<Longrightarrow> level (fold recv ms s) = Max (insert (level s) (weight ` set ms))"
proof (induction ms arbitrary: s)
  case Nil
  then show ?case by simp
next
  case (Cons m ms)
  then have "\<forall>m' \<in> set ms. accepts (recv m s) m'" by (simp add: accepts_recv)
  moreover have "Max (insert (max a b) A) = Max (insert a (insert b A))" if "finite A" for a b :: 'v and A
    using that by (cases "A = {}") (simp_all add: max.assoc)
  ultimately show ?case using Cons.IH Cons.prems by (simp add: recv_level)
qed

text \<open>Order and repetition do not matter.\<close>

lemma level_same_set:
  assumes "\<forall>m \<in> set ms. accepts s m" and "set ms = set ms'"
  shows "level (fold recv ms s) = level (fold recv ms' s)"
  using level_fold [OF assms(1)] level_fold [of ms' s] assms by simp

lemma level_mono: "accepts s m \<Longrightarrow> level s \<le> level (recv m s)"
  by (simp add: recv_level)

end

text \<open>The first session of a priority, as a logical index, and a decryption on it.\<close>

definition session_index :: "u64 \<Rightarrow> device_record \<Rightarrow> nat" where
  "session_index q d = length (takeWhile (\<lambda>s. convergence_priority s \<noteq> q) (sessions d))"

definition decrypt_on :: "u64 \<times> bytes \<times> timestamp \<Rightarrow> device_record \<Rightarrow> device_record" where
  "decrypt_on m d = (case m of (q, bs, now) \<Rightarrow> fst (record_decrypt_success (session_index q d) bs now d))"

definition holds_session :: "device_record \<Rightarrow> u64 \<times> bytes \<times> timestamp \<Rightarrow> bool" where
  "holds_session d m \<longleftrightarrow> active_session d \<noteq> None \<and> fst m \<in># priorities d"

lemma session_index_hits:
  assumes "q \<in># priorities d"
  shows "session_index q d < length (sessions d)" and "convergence_priority (sessions d ! session_index q d) = q"
proof -
  have ex: "\<exists>s \<in> set (sessions d). convergence_priority s = q" using assms by (auto simp: priorities_def)
  then have "takeWhile (\<lambda>s. convergence_priority s \<noteq> q) (sessions d) \<noteq> sessions d"
    by (auto simp: takeWhile_eq_all_conv)
  then show "session_index q d < length (sessions d)"
    unfolding session_index_def by (metis length_takeWhile_le le_neq_implies_less take_all takeWhile_eq_take)
  then show "convergence_priority (sessions d ! session_index q d) = q"
    unfolding session_index_def using nth_length_takeWhile by blast
qed

lemma decrypt_on_level:
  assumes "holds_session d m"
  shows "active_priority (decrypt_on m d) = max (active_priority d) (fst m)"
    and "active_session (decrypt_on m d) \<noteq> None" and "priorities (decrypt_on m d) = priorities d"
proof -
  obtain q bs now where m: "m = (q, bs, now)" by (cases m)
  obtain a where a: "active_session d = Some a" using assms by (auto simp: holds_session_def)
  note h = session_index_hits [of q d] and l = active_priority_decrypt [OF a, of "session_index q d" bs now]
  have q: "q \<in># priorities d" using assms m by (simp add: holds_session_def)
  show "active_priority (decrypt_on m d) = max (active_priority d) (fst m)" "active_session (decrypt_on m d) \<noteq> None"
    using l h q m by (simp_all add: decrypt_on_def)
  show "priorities (decrypt_on m d) = priorities d" using priorities_decrypt m by (simp add: decrypt_on_def)
qed

interpretation active_level: level_register decrypt_on active_priority fst holds_session
proof
  show "active_priority (decrypt_on m s) = max (active_priority s) (fst m)" if "holds_session s m" for s m
    using decrypt_on_level(1) [OF that] .
  show "holds_session (decrypt_on m s) m'" if "holds_session s m" "holds_session s m'" for s m m'
    using decrypt_on_level(2,3) [OF that(1)] that(2) by (simp add: holds_session_def)
qed

section \<open>Two peers\<close>

text \<open>
  Both ends hold the sessions of a simultaneous establishment. A party sends on its active
  session; \<open>in_flight\<close> is the set of sessions it has sent on. A delivery decrypts on the
  session of that priority.
\<close>

record dual =
  rec_of :: "party \<Rightarrow> device_record"
  in_flight :: "party \<Rightarrow> u64 set"

abbreviation level_of :: "dual \<Rightarrow> party \<Rightarrow> u64" where
  "level_of S p \<equiv> active_priority (rec_of S p)"

inductive dual_step :: "dual \<Rightarrow> dual \<Rightarrow> bool" where
  dual_send: "dual_step S (S\<lparr>in_flight := (in_flight S)(p := insert (level_of S p) (in_flight S p))\<rparr>)"
| dual_deliver: "q \<in> in_flight S (other p) \<Longrightarrow>
     dual_step S (S\<lparr>rec_of := (rec_of S)(p := decrypt_on (q, bs, now) (rec_of S p))\<rparr>)"

definition dual_start :: "dual \<Rightarrow> bool" where
  "dual_start S \<longleftrightarrow>
     (\<forall>p. active_session (rec_of S p) \<noteq> None \<and> in_flight S p = {} \<and>
          priorities (rec_of S p) = priorities (rec_of S (other p)))"

definition dual_ok :: "u64 multiset \<Rightarrow> dual \<Rightarrow> bool" where
  "dual_ok M S \<longleftrightarrow>
     (\<forall>p. active_session (rec_of S p) \<noteq> None \<and> priorities (rec_of S p) = M \<and>
          (\<forall>q \<in> in_flight S p. q \<in># M \<and> q \<le> level_of S p))"

lemma dual_okD:
  assumes "dual_ok M S"
  shows "active_session (rec_of S p) \<noteq> None" "priorities (rec_of S p) = M"
    "q \<in> in_flight S p \<Longrightarrow> q \<in># M" "q \<in> in_flight S p \<Longrightarrow> q \<le> level_of S p"
  using assms unfolding dual_ok_def by blast+

lemma dual_start_ok: "dual_start S \<Longrightarrow> dual_ok (priorities (rec_of S Alice)) S"
  unfolding dual_start_def dual_ok_def by (metis empty_iff other_cases)

lemma active_priority_in: "active_session d \<noteq> None \<Longrightarrow> active_priority d \<in># priorities d"
  by (auto simp: active_priority_def priorities_def sessions_def)

lemma dual_deliver_level:
  assumes "dual_ok M S" and "q \<in> in_flight S (other p)"
  shows "holds_session (rec_of S p) (q, bs, now)"
  using dual_okD [OF assms(1)] assms(2) by (simp add: holds_session_def)

lemma dual_step_ok:
  assumes "dual_step S S'" and ok: "dual_ok M S"
  shows "dual_ok M S'"
  using assms(1)
proof cases
  case (dual_send p)
  have "level_of S p \<in># M" using active_priority_in dual_okD(1,2) [OF ok, of p] by metis
  then show ?thesis unfolding dual_send using ok by (simp add: dual_ok_def)
next
  case (dual_deliver q p bs now)
  have "holds_session (rec_of S p) (q, bs, now)" by (rule dual_deliver_level [OF ok dual_deliver(2)])
  note d = decrypt_on_level [OF this]
  show ?thesis
    unfolding dual_deliver(1) using d dual_okD [OF ok] by (simp add: dual_ok_def le_max_iff_disj)
qed

lemma dual_steps_ok: "dual_step\<^sup>*\<^sup>* S S' \<Longrightarrow> dual_ok M S \<Longrightarrow> dual_ok M S'"
  by (induction rule: rtranclp_induct) (simp_all add: dual_step_ok)

text \<open>Agreement is permanent.\<close>

lemma agreement_step:
  assumes "dual_step S S'" and ok: "dual_ok M S" and agree: "\<forall>r. level_of S r = q"
  shows "\<forall>r. level_of S' r = q"
  using assms(1)
proof cases
  case (dual_deliver q' p bs now)
  have "q' \<le> q" using dual_okD(4) [OF ok dual_deliver(2)] agree by simp
  then show ?thesis
    using dual_deliver(1) decrypt_on_level(1) [OF dual_deliver_level [OF ok dual_deliver(2)]] agree by simp
qed (use agree in simp)

lemma agreement_steps:
  "dual_step\<^sup>*\<^sup>* S S' \<Longrightarrow> dual_ok M S \<Longrightarrow> \<forall>r. level_of S r = q \<Longrightarrow> \<forall>r. level_of S' r = q"
proof (induction rule: rtranclp_induct)
  case (step S1 S2)
  then show ?case using agreement_step [OF step.hyps(2)] dual_steps_ok by blast
qed simp

section \<open>The device list\<close>

definition user_ok :: "user_record \<Rightarrow> bool" where
  "user_ok u \<longleftrightarrow> hashmap_invar (devices u)"

interpretation user_map: kv_map "\<lambda>u i. get_device i u" set_device remove_device "\<lambda>u. length (devices u)" user_ok
  using hash_map.kv_map_axioms
  by unfold_locales
    (auto simp: get_device_def set_device_def remove_device_def user_ok_def hash_map.lookup_insert hash_map.lookup_remove
      hash_map.invar_insert hash_map.invar_remove hash_map.size_dom dom_def [symmetric] finite_dom_map_of)

lemma get_set_device: "get_device i (set_device j d u) = (if i = j then Some d else get_device i u)"
  by (simp add: get_device_def set_device_def update_conv')

lemma device_ids_dom: "set (device_ids u) = {i. get_device i u \<noteq> None}"
  by (auto simp: device_ids_def get_device_def map_of_eq_None_iff)

lemma add_devices_view:
  assumes "user_ok u"
  shows "user_ok (fst (add_devices ids (u, c)))"
    and "get_device i (fst (add_devices ids (u, c))) = (if i \<in> set ids then Some device_record_new else get_device i u)"
    and "snd (add_devices ids (u, c)) = c\<lparr>added := added c @ ids\<rparr>"
  using assms
  by (induction ids arbitrary: u c) (simp_all add: user_map.invar_insert get_set_device)

lemma drop_devices_view:
  assumes "user_ok u" and "distinct ids"
  shows "user_ok (fst (drop_devices now ids (u, c))) \<and>
    (\<forall>i. get_device i (fst (drop_devices now ids (u, c))) =
       (if i \<in> set ids \<and> \<not> kept_for_receiving now u i then None else get_device i u)) \<and>
    snd (drop_devices now ids (u, c)) = c\<lparr>removed := removed c @ filter (\<lambda>i. \<not> kept_for_receiving now u i) ids\<rparr>"
  using assms
proof (induction ids arbitrary: u c)
  case (Cons x ids)
  show ?case
  proof (cases "kept_for_receiving now u x")
    case True
    then show ?thesis using Cons by auto
  next
    case False
    let ?u = "remove_device x u"
    have u: "user_ok ?u" "get_device i ?u = (if i = x then None else get_device i u)" for i
      using user_map.invar_remove [OF Cons.prems(1)] user_map.lookup_remove [OF Cons.prems(1), of x] by (simp_all add: fun_eq_iff)
    have k: "kept_for_receiving now ?u i = kept_for_receiving now u i" if "i \<in> set ids" for i
      using u(2) [of i] that Cons.prems(2) by (auto simp: kept_for_receiving_def)
    then have f: "filter (\<lambda>i. \<not> kept_for_receiving now ?u i) ids = filter (\<lambda>i. \<not> kept_for_receiving now u i) ids"
      by (simp cong: filter_cong)
    show ?thesis
      using Cons.IH [OF u(1), of "c\<lparr>removed := removed c @ [x]\<rparr>"] Cons.prems(2) False u(2) k f by auto
  qed
qed simp

lemma refresh_devices_view:
  assumes u: "user_ok u" and r: "refresh_devices server now u = (u', c)"
  shows "user_ok u'"
    and "get_device i u' =
      (if i \<in> set server then Some (case get_device i u of None \<Rightarrow> device_record_new | Some d \<Rightarrow> d)
       else if kept_for_receiving now u i then get_device i u else None)"
    and "distinct (added c)" and "set (added c) = {i \<in> set server. get_device i u = None}"
    and "distinct (removed c)"
    and "set (removed c) = {i. get_device i u \<noteq> None \<and> i \<notin> set server \<and> \<not> kept_for_receiving now u i}"
proof -
  let ?new = "filter (\<lambda>i. i \<notin> set (device_ids u)) (remdups server)"
  let ?gone = "filter (\<lambda>i. i \<notin> set (remdups server)) (device_ids u)"
  let ?c0 = "\<lparr>added = [], removed = []\<rparr>"
  obtain u1 c1 where a: "add_devices ?new (u, ?c0) = (u1, c1)" by (metis surj_pair)
  note av = add_devices_view [OF u, where ids = ?new and c = ?c0, unfolded a fst_conv snd_conv]
  have d: "distinct ?gone" using u by (simp add: device_ids_def user_ok_def hashmap_invar_def)
  have r': "drop_devices now ?gone (u1, c1) = (u', c)" using r a by (simp add: refresh_devices_def Let_def)
  note dv = drop_devices_view [OF av(1) d, of now c1, unfolded r' fst_conv snd_conv]
  have kept: "kept_for_receiving now u1 i = kept_for_receiving now u i" for i
    using av(2) [of i] by (auto simp: kept_for_receiving_def device_record_new_def device_ids_dom)
  show "user_ok u'" using dv by blast
  show "get_device i u' = (if i \<in> set server then Some (case get_device i u of None \<Rightarrow> device_record_new | Some d \<Rightarrow> d)
       else if kept_for_receiving now u i then get_device i u else None)"
    using dv av(2) [of i] kept [of i] by (auto simp: device_ids_dom split: option.splits)
  show "distinct (added c)" "set (added c) = {i \<in> set server. get_device i u = None}"
    using dv av(3) by (auto simp: device_ids_dom)
  have "distinct (device_ids u)" using u by (simp add: device_ids_def user_ok_def hashmap_invar_def)
  then show "distinct (removed c)" using dv av(3) by simp
  show "set (removed c) = {i. get_device i u \<noteq> None \<and> i \<notin> set server \<and> \<not> kept_for_receiving now u i}"
    using dv av(3) kept by (auto simp: device_ids_dom)
qed

section \<open>Lifetimes\<close>

lemma in_flight_not_stale:
  assumes "\<not> is_stale_for_sending c t" and "c \<le> t" and "c \<le> used"
    and "unat (timestamp_secs now) \<le> unat (timestamp_secs t) + 2 * unat MAXLATENCY"
  shows "\<not> is_stale_for_receiving used now"
proof -
  have s: "unat (timestamp_secs t) \<le> unat (timestamp_secs c) + unat MAXSEND"
    using assms(1,2) by (simp add: is_stale_for_sending_def saturating_sub_def less_eq_timestamp_def unat_sub
        word_le_nat_alt word_less_nat_alt split: if_splits)
  have "unat MAXSEND + 2 * unat MAXLATENCY \<le> unat MAXRECV" by (simp add: MAXSEND_def MAXLATENCY_def MAXRECV_def)
  then have "unat (timestamp_secs now) \<le> unat (timestamp_secs used) + unat MAXRECV"
    using s assms(3,4) by (simp add: less_eq_timestamp_def word_le_nat_alt)
  then show ?thesis
    by (simp add: is_stale_for_receiving_def saturating_sub_def unat_sub word_le_nat_alt word_less_nat_alt) linarith
qed

section \<open>Properties\<close>


definition demo_session :: "u64 \<Rightarrow> session_entry" where
  "demo_session q = new_with_priority [1] Initiating (Timestamp 100) q"

definition demo_dual :: dual where
  "demo_dual =
     \<lparr>rec_of = (\<lambda>p. case p of
         Alice \<Rightarrow> \<lparr>active_session = Some (demo_session 3), inactive_sessions = [demo_session 9], dr_identity_key = None\<rparr>
       | Bob \<Rightarrow> \<lparr>active_session = Some (demo_session 9), inactive_sessions = [demo_session 3], dr_identity_key = None\<rparr>),
      in_flight = (\<lambda>_. {})\<rparr>"

lemma demo_dual_start: "dual_start demo_dual" "level_of demo_dual Alice = 3" "level_of demo_dual Bob = 9"
proof -
  show "dual_start demo_dual"
    unfolding dual_start_def
  proof
    show "active_session (rec_of demo_dual p) \<noteq> None \<and> in_flight demo_dual p = {} \<and>
        priorities (rec_of demo_dual p) = priorities (rec_of demo_dual (other p))" for p
      by (cases p) (simp_all add: demo_dual_def priorities_def sessions_def demo_session_def new_with_priority_def)
  qed
qed (simp_all add: demo_dual_def active_priority_def demo_session_def new_with_priority_def)


text \<open>
  C16. Order does not matter. The session a device ends up sending on after a batch of
  decryptions is the highest it started with or received on, whatever the order and repetition
  of the batch; no decryption lowers it.
\<close>

theorem sesame_order_irrelevant:
  assumes "\<forall>m \<in> set ms. holds_session d m" and "set ms = set ms'"
  shows "active_priority (fold decrypt_on ms d) = Max (insert (active_priority d) (fst ` set ms)) \<and>
         active_priority (fold decrypt_on ms' d) = active_priority (fold decrypt_on ms d)"
  using active_level.level_fold [OF assms(1)] active_level.level_same_set [OF assms] by simp

theorem sesame_order_irrelevant_witness:
  "active_priority (fold decrypt_on [(9, [1], Timestamp 1), (3, [2], Timestamp 2)] (rec_of demo_dual Alice)) = 9"
proof -
  have "\<forall>m \<in> set [(9, [1], Timestamp 1), (3, [2], Timestamp 2)]. holds_session (rec_of demo_dual Alice) m"
    by (simp add: holds_session_def demo_dual_def priorities_def sessions_def demo_session_def new_with_priority_def)
  from sesame_order_irrelevant [OF this refl] show ?thesis using demo_dual_start(2) by simp
qed



text \<open>
  C38. Reconciliation with the server. After a refresh the record has exactly the server's
  devices and those with a recently used active session; known devices keep their sessions,
  new ones start empty, and the reported changes are exactly the difference, without repetition.
\<close>

theorem sesame_refresh_exact:
  assumes "user_ok u" and "refresh_devices server now u = (u', c)"
  shows "user_ok u' \<and>
    (\<forall>i. get_device i u' =
      (if i \<in> set server then Some (case get_device i u of None \<Rightarrow> device_record_new | Some d \<Rightarrow> d)
       else if kept_for_receiving now u i then get_device i u else None)) \<and>
    distinct (added c) \<and> set (added c) = {i \<in> set server. get_device i u = None} \<and>
    distinct (removed c) \<and>
    set (removed c) = {i. get_device i u \<noteq> None \<and> i \<notin> set server \<and> \<not> kept_for_receiving now u i}"
  using refresh_devices_view [OF assms] by blast

theorem sesame_refresh_exact_witness:
  "\<exists>u' c. refresh_devices [''a'', ''b''] (Timestamp 5) user_record_new = (u', c) \<and>
     get_device ''a'' u' = Some device_record_new \<and> set (added c) = {''a'', ''b''}"
proof -
  obtain u' c where r: "refresh_devices [''a'', ''b''] (Timestamp 5) user_record_new = (u', c)" by (metis surj_pair)
  have "user_ok user_record_new" by (simp add: user_ok_def user_record_new_def)
  from sesame_refresh_exact [OF this r] r show ?thesis by (auto simp: get_device_def user_record_new_def)
qed

text \<open>
  Lifetimes leave room for messages in flight. A message sent on a session that was not
  stale for sending, and arriving within twice the assumed latency, finds a session that the
  receiver, who created or used it no earlier than the sender created it, has not pruned.
\<close>

theorem sesame_lifetimes:
  assumes "\<not> is_stale_for_sending created sent" and "created \<le> sent" and "created \<le> last_used s"
    and "unat (timestamp_secs now) \<le> unat (timestamp_secs sent) + 2 * unat MAXLATENCY"
    and "s \<in> set (inactive_sessions d)"
  shows "s \<in> set (inactive_sessions (prune_stale now d))"
  using in_flight_not_stale [OF assms(1-4)] assms(5) by (simp add: prune_stale_def)

theorem sesame_lifetimes_witness:
  "demo_session 9 \<in> set (inactive_sessions (prune_stale (Timestamp 2606400) (rec_of demo_dual Alice)))"
  by (rule sesame_lifetimes [of "Timestamp 100" "Timestamp 2592100"])
    (simp_all add: is_stale_for_sending_def saturating_sub_def MAXSEND_def MAXLATENCY_def less_eq_timestamp_def
      demo_session_def new_with_priority_def demo_dual_def)

end
