(* ===== verification/Sender_Key.thy ===== *)
theory Sender_Key
  imports Keys Aead Interfaces
begin

text \<open>
  \<open>protocol/sender_key\<close>: group messaging over sender keys (\<open>mod.rs\<close>, \<open>distribution.rs\<close>).
  A member hands out its chain key once and then encrypts each message under the next key of
  the hash chain, authenticated by an Ed25519 signature or, for voice, by an HMAC. The random
  chain key, signing seed and AEAD nonce are arguments.
\<close>

section \<open>State\<close>

datatype sender_key_auth = Hmac | Signed

record sender_key_distribution_message =
  dm_group_id :: bytes
  dm_chain_key :: bytes
  dm_iteration :: u32
  dm_signing_key :: "bytes option"

record sender_key_state =
  gs_chain_key :: bytes
  gs_iteration :: u32
  is_sender :: bool
  auth_mode :: sender_key_auth
  signing_public :: "bytes option"
  signing_private :: "bytes option"
  skipped_message_keys :: "(u32 \<times> bytes) list"

definition default_auth_mode :: sender_key_auth where
  "default_auth_mode = Signed"

definition from_distribution :: "sender_key_distribution_message \<Rightarrow> sender_key_state" where
  "from_distribution msg =
     (let mode = (if dm_signing_key msg \<noteq> None then Signed else Hmac)
      in \<lparr>gs_chain_key = dm_chain_key msg, gs_iteration = dm_iteration msg, is_sender = False,
          auth_mode = mode, signing_public = dm_signing_key msg, signing_private = None,
          skipped_message_keys = []\<rparr>)"

definition hmac_derive :: "ext \<Rightarrow> bytes \<Rightarrow> u8 \<Rightarrow> bytes" where
  "hmac_derive X key byte = hmac X key [byte]"

definition hmac_authenticate :: "ext \<Rightarrow> bytes \<Rightarrow> bytes \<Rightarrow> bytes" where
  "hmac_authenticate X key data = hmac X key data"

text \<open>The loop of \<open>derive_message_key\<close>, by the number of iterations.\<close>

fun derive_loop :: "ext \<Rightarrow> nat \<Rightarrow> bytes \<Rightarrow> bytes list \<times> bytes" where
  "derive_loop X 0 ck = ([], ck)"
| "derive_loop X (Suc n) ck =
     (let mk = hmac_derive X ck 1;
          (skipped, ck') = derive_loop X n (hmac_derive X ck 2)
      in (mk # skipped, ck'))"

definition derive_message_key :: "ext \<Rightarrow> u32 \<Rightarrow> sender_key_state \<Rightarrow> (bytes list \<times> bytes) res" where
  "derive_message_key X at_iteration s =
     (if at_iteration < gs_iteration s then Inl DuplicateMessage
      else (let gap = at_iteration - gs_iteration s
            in if gap > 2000 then Inl (MaxSkipExceeded gap 2000)
               else (let (skipped, ck) = derive_loop X (unat gap) (gs_chain_key s)
                     in Inr (skipped, hmac_derive X ck 1))))"

definition iteration :: "sender_key_state \<Rightarrow> u32" where
  "iteration s = gs_iteration s"

text \<open>The loop of \<open>verify_hmac\<close>.\<close>

fun forward_chain :: "ext \<Rightarrow> nat \<Rightarrow> bytes \<Rightarrow> bytes" where
  "forward_chain X 0 ck = ck"
| "forward_chain X (Suc n) ck = forward_chain X n (hmac_derive X ck 2)"

definition verify_hmac :: "ext \<Rightarrow> sender_key_state \<Rightarrow> u32 \<Rightarrow> bytes \<Rightarrow> bytes \<Rightarrow> unit res" where
  "verify_hmac X s n auth_data mac =
     (let auth_key =
        (if n = gs_iteration s then Inr (hmac_derive X (gs_chain_key s) 3)
         else if n > gs_iteration s
         then (let gap = n - gs_iteration s
               in if gap > 2000 then Inl (MaxSkipExceeded gap 2000)
                  else Inr (hmac_derive X (forward_chain X (unat gap) (gs_chain_key s)) 3))
         else Inl DuplicateMessage)
      in case auth_key of
           Inl e \<Rightarrow> Inl e
         | Inr auth_key \<Rightarrow>
             (if length mac \<noteq> 32 then Inl InvalidSignature
              else if hmac_authenticate X auth_key auth_data = mac then Inr ()
              else Inl InvalidSignature))"

section \<open>Messages\<close>

datatype message_auth = HmacTag bytes | Signature bytes

record sender_key_message =
  sm_group_id :: bytes
  sm_iteration :: u32
  sm_ciphertext :: bytes
  sm_auth :: message_auth

definition create_sender_key_distribution_message ::
  "ext \<Rightarrow> bytes \<Rightarrow> bytes \<Rightarrow> bytes \<Rightarrow> sender_key_auth \<Rightarrow> sender_key_state \<times> sender_key_distribution_message" where
  "create_sender_key_distribution_message X chain_rand sign_rand group_id auth =
     (let chain_key = chain_rand;
          (private, public) =
            (case auth of
               Signed \<Rightarrow> (let keypair = identity_generate sign_rand
                          in (Some (identity_seed keypair), Some (identity_public_bytes (public_key X keypair))))
             | Hmac \<Rightarrow> (None, None));
          state = \<lparr>gs_chain_key = chain_key, gs_iteration = 0, is_sender = True, auth_mode = auth,
                   signing_public = public, signing_private = private, skipped_message_keys = []\<rparr>;
          dist = \<lparr>dm_group_id = group_id, dm_chain_key = chain_key, dm_iteration = 0, dm_signing_key = public\<rparr>
      in (state, dist))"

definition distribution_message_for_existing :: "sender_key_state \<Rightarrow> bytes \<Rightarrow> sender_key_distribution_message" where
  "distribution_message_for_existing s group_id =
     \<lparr>dm_group_id = group_id, dm_chain_key = gs_chain_key s, dm_iteration = gs_iteration s,
      dm_signing_key = signing_public s\<rparr>"

definition process_sender_key_distribution_message ::
  "protocol_address \<Rightarrow> sender_key_distribution_message \<Rightarrow> sender_key_state" where
  "process_sender_key_distribution_message sender msg = from_distribution msg"

definition authenticated_data :: "bytes \<Rightarrow> u32 \<Rightarrow> bytes \<Rightarrow> bytes" where
  "authenticated_data group_id n ciphertext = group_id @ u32_be n @ ciphertext"

definition group_encrypt ::
  "ext \<Rightarrow> bytes \<Rightarrow> bytes \<Rightarrow> bytes \<Rightarrow> sender_key_state \<Rightarrow> sender_key_state \<times> sender_key_message res" where
  "group_encrypt X nonce group_id plaintext s =
     (if \<not> is_sender s then (s, Inl MissingSenderKey)
      else
        (let mk = hmac_derive X (gs_chain_key s) 1
         in case aead_encrypt X mk nonce plaintext group_id of
              Inl e \<Rightarrow> (s, Inl e)
            | Inr ciphertext \<Rightarrow>
                (let n = gs_iteration s;
                     auth_data = authenticated_data group_id n ciphertext;
                     auth =
                       (case auth_mode s of
                          Signed \<Rightarrow>
                            (case signing_private s of
                               None \<Rightarrow> Inl MissingSenderKey
                             | Some seed \<Rightarrow> Inr (Signature (sign X (identity_from_seed seed) auth_data)))
                        | Hmac \<Rightarrow>
                            (let auth_key = hmac_derive X (gs_chain_key s) 3
                             in Inr (HmacTag (hmac_authenticate X auth_key auth_data))))
                 in case auth of
                      Inl e \<Rightarrow> (s, Inl e)
                    | Inr auth \<Rightarrow>
                        (s\<lparr>gs_chain_key := hmac_derive X (gs_chain_key s) 2, gs_iteration := gs_iteration s + 1\<rparr>,
                         Inr \<lparr>sm_group_id = group_id, sm_iteration = n, sm_ciphertext = ciphertext, sm_auth = auth\<rparr>))))"

text \<open>The authentication that precedes every decryption.\<close>

definition check_auth :: "ext \<Rightarrow> sender_key_state \<Rightarrow> sender_key_message \<Rightarrow> unit res" where
  "check_auth X s m =
     (let auth_data = authenticated_data (sm_group_id m) (sm_iteration m) (sm_ciphertext m)
      in case (auth_mode s, sm_auth m) of
           (Signed, Signature signature) \<Rightarrow>
             (case signing_public s of
                None \<Rightarrow> Inl InvalidSignature
              | Some public \<Rightarrow>
                  (case identity_from_bytes X public of
                     Inl e \<Rightarrow> Inl e
                   | Inr pk \<Rightarrow> verify X pk auth_data signature))
         | (Hmac, HmacTag mac) \<Rightarrow> verify_hmac X s (sm_iteration m) auth_data mac
         | _ \<Rightarrow> Inl InvalidSignature)"

text \<open>\<open>position\<close> and \<open>remove\<close>: the first entry of that iteration, and the others.\<close>

fun take_skipped :: "u32 \<Rightarrow> (u32 \<times> bytes) list \<Rightarrow> (bytes \<times> (u32 \<times> bytes) list) option" where
  "take_skipped n [] = None"
| "take_skipped n ((i, mk) # keys) =
     (if i = n then Some (mk, keys)
      else map_option (\<lambda>(mk', rest). (mk', (i, mk) # rest)) (take_skipped n keys))"

text \<open>The loop that files the skipped keys, as far as there is room.\<close>

fun store_skipped :: "u32 \<Rightarrow> bytes list \<Rightarrow> (u32 \<times> bytes) list \<Rightarrow> (u32 \<times> bytes) list" where
  "store_skipped n [] keys = keys"
| "store_skipped n (mk # mks) keys =
     store_skipped (n + 1) mks (if length keys < 2000 then keys @ [(n, mk)] else keys)"

text \<open>The final loop over \<open>state.iteration..=message.iteration\<close>, by the number of iterations.\<close>

fun advance_state :: "ext \<Rightarrow> nat \<Rightarrow> sender_key_state \<Rightarrow> sender_key_state" where
  "advance_state X 0 s = s"
| "advance_state X (Suc n) s =
     advance_state X n (s\<lparr>gs_chain_key := hmac_derive X (gs_chain_key s) 2, gs_iteration := gs_iteration s + 1\<rparr>)"

definition group_decrypt :: "ext \<Rightarrow> sender_key_message \<Rightarrow> sender_key_state \<Rightarrow> sender_key_state \<times> bytes res" where
  "group_decrypt X m s =
     (case check_auth X s m of
        Inl e \<Rightarrow> (s, Inl e)
      | Inr _ \<Rightarrow>
          (case take_skipped (sm_iteration m) (skipped_message_keys s) of
             Some (mk, keys) \<Rightarrow>
               (s\<lparr>skipped_message_keys := keys\<rparr>,
                aead_decrypt X mk (sm_ciphertext m) (sm_group_id m))
           | None \<Rightarrow>
               (case derive_message_key X (sm_iteration m) s of
                  Inl e \<Rightarrow> (s, Inl e)
                | Inr (skipped, mk) \<Rightarrow>
                    (case aead_decrypt X mk (sm_ciphertext m) (sm_group_id m) of
                       Inl e \<Rightarrow> (s, Inl e)
                     | Inr plaintext \<Rightarrow>
                         (let s' = s\<lparr>skipped_message_keys := store_skipped (gs_iteration s) skipped (skipped_message_keys s)\<rparr>
                          in (advance_state X (Suc (unat (sm_iteration m - gs_iteration s))) s', Inr plaintext))))))"

end
