(* ===== verification/Sender_Key_Contract.thy ===== *)
theory Sender_Key_Contract
  imports Sender_Key
begin

text \<open>
  What sender keys promise: the three loops over the hash chain compute the same schedule, a
  member that follows the schedule decrypts messages in any order and each once, an honest
  sender's messages are readable, and authentication precedes everything else.
\<close>

section \<open>The hash chain\<close>

type_synonym group_chain = "bytes \<times> u32"

definition chain_step :: "ext \<Rightarrow> group_chain \<Rightarrow> group_chain" where
  "chain_step X c = (hmac_derive X (fst c) 2, snd c + 1)"

definition chain_of :: "sender_key_state \<Rightarrow> group_chain" where
  "chain_of s = (gs_chain_key s, gs_iteration s)"

interpretation gk: stepped_chain "chain_step X" "\<lambda>c. hmac_derive X (fst c) 1" "\<lambda>c. unat (snd c)" "2 ^ 32" for X
  by unfold_locales (simp add: chain_step_def unat_add_one)

lemma gk_sched: "gk.sched X (ck, n) i = hmac_derive X (forward_chain X (i - unat n) ck) 1"
proof -
  have "fst ((chain_step X ^^ k) (ck, n)) = forward_chain X k ck" for k
    by (induction k arbitrary: ck n) (simp_all add: funpow_Suc_right chain_step_def del: funpow.simps(2))
  then show ?thesis by (simp add: gk.sched_def)
qed

lemma upt_Suc_map: "[0..<Suc n] = 0 # map Suc [0..<n]"
  by (simp add: map_Suc_upt upt_conv_Cons)

lemma u32_not_max: "n \<noteq> - 1 \<Longrightarrow> unat (n :: u32) + 1 < 2 ^ 32"
proof -
  assume "n \<noteq> - 1"
  then have "unat n \<noteq> unat (- 1 :: u32)" by (metis unsigned_word_eqI)
  moreover have "unat (- 1 :: u32) = 2 ^ 32 - 1" by (simp add: unsigned_minus_1_eq_mask mask_eq_exp_minus_1)
  ultimately show ?thesis using u32_bound [of n] by linarith
qed

lemma derive_loop_view:
  "derive_loop X n ck = (map (\<lambda>j. hmac_derive X (forward_chain X j ck) 1) [0..<n], forward_chain X n ck)"
proof (induction n arbitrary: ck)
  case (Suc n)
  show ?case unfolding upt_Suc_map using Suc by (simp add: Let_def comp_def)
qed simp

lemma advance_state_view:
  "advance_state X n s = s\<lparr>gs_chain_key := forward_chain X n (gs_chain_key s), gs_iteration := gs_iteration s + of_nat n\<rparr>"
  by (induction n arbitrary: s) (simp_all add: algebra_simps)

lemma forward_chain_Suc: "forward_chain X (Suc n) ck = hmac_derive X (forward_chain X n ck) 2"
  by (induction n arbitrary: ck) simp_all

lemma advance_follows:
  assumes "gk.follows X K (chain_of s)" and "unat (gs_iteration s) + n < 2 ^ 32"
  shows "gk.follows X K (chain_of (advance_state X n s))"
  using assms
proof (induction n arbitrary: s)
  case (Suc n)
  let ?s = "s\<lparr>gs_chain_key := hmac_derive X (gs_chain_key s) 2, gs_iteration := gs_iteration s + 1\<rparr>"
  have lim: "Suc (unat (snd (chain_of s))) < 2 ^ 32" using Suc.prems(2) by (simp add: chain_of_def)
  then have u: "unat (gs_iteration ?s) = Suc (unat (gs_iteration s))" by (simp add: chain_of_def unat_add_one)
  have "chain_of ?s = chain_step X (chain_of s)" by (simp add: chain_of_def chain_step_def)
  then have "gk.follows X K (chain_of ?s)" using gk.follows_advance(1) [OF Suc.prems(1) lim] by simp
  then show ?case using Suc.IH [of ?s] u Suc.prems(2) by simp
qed simp

text \<open>The keys a schedule prescribes, as the loops compute them.\<close>

lemma follows_key:
  assumes "gk.follows X K (chain_of s)" and "unat (gs_iteration s) + j + 1 < 2 ^ 32"
  shows "hmac_derive X (forward_chain X j (gs_chain_key s)) 1 = K (unat (gs_iteration s) + j)"
  using gk.followsD [OF assms(1), of "unat (gs_iteration s) + j"] assms(2)
  by (simp add: chain_of_def gk_sched)

lemma derive_message_key_follows:
  assumes f: "gk.follows X K (chain_of s)" and "gs_iteration s \<le> n" and "n - gs_iteration s \<le> 2000" and "n \<noteq> - 1"
  shows "derive_message_key X n s = Inr (map K [unat (gs_iteration s)..<unat n], K (unat n))"
proof -
  let ?i = "unat (gs_iteration s)" and ?g = "unat (n - gs_iteration s)"
  have g: "?g = unat n - ?i" "?i \<le> unat n" using assms(2) by (simp_all add: unat_sub word_le_nat_alt)
  have lim: "unat n + 1 < 2 ^ 32" using u32_not_max [OF assms(4)] .
  have k: "hmac_derive X (forward_chain X j (gs_chain_key s)) 1 = K (?i + j)" if "j \<le> ?g" for j
    using follows_key [OF f, of j] that g lim by simp
  have "map (\<lambda>j. hmac_derive X (forward_chain X j (gs_chain_key s)) 1) [0..<?g] = map K [?i..<unat n]"
    using k g by (intro nth_equalityI) simp_all
  then show ?thesis
    using assms(2,3) k [of ?g] g by (simp add: derive_message_key_def derive_loop_view Let_def not_less)
qed

lemma store_skipped_view:
  "store_skipped n mks keys =
     keys @ take (2000 - length keys) (zip (map (\<lambda>j. n + of_nat j) [0..<length mks]) mks)"
proof (induction n mks keys rule: store_skipped.induct)
  case (2 n mk mks keys)
  have u: "[0..<length (mk # mks)] = 0 # map Suc [0..<length mks]" unfolding list.size by (simp only: add_0_right add_Suc_right upt_Suc_map)
  have z: "zip (map (\<lambda>j. n + of_nat j) [0..<length (mk # mks)]) (mk # mks) =
      (n, mk) # zip (map (\<lambda>j. (n + 1) + of_nat j) [0..<length mks]) mks"
    unfolding u by (simp add: comp_def algebra_simps)
  show ?case
    unfolding store_skipped.simps z 2 by (cases "length keys < 2000") (simp_all add: take_Cons')
qed simp

section \<open>Receivers on the schedule\<close>

lemma take_skipped_None: "take_skipped n keys = None \<longleftrightarrow> n \<notin> fst ` set keys"
  by (induction n keys rule: take_skipped.induct) auto

lemma take_skipped_Some:
  assumes "take_skipped n keys = Some (mk, rest)" and "distinct (map fst keys)"
  shows "(n, mk) \<in> set keys" "distinct (map fst rest)" "set rest = set keys - {(n, mk)}"
    "fst ` set rest = fst ` set keys - {n}" "length rest \<le> length keys"
proof -
  have "(n, mk) \<in> set keys \<and> distinct (map fst rest) \<and> set rest = set keys - {(n, mk)} \<and>
      fst ` set rest = fst ` set keys - {n} \<and> length rest \<le> length keys"
    using assms
  proof (induction keys arbitrary: rest)
    case (Cons k keys)
    obtain i x where k: "k = (i, x)" by (cases k)
    show ?case
    proof (cases "i = n")
      case True
      then show ?thesis using Cons.prems k by (auto simp: image_iff)
    next
      case False
      then obtain rest' where r: "take_skipped n keys = Some (mk, rest')" "rest = (i, x) # rest'"
        using Cons.prems(1) k by auto
      then show ?thesis using Cons.IH [OF r(1)] Cons.prems(2) k False by auto
    qed
  qed simp
  then show "(n, mk) \<in> set keys" "distinct (map fst rest)" "set rest = set keys - {(n, mk)}"
    "fst ` set rest = fst ` set keys - {n}" "length rest \<le> length keys" by blast+
qed

definition receiver_on :: "ext \<Rightarrow> (nat \<Rightarrow> bytes) \<Rightarrow> sender_key_state \<Rightarrow> bool" where
  "receiver_on X K s \<longleftrightarrow>
     gk.follows X K (chain_of s) \<and> distinct (map fst (skipped_message_keys s)) \<and>
     length (skipped_message_keys s) \<le> 2000 \<and>
     (\<forall>(i, mk) \<in> set (skipped_message_keys s). mk = K (unat i) \<and> i < gs_iteration s)"

definition group_spent :: "sender_key_state \<Rightarrow> u32 \<Rightarrow> bool" where
  "group_spent s i \<longleftrightarrow> i < gs_iteration s \<and> i \<notin> fst ` set (skipped_message_keys s)"

lemma receiver_onD:
  assumes "receiver_on X K s"
  shows "gk.follows X K (chain_of s)" "distinct (map fst (skipped_message_keys s))"
    "length (skipped_message_keys s) \<le> 2000"
    "(i, mk) \<in> set (skipped_message_keys s) \<Longrightarrow> mk = K (unat i)"
    "(i, mk) \<in> set (skipped_message_keys s) \<Longrightarrow> i < gs_iteration s"
  using assms by (auto simp: receiver_on_def)

lemma group_decrypt_cases:
  assumes "group_decrypt X m s = (s', r)"
  obtains (refused) e where "r = Inl e" "s' = s"
  | (stored) mk rest where "check_auth X s m = Inr ()" "take_skipped (sm_iteration m) (skipped_message_keys s) = Some (mk, rest)"
      "s' = s\<lparr>skipped_message_keys := rest\<rparr>" "r = aead_decrypt X mk (sm_ciphertext m) (sm_group_id m)"
  | (derived) skipped mk p where "check_auth X s m = Inr ()" "take_skipped (sm_iteration m) (skipped_message_keys s) = None"
      "derive_message_key X (sm_iteration m) s = Inr (skipped, mk)"
      "aead_decrypt X mk (sm_ciphertext m) (sm_group_id m) = Inr p" "r = Inr p"
      "s' = advance_state X (Suc (unat (sm_iteration m - gs_iteration s)))
              (s\<lparr>skipped_message_keys := store_skipped (gs_iteration s) skipped (skipped_message_keys s)\<rparr>)"
proof (cases "check_auth X s m")
  case (Inl e)
  then show ?thesis using assms by (intro refused [of e]) (simp_all add: group_decrypt_def)
next
  case (Inr u)
  show ?thesis
  proof (cases "take_skipped (sm_iteration m) (skipped_message_keys s)")
    case (Some t)
    then show ?thesis using assms Inr by (cases t) (intro stored, auto simp: group_decrypt_def)
  next
    case none: None
    show ?thesis
    proof (cases "derive_message_key X (sm_iteration m) s")
      case (Inl e)
      then show ?thesis using assms Inr none by (intro refused [of e]) (simp_all add: group_decrypt_def)
    next
      case d: (Inr t)
      obtain skipped mk where t: "t = (skipped, mk)" by (cases t)
      show ?thesis
      proof (cases "aead_decrypt X mk (sm_ciphertext m) (sm_group_id m)")
        case (Inl e)
        then show ?thesis using assms Inr none d t by (intro refused [of e]) (simp_all add: group_decrypt_def)
      next
        case p: (Inr p)
        then show ?thesis using assms Inr none d t by (intro derived [of skipped mk p]) (simp_all add: group_decrypt_def Let_def)
      qed
    qed
  qed
qed

text \<open>A stored key is used up.\<close>

lemma receiver_stored:
  assumes on: "receiver_on X K s" and t: "take_skipped n (skipped_message_keys s) = Some (mk, rest)"
  shows "receiver_on X K (s\<lparr>skipped_message_keys := rest\<rparr>)" and "mk = K (unat n)"
    and "\<not> group_spent s n" and "group_spent (s\<lparr>skipped_message_keys := rest\<rparr>) n"
    and "group_spent s i \<Longrightarrow> group_spent (s\<lparr>skipped_message_keys := rest\<rparr>) i"
proof -
  note r = receiver_onD [OF on] and t' = take_skipped_Some [OF t receiver_onD(2) [OF on]]
  show "receiver_on X K (s\<lparr>skipped_message_keys := rest\<rparr>)"
    using on t' by (auto simp: receiver_on_def chain_of_def)
  show "mk = K (unat n)" using r(4) t'(1) .
  show "\<not> group_spent s n" using t'(1) by (force simp: group_spent_def)
  show "group_spent (s\<lparr>skipped_message_keys := rest\<rparr>) n" using t'(4) r(5) [OF t'(1)] by (simp add: group_spent_def)
  show "group_spent s i \<Longrightarrow> group_spent (s\<lparr>skipped_message_keys := rest\<rparr>) i" using t'(4) by (auto simp: group_spent_def)
qed

text \<open>The keys that a jump ahead files.\<close>

lemma stored_ahead:
  fixes b n :: u32
  assumes "b \<le> n" and "x \<in> set (take j (zip (map (\<lambda>j. b + of_nat j) [0..<unat n - unat b]) (map K [unat b..<unat n])))"
  shows "\<exists>i. b \<le> i \<and> i < n \<and> x = (i, K (unat i))"
proof -
  let ?l = "unat n - unat b"
  from assms(2) obtain k where k: "k < ?l" "x = (b + of_nat k, K (unat b + k))"
    by (auto dest!: in_set_takeD simp: in_set_zip)
  have lt: "unat b + k < unat n" using k(1) by simp
  then have u: "unat (b + of_nat k) = unat b + k" using u32_bound [of n] by (simp add: unat_word_ariths unat_of_nat)
  then show ?thesis
    using k lt by (intro exI [of _ "b + of_nat k"]) (simp add: word_le_nat_alt word_less_nat_alt)
qed

lemma distinct_stored_ahead:
  fixes b n :: u32
  assumes "b \<le> n"
  shows "distinct (map fst (take j (zip (map (\<lambda>j. b + of_nat j) [0..<unat n - unat b]) (map K [unat b..<unat n]))))"
proof -
  have "inj_on (\<lambda>j. b + of_nat j) {..<unat n - unat b}"
  proof (rule inj_onI)
    fix j k assume jk: "j \<in> {..<unat n - unat b}" "k \<in> {..<unat n - unat b}" "b + of_nat j = b + of_nat k"
    then have "unat b + j < 2 ^ 32" "unat b + k < 2 ^ 32" using u32_bound [of n] by auto
    then have "unat (of_nat j :: u32) = j" "unat (of_nat k :: u32) = k" by (simp_all add: unat_of_nat)
    moreover have "(of_nat j :: u32) = of_nat k" using jk(3) by simp
    ultimately show "j = k" by metis
  qed
  then show ?thesis
    by (auto simp: take_map [symmetric] distinct_map atLeast0LessThan lessThan_def intro!: distinct_take
        intro: inj_on_subset simp flip: atLeast_upt)
qed

text \<open>A jump ahead: the chain moves past the message, the keys in between are filed.\<close>

lemma receiver_derived:
  assumes on: "receiver_on X K s" and "n \<noteq> - 1" and none: "take_skipped n (skipped_message_keys s) = None"
    and d: "derive_message_key X n s = Inr (skipped, mk)"
  defines "s' \<equiv> advance_state X (Suc (unat (n - gs_iteration s)))
      (s\<lparr>skipped_message_keys := store_skipped (gs_iteration s) skipped (skipped_message_keys s)\<rparr>)"
  shows "receiver_on X K s'" and "mk = K (unat n)" and "\<not> group_spent s n" and "group_spent s' n"
    and "group_spent s i \<Longrightarrow> group_spent s' i"
proof -
  note r = receiver_onD [OF on]
  have le: "gs_iteration s \<le> n" "n - gs_iteration s \<le> 2000"
    using d by (auto simp: derive_message_key_def Let_def not_less split: if_splits)
  have dk: "skipped = map K [unat (gs_iteration s)..<unat n]" "mk = K (unat n)"
    using derive_message_key_follows [OF r(1) le assms(2)] d by simp_all
  show "mk = K (unat n)" by (rule dk(2))
  let ?g = "unat (n - gs_iteration s)"
  have g: "unat (gs_iteration s) + ?g = unat n" "?g = unat n - unat (gs_iteration s)"
    using le(1) by (simp_all add: unat_sub word_le_nat_alt)
  have lim: "unat (gs_iteration s) + Suc ?g < 2 ^ 32" using u32_not_max [OF assms(2)] g by simp
  define N where "N = take (2000 - length (skipped_message_keys s))
     (zip (map (\<lambda>j. gs_iteration s + of_nat j) [0..<unat n - unat (gs_iteration s)]) (map K [unat (gs_iteration s)..<unat n]))"
  have sk: "skipped_message_keys s' = skipped_message_keys s @ N"
    by (simp add: s'_def advance_state_view store_skipped_view dk(1) N_def)
  have it: "gs_iteration s' = n + 1"
    by (simp add: s'_def advance_state_view)
  have it_nat: "unat (gs_iteration s') = Suc (unat n)" unfolding it using u32_not_max [OF assms(2)] by (simp add: unat_add_one)
  have new: "\<exists>i. gs_iteration s \<le> i \<and> i < n \<and> x = (i, K (unat i))" if "x \<in> set N" for x
    using stored_ahead [OF le(1) that [unfolded N_def]] .
  have old: "fst x < gs_iteration s \<and> snd x = K (unat (fst x))" if "x \<in> set (skipped_message_keys s)" for x
    using r(4,5) [of "fst x" "snd x"] that unfolding prod.collapse by blast
  have "gk.follows X K (chain_of s')"
    unfolding s'_def using lim r(1) by (intro advance_follows) (simp_all add: chain_of_def)
  moreover have "distinct (map fst (skipped_message_keys s'))"
  proof -
    have "fst ` set (skipped_message_keys s) \<inter> fst ` set N = {}" using old new by fastforce
    then show ?thesis unfolding sk using r(2) distinct_stored_ahead [OF le(1), of "2000 - length (skipped_message_keys s)" K, folded N_def] by simp
  qed
  moreover have "length (skipped_message_keys s') \<le> 2000" unfolding sk N_def using r(3) by simp
  moreover have "snd x = K (unat (fst x)) \<and> fst x < gs_iteration s'" if "x \<in> set (skipped_message_keys s')" for x
  proof -
    have "fst x \<le> n \<and> snd x = K (unat (fst x))"
      using that old new le(1) unfolding sk by (fastforce dest: order.strict_implies_order)
    then show ?thesis using it_nat by (simp add: word_less_nat_alt word_le_nat_alt)
  qed
  ultimately show "receiver_on X K s'" by (auto simp: receiver_on_def)
  show "\<not> group_spent s n" using le(1) by (simp add: group_spent_def)
  have "fst x < n" "gs_iteration s \<le> fst x" if "x \<in> set N" for x using new [OF that] by auto
  then have away: "n \<notin> fst ` set N" "j < gs_iteration s \<Longrightarrow> j \<notin> fst ` set N" for j
    by (metis imageE order.irrefl, metis imageE not_le)
  have "n \<notin> fst ` set (skipped_message_keys s')"
    unfolding sk set_append image_Un using none away(1) by (simp only: take_skipped_None Un_iff simp_thms)
  then show "group_spent s' n" using it_nat by (simp add: group_spent_def word_less_nat_alt)
  show "group_spent s' i" if "group_spent s i"
  proof -
    have i: "i < gs_iteration s" "i \<notin> fst ` set (skipped_message_keys s)" using that by (simp_all add: group_spent_def)
    have "i \<notin> fst ` set N" using away(2) [OF i(1)] .
    moreover have "i < gs_iteration s'" using i(1) le(1) it_nat by (simp add: word_less_nat_alt word_le_nat_alt)
    ultimately show ?thesis using i(2) by (simp add: group_spent_def sk image_Un)
  qed
qed

text \<open>One delivery, whatever the message.\<close>

lemma group_decrypt_step:
  assumes on: "receiver_on X K s" and max: "sm_iteration m \<noteq> - 1" and d: "group_decrypt X m s = (s', r)"
  shows "receiver_on X K s'" and "group_spent s i \<Longrightarrow> group_spent s' i"
    and "r = Inr p \<Longrightarrow> aead_decrypt X (K (unat (sm_iteration m))) (sm_ciphertext m) (sm_group_id m) = Inr p \<and>
           \<not> group_spent s (sm_iteration m) \<and> group_spent s' (sm_iteration m)"
proof -
  have "receiver_on X K s' \<and> (group_spent s i \<longrightarrow> group_spent s' i) \<and>
    (r = Inr p \<longrightarrow> aead_decrypt X (K (unat (sm_iteration m))) (sm_ciphertext m) (sm_group_id m) = Inr p \<and>
           \<not> group_spent s (sm_iteration m) \<and> group_spent s' (sm_iteration m))"
    using d
  proof (cases rule: group_decrypt_cases)
    case (refused e)
    then show ?thesis using on by simp
  next
    case (stored mk rest)
    then show ?thesis using receiver_stored [OF on stored(2)] by simp
  next
    case (derived skipped mk q)
    then show ?thesis using receiver_derived [OF on max derived(2,3)] by simp
  qed
  then show "receiver_on X K s'" "group_spent s i \<Longrightarrow> group_spent s' i"
    "r = Inr p \<Longrightarrow> aead_decrypt X (K (unat (sm_iteration m))) (sm_ciphertext m) (sm_group_id m) = Inr p \<and>
           \<not> group_spent s (sm_iteration m) \<and> group_spent s' (sm_iteration m)" by blast+
qed

section \<open>The receiver interface\<close>

text \<open>
  Delivery of one message, for the iterations below the last value of the counter, past which
  the chain cannot advance.
\<close>

definition group_recv :: "ext \<Rightarrow> sender_key_state \<Rightarrow> sender_key_message \<Rightarrow> sender_key_state \<times> bytes option" where
  "group_recv X s m =
     (if sm_iteration m = - 1 then (s, None)
      else case group_decrypt X m s of (s', Inl _) \<Rightarrow> (s', None) | (s', Inr p) \<Rightarrow> (s', Some p))"

definition group_good :: "ext \<Rightarrow> (sender_key_message \<Rightarrow> bytes) \<Rightarrow> sender_key_state \<Rightarrow> bool" where
  "group_good X P s \<longleftrightarrow>
     (\<exists>K. receiver_on X K s \<and>
        (\<forall>m p. aead_decrypt X (K (unat (sm_iteration m))) (sm_ciphertext m) (sm_group_id m) = Inr p \<longrightarrow> P m = p))"

lemma group_recv_step:
  assumes "receiver_on X K s" and "group_recv X s m = (s', r)"
  shows "receiver_on X K s'" and "group_spent s i \<Longrightarrow> group_spent s' i"
    and "r = Some p \<Longrightarrow> aead_decrypt X (K (unat (sm_iteration m))) (sm_ciphertext m) (sm_group_id m) = Inr p \<and>
           \<not> group_spent s (sm_iteration m) \<and> group_spent s' (sm_iteration m)"
proof -
  obtain t q where d: "group_decrypt X m s = (t, q)" by (metis surj_pair)
  note st = group_decrypt_step [OF assms(1) _ d]
  show "receiver_on X K s'" "group_spent s i \<Longrightarrow> group_spent s' i"
    using st(1,2) assms d by (auto simp: group_recv_def split: if_splits sum.splits)
  show "r = Some p \<Longrightarrow> aead_decrypt X (K (unat (sm_iteration m))) (sm_ciphertext m) (sm_group_id m) = Inr p \<and>
           \<not> group_spent s (sm_iteration m) \<and> group_spent s' (sm_iteration m)"
    using st(3) assms(2) d by (auto simp: group_recv_def split: if_splits sum.splits)
qed

interpretation group_receiver: key_receiver "group_recv X" sm_iteration "group_good X" group_spent for X
proof
  fix P s m r
  assume g: "group_good X P s"
  then obtain K where K: "receiver_on X K s"
    "\<And>m p. aead_decrypt X (K (unat (sm_iteration m))) (sm_ciphertext m) (sm_group_id m) = Inr p \<Longrightarrow> P m = p"
    unfolding group_good_def by blast
  note st = group_recv_step [OF K(1) surjective_pairing]
  show "group_good X P (fst (group_recv X s m))" unfolding group_good_def using st(1) K(2) by blast
  show "group_spent s i \<Longrightarrow> group_spent (fst (group_recv X s m)) i" for i using st(2) .
  assume "snd (group_recv X s m) = Some r"
  from st(3) [OF this] K(2) show "r = P m" "\<not> group_spent s (sm_iteration m)"
    "group_spent (fst (group_recv X s m)) (sm_iteration m)" by auto
qed

section \<open>Honest senders\<close>

inductive group_sends ::
  "ext \<Rightarrow> bytes \<Rightarrow> sender_key_state \<Rightarrow> nat \<Rightarrow> sender_key_state \<Rightarrow> (sender_key_message \<times> bytes) set \<Rightarrow> bool"
  for X gid s0 where
  sends_none: "group_sends X gid s0 0 s0 {}"
| sends_next: "group_sends X gid s0 n s sent \<Longrightarrow> nonce24 nonce \<Longrightarrow>
     group_encrypt X nonce gid plaintext s = (s', Inr m) \<Longrightarrow>
     group_sends X gid s0 (Suc n) s' (insert (m, plaintext) sent)"

text \<open>A message on the schedule, sealed and signed by the holder of \<open>seed\<close>.\<close>

definition sent_on :: "ext \<Rightarrow> (nat \<Rightarrow> bytes) \<Rightarrow> bytes \<Rightarrow> sender_key_message \<Rightarrow> bytes \<Rightarrow> bool" where
  "sent_on X K seed m p \<longleftrightarrow>
     aead_decrypt X (K (unat (sm_iteration m))) (sm_ciphertext m) (sm_group_id m) = Inr p \<and> sm_iteration m \<noteq> - 1 \<and>
     sm_auth m = Signature (sign X (IdentityKeyPair seed)
       (authenticated_data (sm_group_id m) (sm_iteration m) (sm_ciphertext m)))"

lemma group_encrypt_view:
  assumes "group_encrypt X nonce gid plaintext s = (s', Inr m)" and "auth_mode s = Signed" and "signing_private s = Some seed"
  shows "\<exists>ct. aead_encrypt X (hmac_derive X (gs_chain_key s) 1) nonce plaintext gid = Inr ct \<and>
     s' = s\<lparr>gs_chain_key := hmac_derive X (gs_chain_key s) 2, gs_iteration := gs_iteration s + 1\<rparr> \<and>
     m = \<lparr>sm_group_id = gid, sm_iteration = gs_iteration s, sm_ciphertext = ct,
          sm_auth = Signature (sign X (IdentityKeyPair seed) (authenticated_data gid (gs_iteration s) ct))\<rparr>"
  using assms by (auto simp: group_encrypt_def Let_def identity_from_seed_def split: if_splits sum.splits)

definition sender_on :: "ext \<Rightarrow> (nat \<Rightarrow> bytes) \<Rightarrow> bytes \<Rightarrow> sender_key_state \<Rightarrow> bool" where
  "sender_on X K seed s \<longleftrightarrow> gk.follows X K (chain_of s) \<and> is_sender s \<and> auth_mode s = Signed \<and>
     signing_private s = Some seed \<and> signing_public s = Some (ed_public X seed)"

lemma group_sends_on:
  assumes "xchacha_ok X" and "sender_on X K seed s0"
  shows "group_sends X gid s0 n s sent \<Longrightarrow> unat (gs_iteration s0) + n < 2 ^ 32 \<Longrightarrow>
    sender_on X K seed s \<and> unat (gs_iteration s) = unat (gs_iteration s0) + n \<and> (\<forall>(m, p) \<in> sent. sent_on X K seed m p)"
proof (induction rule: group_sends.induct)
  case sends_none
  then show ?case using assms(2) by simp
next
  case (sends_next n s sent nonce plaintext s' m)
  have on: "sender_on X K seed s" and it: "unat (gs_iteration s) = unat (gs_iteration s0) + n"
    and old: "\<forall>(m, p) \<in> sent. sent_on X K seed m p"
    using sends_next.IH sends_next.prems by auto
  have lim: "Suc (unat (snd (chain_of s))) < 2 ^ 32" using it sends_next.prems by (simp add: chain_of_def)
  note f = gk.follows_advance [of X K "chain_of s", OF _ lim]
  obtain ct where v: "aead_encrypt X (hmac_derive X (gs_chain_key s) 1) nonce plaintext gid = Inr ct"
     "s' = s\<lparr>gs_chain_key := hmac_derive X (gs_chain_key s) 2, gs_iteration := gs_iteration s + 1\<rparr>"
     "m = \<lparr>sm_group_id = gid, sm_iteration = gs_iteration s, sm_ciphertext = ct,
          sm_auth = Signature (sign X (IdentityKeyPair seed) (authenticated_data gid (gs_iteration s) ct))\<rparr>"
    using group_encrypt_view [OF sends_next.hyps(3)] on by (auto simp: sender_on_def)
  have "chain_of s' = chain_step X (chain_of s)" by (simp add: v(2) chain_of_def chain_step_def)
  then have "sender_on X K seed s'" using on f(1) v(2) by (simp add: sender_on_def)
  moreover have "unat (gs_iteration s') = unat (gs_iteration s0) + Suc n"
    using v(2) lim it by (simp add: chain_of_def unat_add_one)
  moreover have "sent_on X K seed m plaintext"
  proof -
    have "hmac_derive X (gs_chain_key s) 1 = K (unat (gs_iteration s))"
      using follows_key [of X K s 0] on lim by (simp add: sender_on_def chain_of_def)
    moreover have "gs_iteration s \<noteq> - 1"
    proof
      assume "gs_iteration s = - 1"
      then have "unat (gs_iteration s) = 2 ^ 32 - 1" by (simp add: unsigned_minus_1_eq_mask mask_eq_exp_minus_1)
      then show False using lim by (simp add: chain_of_def)
    qed
    ultimately show ?thesis
      using aead_decrypt_encrypt [OF assms(1) sends_next.hyps(2) v(1)] v(3) by (simp add: sent_on_def)
  qed
  ultimately show ?case using old by auto
qed

text \<open>Members.\<close>

definition member_on :: "ext \<Rightarrow> (nat \<Rightarrow> bytes) \<Rightarrow> bytes \<Rightarrow> sender_key_state \<Rightarrow> bool" where
  "member_on X K seed r \<longleftrightarrow> receiver_on X K r \<and> auth_mode r = Signed \<and> signing_public r = Some (ed_public X seed)"

lemma member_joins:
  assumes "sender_on X K seed s"
  shows "member_on X K seed (from_distribution (distribution_message_for_existing s gid))"
  using assms by (simp add: member_on_def sender_on_def receiver_on_def from_distribution_def
      distribution_message_for_existing_def chain_of_def)

lemma group_decrypt_auth_kept:
  assumes "group_decrypt X m r = (r', q)"
  shows "auth_mode r' = auth_mode r" "signing_public r' = signing_public r"
  using assms by (cases rule: group_decrypt_cases; simp add: advance_state_view)+

lemma member_step:
  assumes "member_on X K seed r" and "sm_iteration m \<noteq> - 1"
  shows "member_on X K seed (fst (group_decrypt X m r))"
proof -
  obtain r' q where d: "group_decrypt X m r = (r', q)" by (metis surj_pair)
  then show ?thesis
    using assms group_decrypt_step(1) [OF _ assms(2) d] group_decrypt_auth_kept [OF d] by (simp add: member_on_def)
qed

lemma check_auth_sent:
  assumes "ed25519_ok X" and "member_on X K seed r" and "sent_on X K seed m p"
  shows "check_auth X r m = Inr ()"
  using assms unfolding ed25519_ok_def
  by (simp add: check_auth_def member_on_def sent_on_def identity_from_bytes_def verify_def sign_def Let_def)

lemma member_decrypts:
  assumes X: "ed25519_ok X" and on: "member_on X K seed r" and m: "sent_on X K seed m p"
    and "\<not> group_spent r (sm_iteration m)" and "sm_iteration m - gs_iteration r \<le> 2000 \<or> sm_iteration m < gs_iteration r"
  shows "\<exists>r'. group_decrypt X m r = (r', Inr p)"
proof -
  let ?n = "sm_iteration m"
  have r: "receiver_on X K r" using on by (simp add: member_on_def)
  have a: "check_auth X r m = Inr ()" using check_auth_sent [OF X on m] .
  have p: "aead_decrypt X (K (unat ?n)) (sm_ciphertext m) (sm_group_id m) = Inr p" "?n \<noteq> - 1"
    using m by (simp_all add: sent_on_def)
  show ?thesis
  proof (cases "take_skipped ?n (skipped_message_keys r)")
    case (Some t)
    then obtain mk rest where t: "take_skipped ?n (skipped_message_keys r) = Some (mk, rest)" by (cases t) auto
    then show ?thesis using receiver_stored(2) [OF r t] a p by (simp add: group_decrypt_def)
  next
    case None
    then have "\<not> ?n < gs_iteration r" using assms(4) by (simp add: group_spent_def take_skipped_None)
    then have "derive_message_key X ?n r = Inr (map K [unat (gs_iteration r)..<unat ?n], K (unat ?n))"
      using derive_message_key_follows [OF receiver_onD(1) [OF r] _ _ p(2)] assms(5) by simp
    then show ?thesis using None a p by (simp add: group_decrypt_def Let_def)
  qed
qed

text \<open>The messages of a delivery sequence that decrypt, and the state after it.\<close>

primrec group_deliver :: "ext \<Rightarrow> sender_key_state \<Rightarrow> sender_key_message list \<Rightarrow> (sender_key_message \<times> bytes) list" where
  "group_deliver X r [] = []"
| "group_deliver X r (m # ms) =
     (case group_decrypt X m r of
        (r', Inl _) \<Rightarrow> group_deliver X r' ms
      | (r', Inr p) \<Rightarrow> (m, p) # group_deliver X r' ms)"

definition group_after :: "ext \<Rightarrow> sender_key_message list \<Rightarrow> sender_key_state \<Rightarrow> sender_key_state" where
  "group_after X ms r = fold (\<lambda>m r. fst (group_decrypt X m r)) ms r"

lemma group_deliver_recv:
  "\<forall>m \<in> set ms. sm_iteration m \<noteq> - 1 \<Longrightarrow> group_deliver X r ms = group_receiver.deliver X r ms"
  by (induction ms arbitrary: r) (simp_all add: group_recv_def Let_def split: prod.splits sum.splits)

lemma member_after:
  "member_on X K seed r \<Longrightarrow> \<forall>m \<in> set ms. sm_iteration m \<noteq> - 1 \<Longrightarrow> member_on X K seed (group_after X ms r)"
  by (induction ms arbitrary: r) (simp_all add: group_after_def member_step)

lemma group_deliver_from: "(m, p) \<in> set (group_deliver X r ms) \<Longrightarrow> m \<in> set ms"
proof (induction ms arbitrary: r)
  case (Cons a ms)
  obtain r' q where d: "group_decrypt X a r = (r', q)" by (metis surj_pair)
  show ?case using Cons.prems Cons.IH [of r'] d by (cases q) auto
qed simp

lemma group_deliver_sound:
  assumes "receiver_on X K r" and "\<forall>m \<in> set ms. sm_iteration m \<noteq> - 1" and "(m, p) \<in> set (group_deliver X r ms)"
  shows "aead_decrypt X (K (unat (sm_iteration m))) (sm_ciphertext m) (sm_group_id m) = Inr p"
  using assms
proof (induction ms arbitrary: r)
  case (Cons a ms)
  obtain r' q where d: "group_decrypt X a r = (r', q)" by (metis surj_pair)
  have a: "sm_iteration a \<noteq> - 1" using Cons.prems(2) by simp
  note st = group_decrypt_step [OF Cons.prems(1) a d]
  show ?case
    using Cons.IH [OF st(1)] st(3) Cons.prems(2,3) d by (cases q) auto
qed simp

section \<open>Properties\<close>

text \<open>
  C12. Group messages in any order, once each. A member joins with the sender's chain at any
  point; the network delivers what the sender signed, before and after, in any order and any
  number of times. Everything the member decrypts is exactly what was encrypted, nothing is
  decrypted twice, and nothing sent before it joined is readable to it.
\<close>

theorem group_any_order_once:
  assumes "xchacha_ok X" and "create_sender_key_distribution_message X ck seed gid Signed = (s0, dist)"
    and "group_sends X gid s0 j sj before" and "group_sends X gid sj n s sent" and "j + n < 2 ^ 32"
    and "set ms \<subseteq> fst ` (before \<union> sent)"
  shows "let accepted = group_deliver X (from_distribution (distribution_message_for_existing sj gid)) ms
         in (\<forall>(m, p) \<in> set accepted. (m, p) \<in> before \<union> sent \<and> gs_iteration sj \<le> sm_iteration m) \<and>
            distinct (map (sm_iteration \<circ> fst) accepted)"
proof -
  let ?r = "from_distribution (distribution_message_for_existing sj gid)"
  define K where "K = gk.sched X (chain_of s0)"
  have s0: "sender_on X K seed s0" "unat (gs_iteration s0) = 0"
    using assms(2) gk.follows_self [of X "chain_of s0"]
    by (auto simp: create_sender_key_distribution_message_def sender_on_def K_def identity_generate_def public_key_def)
  have jl: "unat (gs_iteration s0) + j < 2 ^ 32" using s0(2) assms(5) by simp
  note sj = group_sends_on [OF assms(1) s0(1) assms(3) jl]
  have nl: "unat (gs_iteration sj) + n < 2 ^ 32" using sj s0(2) assms(5) by simp
  note s = group_sends_on [OF assms(1) conjunct1 [OF sj] assms(4) nl]
  have sent: "sent_on X K seed m p" if "(m, p) \<in> before \<union> sent" for m p using sj s that by blast
  have nomax: "\<forall>m \<in> set ms. sm_iteration m \<noteq> - 1" using sent assms(6) by (fastforce simp: sent_on_def)
  have r: "receiver_on X K ?r" using member_joins [OF conjunct1 [OF sj]] by (simp add: member_on_def)
  then have good: "group_good X (\<lambda>m. projr (aead_decrypt X (K (unat (sm_iteration m))) (sm_ciphertext m) (sm_group_id m))) ?r"
    by (auto simp: group_good_def)
  note dl = group_deliver_recv [OF nomax, of X ?r]
  have once: "distinct (map (sm_iteration \<circ> fst) (group_deliver X ?r ms))"
    unfolding dl by (rule group_receiver.deliver_once [OF good])
  have "(m, p) \<in> before \<union> sent \<and> gs_iteration sj \<le> sm_iteration m" if a: "(m, p) \<in> set (group_deliver X ?r ms)" for m p
  proof
    obtain p' where p': "(m, p') \<in> before \<union> sent" using group_deliver_from [OF a] subsetD [OF assms(6), of m] by (metis imageE prod.collapse)
    then show "(m, p) \<in> before \<union> sent"
      using group_deliver_sound [OF r nomax a] sent [OF p'] by (simp add: sent_on_def)
    have "gs_iteration ?r = gs_iteration sj" "skipped_message_keys ?r = []"
      by (simp_all add: from_distribution_def distribution_message_for_existing_def)
    then show "gs_iteration sj \<le> sm_iteration m"
      using group_receiver.deliver_not_spent [OF good _ a [unfolded dl], of "sm_iteration m"]
      by (simp add: group_spent_def) (meson not_less)
  qed
  with once show ?thesis by (auto simp: Let_def)
qed

definition demo_group :: "sender_key_state \<times> sender_key_distribution_message" where
  "demo_group = create_sender_key_distribution_message demo_ext (zeros 32) (replicate 32 5) [9] Signed"

lemma demo_group_send:
  "\<exists>s' m. group_sends demo_ext [9] (fst demo_group) 1 s' {(m, [1, 2])} \<and> sm_iteration m = 0"
proof -
  obtain s' r where e: "group_encrypt demo_ext (zeros 24) [9] [1, 2] (fst demo_group) = (s', r)" by (metis surj_pair)
  obtain ct where ct: "aead_encrypt demo_ext (hmac_derive demo_ext (zeros 32) 1) (zeros 24) [1, 2] [9] = Inr ct"
    using aead_encrypt_total [OF demo_xchacha] by blast
  then obtain m where "r = Inr m" "sm_iteration m = 0"
    using e by (auto simp: group_encrypt_def demo_group_def create_sender_key_distribution_message_def Let_def)
  moreover have "nonce24 (zeros 24)" by (simp add: nonce24_def NONCE_SIZE_def)
  ultimately show ?thesis using sends_next [OF sends_none, of "zeros 24" demo_ext "[9]" "[1, 2]" "fst demo_group"] e by auto
qed

theorem group_any_order_once_witness:
  "\<exists>s' m. group_sends demo_ext [9] (fst demo_group) 1 s' {(m, [1, 2])} \<and>
     distinct (map (sm_iteration \<circ> fst) (group_deliver demo_ext (from_distribution (distribution_message_for_existing (fst demo_group) [9])) [m, m]))"
proof -
  obtain s' m where s: "group_sends demo_ext [9] (fst demo_group) 1 s' {(m, [1, 2])}" using demo_group_send by blast
  have c: "create_sender_key_distribution_message demo_ext (zeros 32) (replicate 32 5) [9] Signed = (fst demo_group, snd demo_group)"
    by (simp add: demo_group_def)
  have l: "0 + 1 < (2 :: nat) ^ 32" "set [m, m] \<subseteq> fst ` ({} \<union> {(m, [1, 2])})" by simp_all
  from group_any_order_once [OF demo_xchacha c sends_none s l] s show ?thesis unfolding Let_def by blast
qed



text \<open>
  C39. Authentication comes first. A message that fails it changes nothing; an HMAC tag offered
  to a signed chain, or a signature to an HMAC chain, is refused as an invalid signature; and
  whatever decrypts on a signed chain carries a signature that verifies under the key the
  sender distributed, over the group, the iteration and the ciphertext.
\<close>

theorem group_authenticated:
  "(\<forall>e. check_auth X s m = Inl e \<longrightarrow> group_decrypt X m s = (s, Inl e)) \<and>
   (auth_mode s = Signed \<and> sm_auth m = HmacTag tag \<or> auth_mode s = Hmac \<and> sm_auth m = Signature sig \<longrightarrow>
      group_decrypt X m s = (s, Inl InvalidSignature)) \<and>
   (auth_mode s = Signed \<and> is_ok (snd (group_decrypt X m s)) \<longrightarrow>
      (\<exists>pk sig. signing_public s = Some pk \<and> sm_auth m = Signature sig \<and>
         ed_verify X pk (sm_group_id m @ u32_be (sm_iteration m) @ sm_ciphertext m) sig))"
proof (intro conjI)
  show "\<forall>e. check_auth X s m = Inl e \<longrightarrow> group_decrypt X m s = (s, Inl e)" by (simp add: group_decrypt_def)
  show "auth_mode s = Signed \<and> sm_auth m = HmacTag tag \<or> auth_mode s = Hmac \<and> sm_auth m = Signature sig \<longrightarrow>
      group_decrypt X m s = (s, Inl InvalidSignature)"
    by (auto simp: group_decrypt_def check_auth_def Let_def)
  have "check_auth X s m = Inr ()" if "is_ok (snd (group_decrypt X m s))"
    using that by (cases "check_auth X s m") (auto simp: group_decrypt_def)
  then show "auth_mode s = Signed \<and> is_ok (snd (group_decrypt X m s)) \<longrightarrow>
      (\<exists>pk sig. signing_public s = Some pk \<and> sm_auth m = Signature sig \<and>
         ed_verify X pk (sm_group_id m @ u32_be (sm_iteration m) @ sm_ciphertext m) sig)"
    by (auto simp: check_auth_def authenticated_data_def identity_from_bytes_def verify_def Let_def
        split: message_auth.splits option.splits if_splits)
qed

theorem group_authenticated_witness:
  "group_decrypt demo_ext \<lparr>sm_group_id = [9], sm_iteration = 0, sm_ciphertext = [], sm_auth = HmacTag []\<rparr> (fst demo_group)
     = (fst demo_group, Inl InvalidSignature)"
  using group_authenticated [of demo_ext "fst demo_group" "\<lparr>sm_group_id = [9], sm_iteration = 0, sm_ciphertext = [], sm_auth = HmacTag []\<rparr>" "[]" "[]"]
  by (simp add: demo_group_def create_sender_key_distribution_message_def Let_def)

text \<open>
  One schedule, three loops. The key that \<open>derive_message_key\<close> finds for an iteration, the
  keys it skips, the chain key that \<open>verify_hmac\<close> steps to and the state that \<open>group_decrypt\<close>
  advances to are those of stepping the chain one message at a time, as \<open>group_encrypt\<close> does.
\<close>

theorem group_loops_agree:
  assumes "gs_iteration s \<le> n" and "n - gs_iteration s \<le> 2000"
  shows "derive_message_key X n s =
      Inr (map (\<lambda>j. hmac_derive X (gs_chain_key (advance_state X j s)) 1) [0..<unat (n - gs_iteration s)],
           hmac_derive X (gs_chain_key (advance_state X (unat (n - gs_iteration s)) s)) 1) \<and>
    forward_chain X j (gs_chain_key s) = ((\<lambda>ck. hmac_derive X ck 2) ^^ j) (gs_chain_key s) \<and>
    gs_chain_key (advance_state X j s) = forward_chain X j (gs_chain_key s)"
proof -
  have "forward_chain X j ck = ((\<lambda>ck. hmac_derive X ck 2) ^^ j) ck" for ck
    by (induction j arbitrary: ck) (simp_all add: funpow_Suc_right del: funpow.simps(2))
  then show ?thesis
    using assms by (simp add: derive_message_key_def derive_loop_view advance_state_view Let_def not_less)
qed

theorem group_loops_agree_witness:
  "derive_message_key demo_ext 1 (fst demo_group) =
     Inr ([hmac_derive demo_ext (zeros 32) 1], hmac_derive demo_ext (hmac_derive demo_ext (zeros 32) 2) 1)"
  using group_loops_agree [of "fst demo_group" 1 demo_ext 0]
  by (simp add: demo_group_def create_sender_key_distribution_message_def Let_def)

text \<open>
  Voice chains are strictly in order. On an HMAC chain a message below the chain's
  iteration is refused as a duplicate, also when its key was filed as skipped.
\<close>

theorem group_hmac_in_order:
  assumes "auth_mode s = Hmac" and "sm_auth m = HmacTag tag" and "sm_iteration m < gs_iteration s"
  shows "group_decrypt X m s = (s, Inl DuplicateMessage)"
proof -
  have "sm_iteration m \<noteq> gs_iteration s" "\<not> gs_iteration s < sm_iteration m" using assms(3) by auto
  then have "verify_hmac X s (sm_iteration m) d tag = Inl DuplicateMessage" for d by (simp add: verify_hmac_def Let_def)
  then show ?thesis using assms(1,2) by (simp add: group_decrypt_def check_auth_def Let_def)
qed

theorem group_hmac_in_order_witness:
  "let s = \<lparr>gs_chain_key = zeros 32, gs_iteration = 2, is_sender = False, auth_mode = Hmac, signing_public = None,
            signing_private = None, skipped_message_keys = [(0, zeros 32), (1, zeros 32)]\<rparr>
   in group_decrypt demo_ext \<lparr>sm_group_id = [9], sm_iteration = 1, sm_ciphertext = [], sm_auth = HmacTag []\<rparr> s
        = (s, Inl DuplicateMessage)"
  unfolding Let_def by (rule group_hmac_in_order) simp_all

end
