(* ===== verification/Certificate.thy ===== *)
theory Certificate
  imports Keys
begin

text \<open>
  \<open>protocol/sealed_sender/certificate.rs\<close>: the server's self-signed certificate and the sender
  certificates it issues. A signing key is its 32-byte seed, a verifying key the bytes of a
  valid Ed25519 point.
\<close>

record server_certificate =
  sc_key_id :: server_key_id
  sc_public_key :: signing_public_key
  sc_signature :: bytes

record sender_certificate =
  ct_sender_uuid :: sender_uuid
  ct_sender_device_id :: device_id
  ct_identity_key :: identity_public_key
  ct_expiration :: timestamp
  ct_server_certificate :: server_certificate
  ct_server_signature :: bytes

definition verify_ed25519 :: "ext \<Rightarrow> bytes \<Rightarrow> bytes \<Rightarrow> bytes \<Rightarrow> unit res" where
  "verify_ed25519 X key data signature =
     (if length signature \<noteq> 64 then Inl InvalidSignature
      else if ed_verify X key data signature then Inr ()
      else Inl (InvalidCertificate ''signature verification failed''))"

text \<open>The bytes under the self-signature.\<close>

definition server_signable :: "server_key_id \<Rightarrow> signing_public_key \<Rightarrow> bytes" where
  "server_signable key_id pk = u32_be (server_key_id_raw key_id) @ signing_public_key_bytes pk"

definition server_certificate_new :: "ext \<Rightarrow> server_key_id \<Rightarrow> bytes \<Rightarrow> server_certificate" where
  "server_certificate_new X key_id signing_key =
     (let pk = SigningPublicKey (ed_public X signing_key);
          data = server_signable key_id pk
      in \<lparr>sc_key_id = key_id, sc_public_key = pk, sc_signature = ed_sign X signing_key data\<rparr>)"

definition verify_self_signed :: "ext \<Rightarrow> server_certificate \<Rightarrow> unit res" where
  "verify_self_signed X c =
     (let vk = signing_public_key_bytes (sc_public_key c)
      in if \<not> ed_point X vk then Inl (InvalidCertificate ''invalid server public key'')
         else verify_ed25519 X vk (server_signable (sc_key_id c) (sc_public_key c)) (sc_signature c))"

definition signable_data :: "sender_uuid \<Rightarrow> device_id \<Rightarrow> identity_public_key \<Rightarrow> timestamp \<Rightarrow> bytes" where
  "signable_data uuid device identity expiration =
     sender_uuid_raw uuid @ u32_be (device_id_raw device) @ identity_public_bytes identity @ u64_be (timestamp_secs expiration)"

definition sender_certificate_new ::
  "ext \<Rightarrow> sender_uuid \<Rightarrow> device_id \<Rightarrow> identity_public_key \<Rightarrow> timestamp \<Rightarrow> bytes \<Rightarrow> server_certificate \<Rightarrow> sender_certificate" where
  "sender_certificate_new X uuid device identity expiration server_signing_key server_cert =
     (let cert_data = signable_data uuid device identity expiration
      in \<lparr>ct_sender_uuid = uuid, ct_sender_device_id = device, ct_identity_key = identity,
          ct_expiration = expiration, ct_server_certificate = server_cert,
          ct_server_signature = ed_sign X server_signing_key cert_data\<rparr>)"

definition validate :: "ext \<Rightarrow> sender_certificate \<Rightarrow> bytes \<Rightarrow> timestamp \<Rightarrow> unit res" where
  "validate X c trust_root now =
     (if now \<ge> ct_expiration c then Inl ExpiredCertificate
      else
        (case verify_self_signed X (ct_server_certificate c) of
           Inl e \<Rightarrow> Inl e
         | Inr _ \<Rightarrow>
             (let server_vk = signing_public_key_bytes (sc_public_key (ct_server_certificate c))
              in if \<not> ed_point X server_vk then Inl (InvalidCertificate ''invalid server key'')
                 else if server_vk \<noteq> trust_root
                 then Inl (InvalidCertificate ''server certificate not signed by trust root'')
                 else verify_ed25519 X server_vk
                        (signable_data (ct_sender_uuid c) (ct_sender_device_id c) (ct_identity_key c) (ct_expiration c))
                        (ct_server_signature c))))"

section \<open>What a valid certificate says\<close>

lemma verify_ed25519_sign: "ed25519_ok X \<Longrightarrow> verify_ed25519 X (ed_public X seed) data (ed_sign X seed data) = Inr ()"
  by (simp add: verify_ed25519_def ed25519_ok_def)

lemma verify_ed25519_Inr: "verify_ed25519 X k d sig = Inr u \<longleftrightarrow> length sig = 64 \<and> ed_verify X k d sig"
  by (simp add: verify_ed25519_def)

lemma issued_valid:
  assumes "ed25519_ok X" and "now < expiration"
  shows "validate X (sender_certificate_new X uuid device identity expiration server_key (server_certificate_new X key_id server_key))
           (ed_public X server_key) now = Inr ()"
  using assms verify_ed25519_sign [OF assms(1)] unfolding ed25519_ok_def
  by (simp add: validate_def sender_certificate_new_def server_certificate_new_def verify_self_signed_def server_signable_def Let_def)

text \<open>The signed bytes determine the fields, since all but the first have fixed lengths.\<close>

lemma signable_data_inject:
  assumes "signable_data u d i e = signable_data u' d' i' e'"
    and "length (sender_uuid_raw u) = 16" "length (sender_uuid_raw u') = 16"
    and "length (identity_public_bytes i) = 32" "length (identity_public_bytes i') = 32"
  shows "u = u' \<and> d = d' \<and> i = i' \<and> e = e'"
  using assms
  by (simp add: signable_data_def append_cancel_len sender_uuid.expand device_id.expand identity_public_key.expand timestamp.expand)

lemma validate_Inr:
  "validate X c trust_root now = Inr u \<longleftrightarrow>
     now < ct_expiration c \<and> signing_public_key_bytes (sc_public_key (ct_server_certificate c)) = trust_root \<and>
     ed_point X trust_root \<and>
     verify_ed25519 X trust_root (server_signable (sc_key_id (ct_server_certificate c)) (SigningPublicKey trust_root))
       (sc_signature (ct_server_certificate c)) = Inr () \<and>
     verify_ed25519 X trust_root
       (signable_data (ct_sender_uuid c) (ct_sender_device_id c) (ct_identity_key c) (ct_expiration c)) (ct_server_signature c) = Inr ()"
proof -
  obtain pk where pk: "sc_public_key (ct_server_certificate c) = SigningPublicKey pk" by (cases "sc_public_key (ct_server_certificate c)")
  show ?thesis
    by (auto simp: validate_def verify_self_signed_def pk Let_def not_le split: sum.splits if_splits)
qed

section \<open>Properties\<close>

text \<open>
  Certificates. A certificate that the trust root issues for a sender is valid until its
  expiration and not from then on; and a certificate is accepted only if its server key is the
  trust root and the trust root's signature covers exactly its UUID, device, identity key and
  expiration, so no field of an issued certificate can be replaced.
\<close>

theorem certificate_trust:
  assumes "ed25519_ok X"
  shows "(now < expiration \<longrightarrow>
      validate X (sender_certificate_new X uuid device identity expiration server_key (server_certificate_new X key_id server_key))
        (ed_public X server_key) now = Inr ()) \<and>
    (expiration \<le> now \<longrightarrow>
      validate X (sender_certificate_new X uuid device identity expiration server_key (server_certificate_new X key_id server_key))
        (ed_public X server_key) now = Inl ExpiredCertificate) \<and>
    (validate X c trust_root now = Inr () \<longrightarrow>
      now < ct_expiration c \<and> signing_public_key_bytes (sc_public_key (ct_server_certificate c)) = trust_root \<and>
      ed_verify X trust_root
        (signable_data (ct_sender_uuid c) (ct_sender_device_id c) (ct_identity_key c) (ct_expiration c)) (ct_server_signature c)) \<and>
    (signable_data u d i e = signable_data u' d' i' e' \<and> length (sender_uuid_raw u) = 16 \<and> length (sender_uuid_raw u') = 16 \<and>
       length (identity_public_bytes i) = 32 \<and> length (identity_public_bytes i') = 32 \<longrightarrow>
       u = u' \<and> d = d' \<and> i = i' \<and> e = e')"
  using issued_valid [OF assms] signable_data_inject [of u d i e u' d' i' e']
  by (auto simp: validate_Inr verify_ed25519_Inr) (simp add: validate_def sender_certificate_new_def)

theorem certificate_trust_witness:
  "validate demo_ext (sender_certificate_new demo_ext (SenderUuid (zeros 16)) (DeviceId 1) (IdentityPublicKey (zeros 32)) (Timestamp 10)
      (replicate 32 1) (server_certificate_new demo_ext (ServerKeyId 1) (replicate 32 1))) (ed_public demo_ext (replicate 32 1)) (Timestamp 9)
     = Inr () \<and>
   validate demo_ext (sender_certificate_new demo_ext (SenderUuid (zeros 16)) (DeviceId 1) (IdentityPublicKey (zeros 32)) (Timestamp 10)
      (replicate 32 1) (server_certificate_new demo_ext (ServerKeyId 1) (replicate 32 1))) (ed_public demo_ext (replicate 32 1)) (Timestamp 10)
     = Inl ExpiredCertificate"
proof -
  have t: "Timestamp 9 < Timestamp 10" "Timestamp 10 \<le> Timestamp 10" by (simp_all add: less_timestamp_def)
  show ?thesis
    using certificate_trust [OF demo_ed25519, THEN conjunct1, THEN mp, OF t(1)]
      certificate_trust [OF demo_ed25519, THEN conjunct2, THEN conjunct1, THEN mp, OF t(2)]
    by (intro conjI)
qed

end
