(* ===== verification/Outcome.thy ===== *)
theory Outcome
  imports Foundation
begin

text \<open>
  The \<open>?\<close> operator on results, the unframed postcard calls of the application layer, and
  \<open>try_into\<close> from a slice to an array of fixed length.
\<close>

definition bind_res :: "'a res \<Rightarrow> ('a \<Rightarrow> 'b res) \<Rightarrow> 'b res" where
  "bind_res r f = (case r of Inl e \<Rightarrow> Inl e | Inr a \<Rightarrow> f a)"

definition to_allocvec :: "(string \<Rightarrow> crypto_error) \<Rightarrow> 'a codec \<Rightarrow> 'a \<Rightarrow> bytes res" where
  "to_allocvec err c v = (case enc c v of Inl e \<Rightarrow> Inl (err e) | Inr b \<Rightarrow> Inr b)"

definition from_allocvec :: "(string \<Rightarrow> crypto_error) \<Rightarrow> 'a codec \<Rightarrow> bytes \<Rightarrow> 'a res" where
  "from_allocvec err c b = (case dec c b of Inl e \<Rightarrow> Inl (err e) | Inr v \<Rightarrow> Inr v)"

definition to_array :: "crypto_error \<Rightarrow> nat \<Rightarrow> bytes \<Rightarrow> bytes res" where
  "to_array err n bs = (if length bs = n then Inr bs else Inl err)"

definition ok_or :: "crypto_error \<Rightarrow> 'a option \<Rightarrow> 'a res" where
  "ok_or err r = (case r of None \<Rightarrow> Inl err | Some a \<Rightarrow> Inr a)"

lemma bind_res_simps [simp]: "bind_res (Inl e) f = Inl e" "bind_res (Inr a) f = f a"
  by (simp_all add: bind_res_def)

lemma bind_res_Inr: "bind_res r f = Inr b \<longleftrightarrow> (\<exists>a. r = Inr a \<and> f a = Inr b)"
  by (cases r) simp_all

lemma ok_or_simps [simp]: "ok_or err None = Inl err" "ok_or err (Some a) = Inr a"
  by (simp_all add: ok_or_def)

lemma ok_or_Inr: "ok_or err r = Inr a \<longleftrightarrow> r = Some a"
  by (cases r) simp_all

lemma to_array_Inr: "to_array err n bs = Inr a \<longleftrightarrow> length bs = n \<and> a = bs"
  by (auto simp: to_array_def)

lemma from_allocvec_Inr: "from_allocvec err c b = Inr v \<longleftrightarrow> dec c b = Inr v"
  by (simp add: from_allocvec_def split: sum.splits)

lemma to_allocvec_Inr: "to_allocvec err c v = Inr b \<longleftrightarrow> enc c v = Inr b"
  by (simp add: to_allocvec_def split: sum.splits)

lemma allocvec_round_trip:
  assumes "codec_ok c"
  obtains b where "\<And>err. to_allocvec err c v = Inr b" and "\<And>err. from_allocvec err c b = Inr v"
  using codec_ok_enc [OF assms, of v] codec_okD [OF assms] by (auto simp: to_allocvec_Inr from_allocvec_Inr)

lemmas outcome_iffs = bind_res_Inr ok_or_Inr to_array_Inr from_allocvec_Inr to_allocvec_Inr

end
