(* ===== verification/Sealed_Sender.thy ===== *)
theory Sealed_Sender
  imports Certificate Aead Field_Codec Outcome
begin

text \<open>
  \<open>protocol/sealed_sender/mod.rs\<close>: the two-layer envelope that hides the sender from the server.
  The ephemeral secret and the two AEAD nonces that \<open>seal\<close> draws are arguments; the postcard
  codecs of the envelope, the inner message and the certificate are parameters.
\<close>

definition SEALED_SENDER_STATIC_INFO :: bytes where
  "SEALED_SENDER_STATIC_INFO = ascii ''HushwireSealedSender''"

definition SEALED_SENDER_MESSAGE_INFO :: bytes where
  "SEALED_SENDER_MESSAGE_INFO = ascii ''HushwireSealedSenderMessage''"

definition derive_layer1_keys :: "ext \<Rightarrow> bytes \<Rightarrow> bytes \<Rightarrow> bytes \<times> bytes" where
  "derive_layer1_keys X layer1_dh salt =
     (let material = hkdf_okm X layer1_dh (Some salt) SEALED_SENDER_STATIC_INFO 64
      in (take 32 material, take 32 (drop 32 material)))"

record sealed_sender_envelope =
  ss_ephemeral_public :: bytes
  ss_encrypted_static :: bytes
  ss_cert_hash :: bytes
  ss_encrypted_message :: bytes

record unsealed_message =
  um_sender_uuid :: sender_uuid
  um_sender_device_id :: device_id
  um_sender_identity :: identity_public_key
  um_content :: bytes

record inner_message =
  im_sender_certificate :: sender_certificate
  im_content :: bytes

record sealed_codecs =
  envelope_codec :: "sealed_sender_envelope codec"
  inner_codec :: "inner_message codec"
  cert_codec :: "sender_certificate codec"

text \<open>The key and the associated data of layer 2, which both directions compute alike.\<close>

definition layer2_key :: "ext \<Rightarrow> bytes \<Rightarrow> bytes \<Rightarrow> bytes \<Rightarrow> bytes" where
  "layer2_key X chain_key e_b salt = hkdf_okm X (chain_key @ e_b) (Some salt) SEALED_SENDER_MESSAGE_INFO 32"

definition layer2_ad :: "bytes \<Rightarrow> bytes \<Rightarrow> bytes \<Rightarrow> bytes" where
  "layer2_ad eph encrypted_static cert_hash = eph @ encrypted_static @ cert_hash"

definition seal ::
  "ext \<Rightarrow> sealed_codecs \<Rightarrow> bytes \<Rightarrow> bytes \<Rightarrow> bytes \<Rightarrow> identity_key_pair \<Rightarrow> sender_certificate \<Rightarrow> bytes \<Rightarrow> identity_public_key \<Rightarrow> bytes res" where
  "seal X C eph_bytes nonce1 nonce2 sender_identity sender_cert content recipient_identity =
     bind_res (to_x25519 X recipient_identity) (\<lambda>recipient_x25519.
     let eph = x_public X eph_bytes;
         e_a = x_dh X eph_bytes recipient_x25519;
         (chain_key, static_cipher_key) = derive_layer1_keys X e_a eph
     in bind_res (x25519_public_key X sender_identity) (\<lambda>sender_x25519_pub.
        bind_res (aead_encrypt X static_cipher_key nonce1 sender_x25519_pub eph) (\<lambda>encrypted_static.
        let e_b = x_dh X (x25519_private_key X sender_identity) recipient_x25519;
            message_key = layer2_key X chain_key e_b eph
        in bind_res (to_allocvec Serialization (inner_codec C) \<lparr>im_sender_certificate = sender_cert, im_content = content\<rparr>) (\<lambda>inner_bytes.
           bind_res (to_allocvec Serialization (cert_codec C) sender_cert) (\<lambda>cert_bytes.
           let cert_hash = sha256 X cert_bytes
           in bind_res (aead_encrypt X message_key nonce2 inner_bytes (layer2_ad eph encrypted_static cert_hash)) (\<lambda>encrypted_message.
              to_allocvec Serialization (envelope_codec C)
                \<lparr>ss_ephemeral_public = eph, ss_encrypted_static = encrypted_static, ss_cert_hash = cert_hash,
                 ss_encrypted_message = encrypted_message\<rparr>))))))"

definition unseal :: "ext \<Rightarrow> sealed_codecs \<Rightarrow> bytes \<Rightarrow> identity_key_pair \<Rightarrow> bytes \<Rightarrow> timestamp \<Rightarrow> unsealed_message res" where
  "unseal X C envelope_bytes recipient_identity trust_root now =
     bind_res (from_allocvec Serialization (envelope_codec C) envelope_bytes) (\<lambda>envelope.
     let eph = ss_ephemeral_public envelope;
         our_x25519 = x25519_private_key X recipient_identity;
         e_a = x_dh X our_x25519 eph;
         (chain_key, static_cipher_key) = derive_layer1_keys X e_a eph
     in bind_res (aead_decrypt X static_cipher_key (ss_encrypted_static envelope) eph) (\<lambda>sender_x25519_bytes.
        bind_res (to_array InvalidKey 32 sender_x25519_bytes) (\<lambda>sender_x25519.
          let e_b = x_dh X our_x25519 sender_x25519;
               message_key = layer2_key X chain_key e_b eph;
               ad = layer2_ad eph (ss_encrypted_static envelope) (ss_cert_hash envelope)
           in bind_res (aead_decrypt X message_key (ss_encrypted_message envelope) ad) (\<lambda>inner_bytes.
              bind_res (from_allocvec Serialization (inner_codec C) inner_bytes) (\<lambda>inner.
              bind_res (to_allocvec Serialization (cert_codec C) (im_sender_certificate inner)) (\<lambda>cert_bytes.
              if sha256 X cert_bytes \<noteq> ss_cert_hash envelope then Inl (InvalidCertificate ''certificate hash mismatch'')
              else
                bind_res (validate X (im_sender_certificate inner) trust_root now) (\<lambda>_.
                bind_res (to_x25519 X (ct_identity_key (im_sender_certificate inner))) (\<lambda>cert_x25519.
                if cert_x25519 \<noteq> sender_x25519
                then Inl (InvalidCertificate ''sender static key does not match certificate identity'')
                else Inr \<lparr>um_sender_uuid = ct_sender_uuid (im_sender_certificate inner),
                          um_sender_device_id = ct_sender_device_id (im_sender_certificate inner),
                          um_sender_identity = ct_identity_key (im_sender_certificate inner),
                          um_content = im_content inner\<rparr>))))))))"

section \<open>Both directions agree\<close>

definition sealed_codecs_ok :: "sealed_codecs \<Rightarrow> bool" where
  "sealed_codecs_ok C \<longleftrightarrow> codec_ok (envelope_codec C) \<and> codec_ok (inner_codec C) \<and> codec_ok (cert_codec C)"

lemma unseal_seal:
  assumes laws: "ed25519_ok X" "x25519_ok X" "identity_dh_ok X" "xchacha_ok X" "sealed_codecs_ok C"
    and seeds: "length (identity_seed sender) = 32" "length (identity_seed recipient) = 32"
    and nonces: "nonce24 n1" "nonce24 n2"
    and cert: "validate X cert trust_root now = Inr ()" "ct_identity_key cert = public_key X sender"
  shows "\<exists>b. seal X C eph n1 n2 sender cert content (public_key X recipient) = Inr b \<and>
     unseal X C b recipient trust_root now =
       Inr \<lparr>um_sender_uuid = ct_sender_uuid cert, um_sender_device_id = ct_sender_device_id cert,
            um_sender_identity = public_key X sender, um_content = content\<rparr>"
proof -
  define sp where "sp = x_public X (x25519_private_key X sender)"
  define rp where "rp = x_public X (x25519_private_key X recipient)"
  define ep where "ep = x_public X eph"
  have pubs: "to_x25519 X (public_key X recipient) = Inr rp" "to_x25519 X (public_key X sender) = Inr sp"
    "x25519_public_key X sender = Inr sp"
    using to_x25519_public_key [OF laws(1,3) seeds(2)] to_x25519_public_key [OF laws(1,3) seeds(1)]
    by (simp_all add: sp_def rp_def x25519_public_key_def)
  have dh: "x_dh X (x25519_private_key X recipient) ep = x_dh X eph rp"
    "x_dh X (x25519_private_key X recipient) sp = x_dh X (x25519_private_key X sender) rp"
    unfolding ep_def rp_def sp_def by (rule x25519D(1) [OF laws(2)])+
  have sp32: "length sp = 32" by (simp add: sp_def x25519D [OF laws(2)])
  obtain ck sk where l1: "derive_layer1_keys X (x_dh X eph rp) ep = (ck, sk)" by fastforce
  obtain es where es: "aead_encrypt X sk n1 sp ep = Inr es" "aead_decrypt X sk es ep = Inr sp"
    using aead.round_trip [OF laws(4) nonces(1)] by blast
  obtain ib where ib: "to_allocvec Serialization (inner_codec C) \<lparr>im_sender_certificate = cert, im_content = content\<rparr> = Inr ib"
    "from_allocvec Serialization (inner_codec C) ib = Inr \<lparr>im_sender_certificate = cert, im_content = content\<rparr>"
    using allocvec_round_trip laws(5) unfolding sealed_codecs_ok_def by metis
  obtain cb where cb: "to_allocvec Serialization (cert_codec C) cert = Inr cb"
    using allocvec_round_trip laws(5) unfolding sealed_codecs_ok_def by metis
  define mk where "mk = layer2_key X ck (x_dh X (x25519_private_key X sender) rp) ep"
  define ad where "ad = layer2_ad ep es (sha256 X cb)"
  obtain em where em: "aead_encrypt X mk n2 ib ad = Inr em" "aead_decrypt X mk em ad = Inr ib"
    using aead.round_trip [OF laws(4) nonces(2)] by blast
  obtain b where b: "to_allocvec Serialization (envelope_codec C)
       \<lparr>ss_ephemeral_public = ep, ss_encrypted_static = es, ss_cert_hash = sha256 X cb, ss_encrypted_message = em\<rparr> = Inr b"
    "from_allocvec Serialization (envelope_codec C) b =
       Inr \<lparr>ss_ephemeral_public = ep, ss_encrypted_static = es, ss_cert_hash = sha256 X cb, ss_encrypted_message = em\<rparr>"
    using allocvec_round_trip laws(5) unfolding sealed_codecs_ok_def by metis
  have "seal X C eph n1 n2 sender cert content (public_key X recipient) = Inr b"
    by (simp add: seal_def pubs ep_def [symmetric] l1 es ib cb mk_def [symmetric] ad_def [symmetric] em b)
  moreover have "unseal X C b recipient trust_root now =
       Inr \<lparr>um_sender_uuid = ct_sender_uuid cert, um_sender_device_id = ct_sender_device_id cert,
            um_sender_identity = public_key X sender, um_content = content\<rparr>"
    by (simp add: unseal_def b dh l1 es sp32 to_array_def mk_def [symmetric] ad_def [symmetric] em ib cb cert pubs)
  ultimately show ?thesis by blast
qed

section \<open>Properties\<close>

text \<open>
  Sealing and unsealing. Whatever is sealed for a recipient under a valid certificate of
  the sender's own identity key unseals, at the recipient, to the same content and to the
  sender's UUID, device and identity of that certificate.
\<close>

theorem sealed_round_trip:
  assumes "ed25519_ok X" "x25519_ok X" "identity_dh_ok X" "xchacha_ok X" "sealed_codecs_ok C"
    and "length (identity_seed sender) = 32" "length (identity_seed recipient) = 32"
    and "nonce24 n1" "nonce24 n2" and "now < expiration"
  shows "\<exists>b. seal X C eph n1 n2 sender
        (sender_certificate_new X uuid device (public_key X sender) expiration server_key (server_certificate_new X key_id server_key))
        content (public_key X recipient) = Inr b \<and>
     unseal X C b recipient (ed_public X server_key) now =
       Inr \<lparr>um_sender_uuid = uuid, um_sender_device_id = device, um_sender_identity = public_key X sender, um_content = content\<rparr>"
  using unseal_seal [OF assms(1-9) issued_valid [OF assms(1,10)], of uuid device "public_key X sender" server_key key_id eph content]
  by (simp add: sender_certificate_new_def)

text \<open>
  C15. Authenticity of unsealing. If anything unseals, then the sender reported is the one of
  a certificate the trust root signed and that has not expired; the certificate is the one
  whose hash the envelope carries; and the content lies in a box sealed under a key that
  takes the Diffie-Hellman value between the recipient and the identity key of exactly that
  certificate.
\<close>

theorem unseal_authentic:
  assumes "xchacha_ok X" and "unseal X C b recipient trust_root now = Inr m"
  shows "\<exists>env cert cb static nonce inner.
     dec (envelope_codec C) b = Inr env \<and>
     um_sender_uuid m = ct_sender_uuid cert \<and> um_sender_device_id m = ct_sender_device_id cert \<and>
     um_sender_identity m = ct_identity_key cert \<and>
     now < ct_expiration cert \<and>
     ed_verify X trust_root
       (signable_data (um_sender_uuid m) (um_sender_device_id m) (um_sender_identity m) (ct_expiration cert)) (ct_server_signature cert) \<and>
     enc (cert_codec C) cert = Inr cb \<and> ss_cert_hash env = sha256 X cb \<and>
     to_x25519 X (um_sender_identity m) = Inr static \<and>
     dec (inner_codec C) inner = Inr \<lparr>im_sender_certificate = cert, im_content = um_content m\<rparr> \<and>
     nonce24 nonce \<and>
     aead_encrypt X (layer2_key X (fst (derive_layer1_keys X (x_dh X (x25519_private_key X recipient) (ss_ephemeral_public env)) (ss_ephemeral_public env)))
         (x_dh X (x25519_private_key X recipient) static) (ss_ephemeral_public env)) nonce inner
       (layer2_ad (ss_ephemeral_public env) (ss_encrypted_static env) (ss_cert_hash env)) = Inr (ss_encrypted_message env)"
proof -
  from assms(2) obtain env static ib im cb where
    env: "dec (envelope_codec C) b = Inr env" and
    box: "aead_decrypt X (layer2_key X (fst (derive_layer1_keys X (x_dh X (x25519_private_key X recipient) (ss_ephemeral_public env)) (ss_ephemeral_public env)))
         (x_dh X (x25519_private_key X recipient) static) (ss_ephemeral_public env)) (ss_encrypted_message env)
       (layer2_ad (ss_ephemeral_public env) (ss_encrypted_static env) (ss_cert_hash env)) = Inr ib" and
    im: "dec (inner_codec C) ib = Inr im" and
    cb: "enc (cert_codec C) (im_sender_certificate im) = Inr cb" "sha256 X cb = ss_cert_hash env" and
    val: "validate X (im_sender_certificate im) trust_root now = Inr ()" and
    static: "to_x25519 X (ct_identity_key (im_sender_certificate im)) = Inr static" and
    m: "m = \<lparr>um_sender_uuid = ct_sender_uuid (im_sender_certificate im),
             um_sender_device_id = ct_sender_device_id (im_sender_certificate im),
             um_sender_identity = ct_identity_key (im_sender_certificate im), um_content = im_content im\<rparr>"
    unfolding unseal_def by (auto simp: outcome_iffs Let_def case_prod_unfold split: if_splits)
  obtain n where "nonce24 n" and
    "aead_encrypt X (layer2_key X (fst (derive_layer1_keys X (x_dh X (x25519_private_key X recipient) (ss_ephemeral_public env)) (ss_ephemeral_public env)))
         (x_dh X (x25519_private_key X recipient) static) (ss_ephemeral_public env)) n ib
       (layer2_ad (ss_ephemeral_public env) (ss_encrypted_static env) (ss_cert_hash env)) = Inr (ss_encrypted_message env)"
    using aead.open_only_sealed [OF assms(1) box] by blast
  moreover have "im = \<lparr>im_sender_certificate = im_sender_certificate im, im_content = im_content im\<rparr>" by simp
  ultimately show ?thesis
    using env im cb val static
    by (intro exI [of _ env] exI [of _ "im_sender_certificate im"] exI [of _ cb] exI [of _ static] exI [of _ n] exI [of _ ib])
       (simp add: m validate_Inr verify_ed25519_Inr)
qed

section \<open>Concrete codecs\<close>

definition cert_fields :: "sender_certificate \<Rightarrow> bytes list" where
  "cert_fields c =
     [sender_uuid_raw (ct_sender_uuid c), u32_be (device_id_raw (ct_sender_device_id c)), identity_public_bytes (ct_identity_key c),
      u64_be (timestamp_secs (ct_expiration c)), u32_be (server_key_id_raw (sc_key_id (ct_server_certificate c))),
      signing_public_key_bytes (sc_public_key (ct_server_certificate c)), sc_signature (ct_server_certificate c), ct_server_signature c]"

fun cert_of_fields :: "bytes list \<Rightarrow> sender_certificate option" where
  "cert_of_fields [u, d, i, e, k, p, s, g] =
     Some \<lparr>ct_sender_uuid = SenderUuid u, ct_sender_device_id = DeviceId (from_be d), ct_identity_key = IdentityPublicKey i,
           ct_expiration = Timestamp (from_be e),
           ct_server_certificate = \<lparr>sc_key_id = ServerKeyId (from_be k), sc_public_key = SigningPublicKey p, sc_signature = s\<rparr>,
           ct_server_signature = g\<rparr>"
| "cert_of_fields _ = None"

lemma cert_of_fields: "cert_of_fields (cert_fields c) = Some c"
  by (simp add: cert_fields_def)

definition demo_codecs :: sealed_codecs where
  "demo_codecs =
     \<lparr>envelope_codec = field_codec (\<lambda>e. [ss_ephemeral_public e, ss_encrypted_static e, ss_cert_hash e, ss_encrypted_message e])
        (\<lambda>fs. Some \<lparr>ss_ephemeral_public = fs ! 0, ss_encrypted_static = fs ! 1, ss_cert_hash = fs ! 2, ss_encrypted_message = fs ! 3\<rparr>),
      inner_codec = field_codec (\<lambda>m. im_content m # cert_fields (im_sender_certificate m))
        (\<lambda>fs. map_option (\<lambda>c. \<lparr>im_sender_certificate = c, im_content = hd fs\<rparr>) (cert_of_fields (tl fs))),
      cert_codec = field_codec cert_fields cert_of_fields\<rparr>"

lemma demo_codecs_ok: "sealed_codecs_ok demo_codecs"
  unfolding sealed_codecs_ok_def demo_codecs_def sealed_codecs.simps
  by (intro conjI field_codec_ok) (simp_all add: cert_of_fields)

definition demo_cert :: sender_certificate where
  "demo_cert = sender_certificate_new demo_ext (SenderUuid (zeros 16)) (DeviceId 1) (public_key demo_ext (IdentityKeyPair (replicate 32 2)))
     (Timestamp 10) (replicate 32 1) (server_certificate_new demo_ext (ServerKeyId 1) (replicate 32 1))"

lemmas demo_sealed = demo_ed25519 demo_x25519 demo_identity_dh demo_xchacha demo_codecs_ok

theorem sealed_round_trip_witness:
  "\<exists>b. seal demo_ext demo_codecs (replicate 32 3) (zeros 24) (zeros 24) (IdentityKeyPair (replicate 32 2)) demo_cert (ascii ''hi'')
        (public_key demo_ext (IdentityKeyPair (replicate 32 4))) = Inr b \<and>
     unseal demo_ext demo_codecs b (IdentityKeyPair (replicate 32 4)) (ed_public demo_ext (replicate 32 1)) (Timestamp 9) =
       Inr \<lparr>um_sender_uuid = SenderUuid (zeros 16), um_sender_device_id = DeviceId 1,
            um_sender_identity = public_key demo_ext (IdentityKeyPair (replicate 32 2)), um_content = ascii ''hi''\<rparr>"
  unfolding demo_cert_def
  by (rule sealed_round_trip [OF demo_sealed])
     (simp_all add: nonce24_def NONCE_SIZE_def less_timestamp_def)

theorem unseal_authentic_witness:
  "\<exists>b m (cert :: sender_certificate). unseal demo_ext demo_codecs b (IdentityKeyPair (replicate 32 4)) (ed_public demo_ext (replicate 32 1)) (Timestamp 9) = Inr m \<and>
     um_content m = ascii ''hi'' \<and> um_sender_identity m = ct_identity_key cert \<and> Timestamp 9 < ct_expiration cert"
proof -
  have cert: "validate demo_ext demo_cert (ed_public demo_ext (replicate 32 1)) (Timestamp 9) = Inr ()"
    unfolding demo_cert_def by (rule issued_valid [OF demo_ed25519]) (simp add: less_timestamp_def)
  obtain b m where un:
    "unseal demo_ext demo_codecs b (IdentityKeyPair (replicate 32 4)) (ed_public demo_ext (replicate 32 1)) (Timestamp 9) = Inr m"
    and content: "um_content m = ascii ''hi''"
    using unseal_seal [OF demo_sealed _ _ _ _ cert, of "IdentityKeyPair (replicate 32 2)" "IdentityKeyPair (replicate 32 4)" "zeros 24" "zeros 24"
        "[]" "ascii ''hi''"]
    by (fastforce simp: nonce24_def NONCE_SIZE_def demo_cert_def sender_certificate_new_def)
  obtain cert :: sender_certificate where "um_sender_identity m = ct_identity_key cert" "Timestamp 9 < ct_expiration cert"
    using unseal_authentic [OF demo_xchacha un] by (elim exE conjE) (rule that; assumption)
  then show ?thesis using un content by blast
qed

end
