(* ===== verification/Org_Metadata.thy ===== *)
theory Org_Metadata
  imports Keys Aead Outcome Field_Codec
begin

text \<open>
  \<open>hushwire/org/metadata.rs\<close> and \<open>hushwire/org/signing.rs\<close>: the shared metadata key of an
  organization, its per-recipient and invite-escrow envelopes, the encryption of metadata under
  it, and the organization's signing keys. Random bytes are arguments; the postcard codecs of
  the two envelopes are parameters.
\<close>

section \<open>Keys\<close>

definition ORG_NONCE_SIZE :: nat where
  "ORG_NONCE_SIZE = 12"

definition METADATA_KEY_ENVELOPE_V1 :: u8 where
  "METADATA_KEY_ENVELOPE_V1 = 1"

definition METADATA_KEY_ENVELOPE_V2 :: u8 where
  "METADATA_KEY_ENVELOPE_V2 = 2"

definition METADATA_KEY_ENVELOPE_INFO :: bytes where
  "METADATA_KEY_ENVELOPE_INFO = ascii ''Hushwire-Metadata-Key-v1''"

definition INVITE_TOKEN_INFO :: bytes where
  "INVITE_TOKEN_INFO = ascii ''hushwire-invite-token-v1''"

definition INVITE_ESCROW_INFO :: bytes where
  "INVITE_ESCROW_INFO = ascii ''hushwire-invite-escrow-v1''"

definition generate_metadata_key :: "bytes \<Rightarrow> bytes" where
  "generate_metadata_key rand = rand"

definition org_hkdf :: "ext \<Rightarrow> bytes \<Rightarrow> bytes \<Rightarrow> bytes" where
  "org_hkdf X ikm info = hkdf X (Some (zeros 32)) ikm info 32"

definition derive_metadata_envelope_key :: "ext \<Rightarrow> bytes \<Rightarrow> bytes" where
  "derive_metadata_envelope_key X shared_secret = org_hkdf X shared_secret METADATA_KEY_ENVELOPE_INFO"

definition derive_invite_token :: "ext \<Rightarrow> bytes \<Rightarrow> bytes" where
  "derive_invite_token X secret = org_hkdf X secret INVITE_TOKEN_INFO"

definition derive_invite_escrow_key :: "ext \<Rightarrow> bytes \<Rightarrow> bytes" where
  "derive_invite_escrow_key X secret = org_hkdf X secret INVITE_ESCROW_INFO"

definition generate_invite_secret :: "bytes \<Rightarrow> bytes" where
  "generate_invite_secret rand = rand"

record signing_keypair =
  kp_private_key :: bytes
  kp_public_key :: bytes

definition generate_signing_keypair :: "ext \<Rightarrow> bytes \<Rightarrow> signing_keypair" where
  "generate_signing_keypair X key_bytes = \<lparr>kp_private_key = key_bytes, kp_public_key = ed_public X key_bytes\<rparr>"

section \<open>The metadata key for one recipient\<close>

record metadata_key_envelope =
  mke_ephemeral_public_key :: bytes
  mke_nonce :: bytes
  mke_ciphertext :: bytes

definition encrypt_metadata_key ::
  "ext \<Rightarrow> metadata_key_envelope codec \<Rightarrow> bytes \<Rightarrow> bytes \<Rightarrow> bytes \<Rightarrow> bytes \<Rightarrow> bytes res" where
  "encrypt_metadata_key X C secret nonce_bytes metadata_key recipient_public =
     (let shared_secret = x_dh X secret recipient_public
      in if shared_secret = zeros 32 then Inl InvalidKey
         else
           bind_res (ok_or (EncryptionFailed ''metadata key encryption failed'')
             (chacha_seal X (derive_metadata_envelope_key X shared_secret) nonce_bytes [] metadata_key)) (\<lambda>ciphertext.
           bind_res (to_allocvec EncryptionFailed C
             \<lparr>mke_ephemeral_public_key = x_public X secret, mke_nonce = nonce_bytes, mke_ciphertext = ciphertext\<rparr>) (\<lambda>body.
           Inr (METADATA_KEY_ENVELOPE_V1 # body))))"

definition decrypt_metadata_key :: "ext \<Rightarrow> metadata_key_envelope codec \<Rightarrow> bytes \<Rightarrow> bytes \<Rightarrow> bytes res" where
  "decrypt_metadata_key X C envelope_bytes our_private =
     (case envelope_bytes of
        [] \<Rightarrow> Inl (DecryptionFailed ''empty metadata key envelope'')
      | version # body \<Rightarrow>
          if version \<noteq> METADATA_KEY_ENVELOPE_V1
          then Inl (DecryptionFailed (''unsupported metadata key envelope version: '' @ show_nat (unat version)))
          else
            bind_res (from_allocvec DecryptionFailed C body) (\<lambda>envelope.
            bind_res (to_array (DecryptionFailed ''invalid ephemeral key length'') 32 (mke_ephemeral_public_key envelope)) (\<lambda>their_pub.
            let shared_secret = x_dh X our_private their_pub
            in if shared_secret = zeros 32 then Inl InvalidKey
               else
                 bind_res (to_array (DecryptionFailed ''invalid nonce length'') ORG_NONCE_SIZE (mke_nonce envelope)) (\<lambda>nonce.
                 bind_res (ok_or (DecryptionFailed ''metadata key decryption failed'')
                   (chacha_open X (derive_metadata_envelope_key X shared_secret) nonce [] (mke_ciphertext envelope))) (\<lambda>plaintext.
                 to_array (DecryptionFailed ''decrypted key wrong length'') 32 plaintext)))))"

section \<open>The metadata key in an invite\<close>

record symmetric_metadata_key_envelope =
  ske_nonce :: bytes
  ske_ciphertext :: bytes

definition encrypt_metadata_key_symmetric ::
  "ext \<Rightarrow> symmetric_metadata_key_envelope codec \<Rightarrow> bytes \<Rightarrow> bytes \<Rightarrow> bytes \<Rightarrow> bytes \<Rightarrow> bytes res" where
  "encrypt_metadata_key_symmetric X C nonce_bytes metadata_key escrow_key aad =
     bind_res (ok_or (EncryptionFailed ''symmetric metadata key encryption failed'')
       (chacha_seal X escrow_key nonce_bytes aad metadata_key)) (\<lambda>ciphertext.
     bind_res (to_allocvec EncryptionFailed C \<lparr>ske_nonce = nonce_bytes, ske_ciphertext = ciphertext\<rparr>) (\<lambda>body.
     Inr (METADATA_KEY_ENVELOPE_V2 # body)))"

definition decrypt_metadata_key_symmetric ::
  "ext \<Rightarrow> symmetric_metadata_key_envelope codec \<Rightarrow> bytes \<Rightarrow> bytes \<Rightarrow> bytes \<Rightarrow> bytes res" where
  "decrypt_metadata_key_symmetric X C envelope_bytes escrow_key aad =
     (case envelope_bytes of
        [] \<Rightarrow> Inl (DecryptionFailed ''empty symmetric metadata key envelope'')
      | version # body \<Rightarrow>
          if version \<noteq> METADATA_KEY_ENVELOPE_V2
          then Inl (DecryptionFailed (''expected symmetric envelope version 0x02, got 0x'' @ show_hex_byte version))
          else
            bind_res (from_allocvec DecryptionFailed C body) (\<lambda>envelope.
            bind_res (to_array (DecryptionFailed ''invalid nonce length'') ORG_NONCE_SIZE (ske_nonce envelope)) (\<lambda>nonce.
            bind_res (ok_or (DecryptionFailed ''symmetric metadata key decryption failed'')
              (chacha_open X escrow_key nonce aad (ske_ciphertext envelope))) (\<lambda>plaintext.
            to_array (DecryptionFailed ''decrypted key wrong length'') 32 plaintext))))"

section \<open>Metadata under the key\<close>

definition encrypt_metadata :: "ext \<Rightarrow> bytes \<Rightarrow> bytes \<Rightarrow> bytes \<Rightarrow> bytes \<Rightarrow> bytes res" where
  "encrypt_metadata X key nonce_bytes plaintext aad =
     bind_res (ok_or (EncryptionFailed ''metadata encryption failed'') (chacha_seal X key nonce_bytes aad plaintext)) (\<lambda>ciphertext.
     Inr (nonce_bytes @ ciphertext))"

definition decrypt_metadata :: "ext \<Rightarrow> bytes \<Rightarrow> bytes \<Rightarrow> bytes \<Rightarrow> bytes res" where
  "decrypt_metadata X key encrypted aad =
     (if length encrypted < ORG_NONCE_SIZE then Inl (DecryptionFailed ''metadata ciphertext too short'')
      else (let nonce_bytes = take ORG_NONCE_SIZE encrypted; ciphertext = drop ORG_NONCE_SIZE encrypted
            in ok_or (DecryptionFailed ''metadata decryption failed'') (chacha_open X key nonce_bytes aad ciphertext)))"

definition nonce12 :: "bytes \<Rightarrow> bool" where
  "nonce12 n \<longleftrightarrow> length n = 12"

interpretation metadata_box: sealed_box chacha_ok encrypt_metadata decrypt_metadata nonce12
proof
  fix X k n p a c
  assume ok: "chacha_ok X"
  show "nonce12 n \<Longrightarrow> \<exists>c. encrypt_metadata X k n p a = Inr c"
    using chachaD(1) [OF ok, of k n a p] by (auto simp: encrypt_metadata_def)
  show "nonce12 n \<Longrightarrow> encrypt_metadata X k n p a = Inr c \<Longrightarrow> decrypt_metadata X k c a = Inr p"
    using chachaD(3) [OF ok, of k n a p]
    by (auto simp: encrypt_metadata_def decrypt_metadata_def outcome_iffs nonce12_def ORG_NONCE_SIZE_def Let_def)
  show "decrypt_metadata X k c a = Inr p \<Longrightarrow> \<exists>n. nonce12 n \<and> encrypt_metadata X k n p a = Inr c"
    using chachaD(4) [OF ok, of k "take 12 c" a "drop 12 c" p]
    by (intro exI [of _ "take 12 c"])
      (auto simp: encrypt_metadata_def decrypt_metadata_def ok_or_Inr nonce12_def ORG_NONCE_SIZE_def Let_def split: if_splits)
qed

section \<open>Envelopes open to what was sealed\<close>

lemma metadata_key_round_trip:
  assumes "x25519_ok X" "chacha_ok X" "codec_ok C" and "nonce12 n" and "length key = 32"
    and "x_dh X secret (x_public X priv) \<noteq> zeros 32"
  shows "\<exists>env. encrypt_metadata_key X C secret n key (x_public X priv) = Inr env \<and> decrypt_metadata_key X C env priv = Inr key"
proof -
  have dh: "x_dh X priv (x_public X secret) = x_dh X secret (x_public X priv)" by (rule x25519D(1) [OF assms(1)])
  let ?k = "derive_metadata_envelope_key X (x_dh X secret (x_public X priv))"
  obtain c where c: "chacha_seal X ?k n [] key = Some c" using chachaD(1) [OF assms(2)] by blast
  obtain b where "\<And>err. to_allocvec err C \<lparr>mke_ephemeral_public_key = x_public X secret, mke_nonce = n, mke_ciphertext = c\<rparr> = Inr b"
    "\<And>err. from_allocvec err C b = Inr \<lparr>mke_ephemeral_public_key = x_public X secret, mke_nonce = n, mke_ciphertext = c\<rparr>"
    using allocvec_round_trip [OF assms(3)] by blast
  then show ?thesis
    using c chachaD(3) [OF assms(2) c] dh assms(4,5,6) x25519D(2) [OF assms(1), of secret]
    by (simp add: encrypt_metadata_key_def decrypt_metadata_key_def to_array_def nonce12_def ORG_NONCE_SIZE_def Let_def)
qed

lemma metadata_key_symmetric_round_trip:
  assumes "chacha_ok X" "codec_ok C" and "nonce12 n" and "length key = 32"
  shows "\<exists>env. encrypt_metadata_key_symmetric X C n key escrow aad = Inr env \<and>
           decrypt_metadata_key_symmetric X C env escrow aad = Inr key"
proof -
  obtain c where c: "chacha_seal X escrow n aad key = Some c" using chachaD(1) [OF assms(1)] by blast
  obtain b where "\<And>err. to_allocvec err C \<lparr>ske_nonce = n, ske_ciphertext = c\<rparr> = Inr b"
    "\<And>err. from_allocvec err C b = Inr \<lparr>ske_nonce = n, ske_ciphertext = c\<rparr>"
    using allocvec_round_trip [OF assms(2)] by blast
  then show ?thesis
    using c chachaD(3) [OF assms(1) c] assms(3,4)
    by (simp add: encrypt_metadata_key_symmetric_def decrypt_metadata_key_symmetric_def to_array_def nonce12_def ORG_NONCE_SIZE_def)
qed

text \<open>What an opened escrow envelope proves: it holds that very key, under that key and context.\<close>

lemma metadata_key_symmetric_sealed:
  assumes "chacha_ok X" and "decrypt_metadata_key_symmetric X C env escrow aad = Inr key"
  shows "\<exists>e. length key = 32 \<and> dec C (tl env) = Inr e \<and> chacha_seal X escrow (ske_nonce e) aad key = Some (ske_ciphertext e)"
  using assms(2) chachaD(4) [OF assms(1)]
  by (fastforce simp: decrypt_metadata_key_symmetric_def outcome_iffs split: list.splits if_splits)

text \<open>
  The version byte keeps the two envelopes apart.
\<close>

lemma envelope_versions:
  assumes "encrypt_metadata_key X C secret n key pub = Inr env" and "encrypt_metadata_key_symmetric X D n' key' escrow aad = Inr env'"
  shows "\<exists>e. decrypt_metadata_key_symmetric X D env escrow aad = Inl (DecryptionFailed e)"
    and "\<exists>e. decrypt_metadata_key X C env' priv = Inl (DecryptionFailed e)"
  using assms
  by (auto simp: encrypt_metadata_key_def encrypt_metadata_key_symmetric_def decrypt_metadata_key_def decrypt_metadata_key_symmetric_def
      outcome_iffs Let_def METADATA_KEY_ENVELOPE_V1_def METADATA_KEY_ENVELOPE_V2_def split: if_splits)

section \<open>Properties\<close>


definition demo_v1_codec :: "metadata_key_envelope codec" where
  "demo_v1_codec = field_codec (\<lambda>e. [mke_ephemeral_public_key e, mke_nonce e, mke_ciphertext e])
     (\<lambda>fs. Some \<lparr>mke_ephemeral_public_key = fs ! 0, mke_nonce = fs ! 1, mke_ciphertext = fs ! 2\<rparr>)"

definition demo_v2_codec :: "symmetric_metadata_key_envelope codec" where
  "demo_v2_codec = field_codec (\<lambda>e. [ske_nonce e, ske_ciphertext e]) (\<lambda>fs. Some \<lparr>ske_nonce = fs ! 0, ske_ciphertext = fs ! 1\<rparr>)"

lemma demo_org_codecs: "codec_ok demo_v1_codec" "codec_ok demo_v2_codec"
  unfolding demo_v1_codec_def demo_v2_codec_def by (intro field_codec_ok; simp)+


end
