(* ===== verification/Recovery.thy ===== *)
theory Recovery
  imports Keys Aead Outcome
begin

text \<open>
  \<open>hushwire/recovery.rs\<close> and \<open>hushwire/storage_key.rs\<close>: the recovery key and its mnemonic,
  the keys derived from it, the two wrapped blobs, and the storage key derived from a password.
  The crates \<open>bip39\<close> and \<open>argon2\<close> are parameters; so is the text of the cipher's error,
  which the code puts into its own messages.
\<close>

section \<open>The crates\<close>

text \<open>
  \<open>Mnemonic::from_entropy\<close> followed by \<open>to_string\<close>, \<open>str::parse\<close> followed by
  \<open>to_entropy_array\<close> (an array and the number of its bytes in use), \<open>Params::new\<close> and
  \<open>hash_password_into\<close>; errors are their texts.
\<close>

record app_crates =
  mnemonic_from_entropy :: "bytes \<Rightarrow> string + string"
  mnemonic_parse :: "string \<Rightarrow> string + (bytes \<times> nat)"
  argon2_params :: "nat \<Rightarrow> nat \<Rightarrow> nat \<Rightarrow> nat \<Rightarrow> string + unit"
  argon2id :: "nat \<Rightarrow> nat \<Rightarrow> nat \<Rightarrow> bytes \<Rightarrow> bytes \<Rightarrow> nat \<Rightarrow> string + bytes"
  aead_error_text :: string

text \<open>BIP39: 32 bytes of entropy have a mnemonic, and it parses back to them.\<close>

definition bip39_ok :: "app_crates \<Rightarrow> bool" where
  "bip39_ok B \<longleftrightarrow> (\<forall>b. length b = 32 \<longrightarrow>
     (\<exists>w rest. mnemonic_from_entropy B b = Inr w \<and> mnemonic_parse B w = Inr (b @ rest, 32)))"

section \<open>Recovery key\<close>

definition RECOVERY_STORAGE_INFO :: bytes where
  "RECOVERY_STORAGE_INFO = ascii ''hushwire-recovery-storage-v1''"

definition RECOVERY_SERVER_INFO :: bytes where
  "RECOVERY_SERVER_INFO = ascii ''hushwire-recovery-server-v1''"

definition WRAP_MAGIC :: bytes where
  "WRAP_MAGIC = ascii ''HWRK''"

definition BACKUP_MAGIC :: bytes where
  "BACKUP_MAGIC = ascii ''HWIB''"

definition WRAP_VERSION :: u8 where
  "WRAP_VERSION = 1"

definition RECOVERY_NONCE_LEN :: nat where
  "RECOVERY_NONCE_LEN = 12"

definition STORAGE_KEY_LEN :: nat where
  "STORAGE_KEY_LEN = 32"

definition WRAP_HEADER_SIZE :: nat where
  "WRAP_HEADER_SIZE = length WRAP_MAGIC + 1 + RECOVERY_NONCE_LEN"

datatype recovery_key = RecoveryKey (recovery_key_bytes: bytes)

definition recovery_generate :: "bytes \<Rightarrow> recovery_key" where
  "recovery_generate rand = RecoveryKey rand"

definition recovery_from_bytes :: "bytes \<Rightarrow> recovery_key" where
  "recovery_from_bytes bs = RecoveryKey bs"

definition to_mnemonic :: "app_crates \<Rightarrow> recovery_key \<Rightarrow> string res" where
  "to_mnemonic B k =
     (case mnemonic_from_entropy B (recovery_key_bytes k) of
        Inl e \<Rightarrow> Inl (StorageError (''BIP39 encode failed: '' @ e))
      | Inr words \<Rightarrow> Inr words)"

definition from_mnemonic :: "app_crates \<Rightarrow> string \<Rightarrow> recovery_key res" where
  "from_mnemonic B words =
     (case mnemonic_parse B words of
        Inl e \<Rightarrow> Inl (StorageError (''BIP39 decode failed: '' @ e))
      | Inr (entropy, len) \<Rightarrow>
          if len \<noteq> 32 then Inl (StorageError (''Expected 32-byte entropy, got '' @ show_nat len @ '' bytes''))
          else bind_res (to_array (StorageError ''Entropy conversion failed'') 32 (take 32 entropy)) (\<lambda>bs. Inr (RecoveryKey bs)))"

definition derive_hkdf_key :: "ext \<Rightarrow> bytes \<Rightarrow> bytes \<Rightarrow> bytes \<Rightarrow> bytes" where
  "derive_hkdf_key X ikm salt info = hkdf X (Some salt) ikm info 32"

definition derive_wrapping_key :: "ext \<Rightarrow> recovery_key \<Rightarrow> bytes \<Rightarrow> bytes" where
  "derive_wrapping_key X k username = derive_hkdf_key X (recovery_key_bytes k) username RECOVERY_STORAGE_INFO"

definition derive_server_verifier :: "ext \<Rightarrow> recovery_key \<Rightarrow> bytes \<Rightarrow> bytes" where
  "derive_server_verifier X k username = derive_hkdf_key X (recovery_key_bytes k) username RECOVERY_SERVER_INFO"

definition build_aad :: "bytes \<Rightarrow> bytes" where
  "build_aad magic = magic @ [WRAP_VERSION]"

section \<open>Wrapped blobs\<close>

definition wrap_storage_key :: "ext \<Rightarrow> app_crates \<Rightarrow> bytes \<Rightarrow> bytes \<Rightarrow> bytes \<Rightarrow> bytes res" where
  "wrap_storage_key X B wrapping_key nonce_bytes storage_key =
     bind_res (ok_or (EncryptionFailed (''Key wrapping failed: '' @ aead_error_text B))
       (chacha_seal X wrapping_key nonce_bytes (build_aad WRAP_MAGIC) storage_key)) (\<lambda>ciphertext.
     Inr (WRAP_MAGIC @ [WRAP_VERSION] @ nonce_bytes @ ciphertext))"

definition unwrap_storage_key :: "ext \<Rightarrow> app_crates \<Rightarrow> bytes \<Rightarrow> bytes \<Rightarrow> bytes res" where
  "unwrap_storage_key X B wrapping_key wrapped =
     (if length wrapped < WRAP_HEADER_SIZE then Inl (DecryptionFailed ''Wrapped key too short'')
      else if take (length WRAP_MAGIC) wrapped \<noteq> WRAP_MAGIC then Inl (DecryptionFailed ''Invalid wrapped key magic'')
      else if wrapped ! length WRAP_MAGIC \<noteq> WRAP_VERSION
      then Inl (DecryptionFailed (''Unsupported wrap version: '' @ show_nat (unat (wrapped ! length WRAP_MAGIC))))
      else
        (let nonce_start = length WRAP_MAGIC + 1;
             nonce_end = nonce_start + RECOVERY_NONCE_LEN;
             nonce = take RECOVERY_NONCE_LEN (drop nonce_start wrapped);
             ciphertext = drop nonce_end wrapped
         in bind_res (ok_or (DecryptionFailed (''Key unwrapping failed: '' @ aead_error_text B))
              (chacha_open X wrapping_key nonce (build_aad WRAP_MAGIC) ciphertext)) (\<lambda>plaintext.
            to_array (DecryptionFailed (''Unwrapped key wrong size: expected '' @ show_nat STORAGE_KEY_LEN @ '', got '' @
                show_nat (length plaintext))) STORAGE_KEY_LEN plaintext)))"

definition wrap_identity_backup :: "ext \<Rightarrow> app_crates \<Rightarrow> bytes \<Rightarrow> bytes \<Rightarrow> bytes \<Rightarrow> bytes res" where
  "wrap_identity_backup X B wrapping_key nonce_bytes identity_secret =
     bind_res (ok_or (EncryptionFailed (''Identity backup wrapping failed: '' @ aead_error_text B))
       (chacha_seal X wrapping_key nonce_bytes (build_aad BACKUP_MAGIC) identity_secret)) (\<lambda>ciphertext.
     Inr (BACKUP_MAGIC @ [WRAP_VERSION] @ nonce_bytes @ ciphertext))"

definition unwrap_identity_backup :: "ext \<Rightarrow> app_crates \<Rightarrow> bytes \<Rightarrow> bytes \<Rightarrow> bytes res" where
  "unwrap_identity_backup X B wrapping_key wrapped =
     (let header_size = length BACKUP_MAGIC + 1 + RECOVERY_NONCE_LEN
      in if length wrapped < header_size then Inl (DecryptionFailed ''Identity backup too short'')
         else if take (length BACKUP_MAGIC) wrapped \<noteq> BACKUP_MAGIC then Inl (DecryptionFailed ''Invalid identity backup magic'')
         else if wrapped ! length BACKUP_MAGIC \<noteq> WRAP_VERSION
         then Inl (DecryptionFailed (''Unsupported identity backup version: '' @ show_nat (unat (wrapped ! length BACKUP_MAGIC))))
         else
           (let nonce_start = length BACKUP_MAGIC + 1;
                nonce_end = nonce_start + RECOVERY_NONCE_LEN;
                nonce = take RECOVERY_NONCE_LEN (drop nonce_start wrapped);
                ciphertext = drop nonce_end wrapped
            in ok_or (DecryptionFailed (''Identity backup unwrapping failed: '' @ aead_error_text B))
                 (chacha_open X wrapping_key nonce (build_aad BACKUP_MAGIC) ciphertext)))"

section \<open>Storage key\<close>

definition SALT_PREFIX :: bytes where
  "SALT_PREFIX = ascii ''hushwire-storage-v1:''"

definition derive_storage_key :: "app_crates \<Rightarrow> bytes \<Rightarrow> bytes \<Rightarrow> bytes res" where
  "derive_storage_key B username password =
     (case argon2_params B (64 * 1024) 3 1 32 of
        Inl e \<Rightarrow> Inl (StorageError (''Argon2 param error: '' @ e))
      | Inr _ \<Rightarrow>
          (let salt = SALT_PREFIX @ username
           in case argon2id B (64 * 1024) 3 1 password salt 32 of
                Inl e \<Rightarrow> Inl (StorageError (''Key derivation failed: '' @ e))
              | Inr key \<Rightarrow> Inr key))"

section \<open>Blobs open to what was wrapped\<close>

definition recovery_nonce :: "bytes \<Rightarrow> bool" where
  "recovery_nonce n \<longleftrightarrow> length n = RECOVERY_NONCE_LEN"

lemma magics [simp]: "length WRAP_MAGIC = 4" "length BACKUP_MAGIC = 4" "WRAP_MAGIC \<noteq> BACKUP_MAGIC"
  by (simp_all add: WRAP_MAGIC_def BACKUP_MAGIC_def ascii_def)

lemmas recovery_consts = WRAP_HEADER_SIZE_def RECOVERY_NONCE_LEN_def recovery_nonce_def STORAGE_KEY_LEN_def

lemma header_split:
  assumes "17 \<le> length c" "take 4 c = m" "c ! 4 = v"
  shows "c = m @ [v] @ take 12 (drop 5 c) @ drop 17 c"
proof -
  have "c = take 4 c @ [c ! 4] @ drop 5 c" using assms(1) id_take_nth_drop [of 4 c] by simp
  moreover have "drop 5 c = take 12 (drop 5 c) @ drop 17 c" using append_take_drop_id [of 12 "drop 5 c"] by simp
  ultimately show ?thesis using assms by metis
qed

interpretation backup_box: sealed_box chacha_ok
  "\<lambda>X k n p (_ :: unit). wrap_identity_backup X B k n p" "\<lambda>X k c (_ :: unit). unwrap_identity_backup X B k c" recovery_nonce for B
proof
  fix X k n p c
  assume ok: "chacha_ok X"
  show "recovery_nonce n \<Longrightarrow> \<exists>c. wrap_identity_backup X B k n p = Inr c"
    using chachaD(1) [OF ok, of k n _ p] by (fastforce simp: wrap_identity_backup_def outcome_iffs)
  show "recovery_nonce n \<Longrightarrow> wrap_identity_backup X B k n p = Inr c \<Longrightarrow> unwrap_identity_backup X B k c = Inr p"
    using chachaD(3) [OF ok, of k n "build_aad BACKUP_MAGIC" p]
    by (auto simp: wrap_identity_backup_def unwrap_identity_backup_def outcome_iffs recovery_consts Let_def nth_append)
  show "unwrap_identity_backup X B k c = Inr p \<Longrightarrow> \<exists>n. recovery_nonce n \<and> wrap_identity_backup X B k n p = Inr c"
    using chachaD(4) [OF ok, of k "take 12 (drop 5 c)" "build_aad BACKUP_MAGIC" "drop 17 c" p] header_split [of c BACKUP_MAGIC WRAP_VERSION]
    by (intro exI [of _ "take 12 (drop 5 c)"])
      (auto simp: wrap_identity_backup_def unwrap_identity_backup_def outcome_iffs recovery_consts Let_def split: if_splits)
qed

lemma unwrap_wrap_storage_key:
  assumes "chacha_ok X" "recovery_nonce n" "length key = 32"
  shows "\<exists>c. wrap_storage_key X B k n key = Inr c \<and> unwrap_storage_key X B k c = Inr key \<and> length c = 65"
proof -
  obtain c where c: "chacha_seal X k n (build_aad WRAP_MAGIC) key = Some c" using chachaD(1) [OF assms(1)] by blast
  then show ?thesis
    using chachaD(2,3) [OF assms(1) c] assms(2,3)
    by (auto simp: wrap_storage_key_def unwrap_storage_key_def outcome_iffs recovery_consts Let_def to_array_def nth_append)
qed

lemma storage_key_unwraps_only_wrapped:
  assumes "chacha_ok X" and "unwrap_storage_key X B k c = Inr key"
  shows "\<exists>n. recovery_nonce n \<and> wrap_storage_key X B k n key = Inr c \<and> length key = 32"
  using assms(2) chachaD(4) [OF assms(1), of k "take 12 (drop 5 c)" "build_aad WRAP_MAGIC" "drop 17 c" key]
    header_split [of c WRAP_MAGIC WRAP_VERSION]
  by (intro exI [of _ "take 12 (drop 5 c)"])
    (auto simp: wrap_storage_key_def unwrap_storage_key_def outcome_iffs recovery_consts Let_def split: if_splits)

text \<open>The magic bytes keep the two kinds of blob apart.\<close>

lemma blobs_apart:
  "unwrap_storage_key X B k c = Inr key \<Longrightarrow> unwrap_identity_backup X B k' c \<noteq> Inr secret"
  by (auto simp: unwrap_storage_key_def unwrap_identity_backup_def recovery_consts Let_def split: if_splits)

lemma mnemonic_round_trip:
  assumes "bip39_ok B" and "length (recovery_key_bytes k) = 32"
  shows "\<exists>w. to_mnemonic B k = Inr w \<and> from_mnemonic B w = Inr k"
proof -
  obtain w rest where "mnemonic_from_entropy B (recovery_key_bytes k) = Inr w"
    "mnemonic_parse B w = Inr (recovery_key_bytes k @ rest, 32)"
    using assms by (auto simp: bip39_ok_def)
  then show ?thesis using assms(2) by (cases k) (simp add: to_mnemonic_def from_mnemonic_def to_array_def)
qed

section \<open>Properties\<close>

text \<open>
  C33. Account recovery. From the mnemonic and the user name alone, the recovery key and both
  derived keys come back, the wrapped storage key and the identity backup open to what was
  wrapped; conversely a blob that opens was wrapped under that key in that role, and no blob
  opens in both roles.
\<close>

theorem recovery_path:
  assumes "chacha_ok X" "bip39_ok B" and "length (recovery_key_bytes rk) = 32" and "length storage_key = 32"
    and "recovery_nonce n" "recovery_nonce n'"
  shows "\<exists>words wrapped backup rk'.
     to_mnemonic B rk = Inr words \<and> from_mnemonic B words = Inr rk' \<and>
     derive_server_verifier X rk' user = derive_server_verifier X rk user \<and>
     wrap_storage_key X B (derive_wrapping_key X rk user) n storage_key = Inr wrapped \<and>
     unwrap_storage_key X B (derive_wrapping_key X rk' user) wrapped = Inr storage_key \<and>
     wrap_identity_backup X B (derive_wrapping_key X rk user) n' secret = Inr backup \<and>
     unwrap_identity_backup X B (derive_wrapping_key X rk' user) backup = Inr secret \<and>
     (\<forall>k s. unwrap_identity_backup X B k wrapped \<noteq> Inr s) \<and> (\<forall>k s. unwrap_storage_key X B k backup \<noteq> Inr s)"
proof -
  obtain words where w: "to_mnemonic B rk = Inr words" "from_mnemonic B words = Inr rk"
    using mnemonic_round_trip [OF assms(2,3)] by blast
  obtain wrapped where s: "wrap_storage_key X B (derive_wrapping_key X rk user) n storage_key = Inr wrapped"
    "unwrap_storage_key X B (derive_wrapping_key X rk user) wrapped = Inr storage_key"
    using unwrap_wrap_storage_key [OF assms(1,5,4)] by blast
  obtain backup where b: "wrap_identity_backup X B (derive_wrapping_key X rk user) n' secret = Inr backup"
    "unwrap_identity_backup X B (derive_wrapping_key X rk user) backup = Inr secret"
    using backup_box.round_trip [OF assms(1,6)] by blast
  show ?thesis using w s b blobs_apart [OF s(2)] blobs_apart [of X B _ backup] b(2) by blast
qed

definition demo_crates :: app_crates where
  "demo_crates =
     \<lparr>mnemonic_from_entropy = (\<lambda>b. Inr (map (\<lambda>x. char_of (unat x)) b)),
      mnemonic_parse = (\<lambda>w. Inr (map (\<lambda>c. of_nat (of_char c)) w @ [0], length w)),
      argon2_params = (\<lambda>_ _ _ _. Inr ()),
      argon2id = (\<lambda>_ _ _ p s n. Inr (fit n (p @ s))),
      aead_error_text = ''aead::Error''\<rparr>"

lemma demo_bip39: "bip39_ok demo_crates"
proof -
  have "of_nat (of_char (char_of (unat x) :: char)) = x" for x :: u8
  proof -
    have "unat x < 2 ^ LENGTH(8)" by (rule unsigned_less)
    then show ?thesis by simp
  qed
  then show ?thesis by (simp add: bip39_ok_def demo_crates_def comp_def)
qed

theorem recovery_path_witness:
  "\<exists>words wrapped rk'.
     to_mnemonic demo_crates (RecoveryKey (replicate 32 65)) = Inr words \<and> from_mnemonic demo_crates words = Inr rk' \<and>
     wrap_storage_key demo_ext demo_crates (derive_wrapping_key demo_ext (RecoveryKey (replicate 32 65)) (ascii ''alice'')) (zeros 12)
       (replicate 32 9) = Inr wrapped \<and>
     unwrap_storage_key demo_ext demo_crates (derive_wrapping_key demo_ext rk' (ascii ''alice'')) wrapped = Inr (replicate 32 9)"
proof -
  have "length (recovery_key_bytes (RecoveryKey (replicate 32 65))) = 32" "length (replicate 32 (9 :: u8)) = 32" "recovery_nonce (zeros 12)"
    by (simp_all add: recovery_consts)
  from recovery_path [OF demo_chacha demo_bip39 this(1,2,3,3), of "ascii ''alice''" "[]"] show ?thesis by blast
qed

end
