(* ===== verification/Provisioning.thy ===== *)
theory Provisioning
  imports Keys Aead Outcome
begin

text \<open>
  \<open>hushwire/provisioning.rs\<close>: the encrypted transfer of the identity key to a new device, the
  commitment to the primary's ephemeral key, and the verification numbers the user compares.
  Random bytes, and the text of the cipher's error, are arguments.
\<close>

definition PROVISIONING_INFO :: bytes where
  "PROVISIONING_INFO = ascii ''Hushwire-Device-Provisioning-v1''"

definition PUBLIC_KEY_LEN :: nat where
  "PUBLIC_KEY_LEN = 32"

definition PROVISIONING_NONCE_LEN :: nat where
  "PROVISIONING_NONCE_LEN = 12"

definition MIN_PAYLOAD_LEN :: nat where
  "MIN_PAYLOAD_LEN = PUBLIC_KEY_LEN + PROVISIONING_NONCE_LEN + 16"

definition generate_provisioning_keypair :: "ext \<Rightarrow> bytes \<Rightarrow> bytes \<times> bytes" where
  "generate_provisioning_keypair X secret = (secret, x_public X secret)"

definition derive_provisioning_key :: "ext \<Rightarrow> bytes \<Rightarrow> bytes" where
  "derive_provisioning_key X shared_secret = hkdf X (Some (zeros 32)) shared_secret PROVISIONING_INFO 32"

definition encrypt_provisioning_payload :: "ext \<Rightarrow> string \<Rightarrow> bytes \<Rightarrow> bytes \<Rightarrow> bytes \<Rightarrow> bytes \<Rightarrow> bytes res" where
  "encrypt_provisioning_payload X err nonce_bytes primary_secret new_device_public identity_private_key =
     (let shared_secret = x_dh X primary_secret new_device_public
      in if shared_secret = zeros 32 then Inl InvalidKey
         else
           bind_res (to_array (EncryptionFailed ''invalid key length'') 32 (derive_provisioning_key X shared_secret)) (\<lambda>key.
           bind_res (ok_or (EncryptionFailed err) (chacha_seal X key nonce_bytes [] identity_private_key)) (\<lambda>ciphertext.
           Inr (x_public X primary_secret @ nonce_bytes @ ciphertext))))"

definition decrypt_provisioning_payload :: "ext \<Rightarrow> string \<Rightarrow> bytes \<Rightarrow> bytes \<Rightarrow> bytes res" where
  "decrypt_provisioning_payload X err new_device_secret payload =
     (if length payload < MIN_PAYLOAD_LEN then Inl (DecryptionFailed ''provisioning payload too short'')
      else
        bind_res (to_array (DecryptionFailed ''invalid public key'') PUBLIC_KEY_LEN (take PUBLIC_KEY_LEN payload)) (\<lambda>primary_pub.
        bind_res (to_array (DecryptionFailed ''invalid nonce'') PROVISIONING_NONCE_LEN
            (take PROVISIONING_NONCE_LEN (drop PUBLIC_KEY_LEN payload))) (\<lambda>nonce.
        let ciphertext = drop (PUBLIC_KEY_LEN + PROVISIONING_NONCE_LEN) payload;
            shared_secret = x_dh X new_device_secret primary_pub
        in if shared_secret = zeros 32 then Inl InvalidKey
           else
             bind_res (to_array (DecryptionFailed ''invalid key length'') 32 (derive_provisioning_key X shared_secret)) (\<lambda>key.
             ok_or (DecryptionFailed err) (chacha_open X key nonce [] ciphertext)))))"

section \<open>Commitment and verification numbers\<close>

definition PROVISIONING_VERIFICATION_LABEL_V1 :: bytes where
  "PROVISIONING_VERIFICATION_LABEL_V1 = ascii ''hushwire-provisioning-v1''"

definition PROVISIONING_VERIFICATION_LABEL_V2 :: bytes where
  "PROVISIONING_VERIFICATION_LABEL_V2 = ascii ''hushwire-provisioning-v2''"

definition PROVISIONING_COMMITMENT_LABEL :: bytes where
  "PROVISIONING_COMMITMENT_LABEL = ascii ''hushwire-provisioning-commitment-v1''"

definition compute_provisioning_commitment :: "ext \<Rightarrow> bytes \<Rightarrow> bytes" where
  "compute_provisioning_commitment X primary_ephemeral = sha256 X (PROVISIONING_COMMITMENT_LABEL @ primary_ephemeral)"

definition verify_provisioning_commitment :: "ext \<Rightarrow> bytes \<Rightarrow> bytes \<Rightarrow> bool" where
  "verify_provisioning_commitment X commitment primary_ephemeral \<longleftrightarrow>
     commitment = compute_provisioning_commitment X primary_ephemeral"

definition PROVISIONING_VERIFICATION_ITERATIONS :: nat where
  "PROVISIONING_VERIFICATION_ITERATIONS = 5200"

definition validate_key :: "bytes \<Rightarrow> unit res" where
  "validate_key key_bytes =
     (if length key_bytes \<noteq> PUBLIC_KEY_LEN then Inl InvalidKey
      else if list_all (\<lambda>b. b = 0) key_bytes then Inl InvalidKey
      else Inr ())"

fun digest_loop :: "ext \<Rightarrow> bytes \<Rightarrow> bytes \<Rightarrow> nat \<Rightarrow> bytes \<Rightarrow> bytes" where
  "digest_loop X label input 0 digest = digest"
| "digest_loop X label input (Suc n) digest = digest_loop X label input n (sha256 X (label @ digest @ input))"

definition digit_group :: "bytes \<Rightarrow> nat \<Rightarrow> string" where
  "digit_group digest g =
     (let offset = g * 4;
          v = (from_be [digest ! offset, digest ! (offset + 1), digest ! (offset + 2), digest ! (offset + 3)] :: u32) mod 100000
      in (if g > 0 then '' '' else []) @ show_padded 5 (unat v))"

definition iterated_verification :: "ext \<Rightarrow> bytes \<Rightarrow> bytes \<Rightarrow> string" where
  "iterated_verification X label input =
     (let digest = sha256 X (label @ input);
          digest = digest_loop X label input (PROVISIONING_VERIFICATION_ITERATIONS - 1) digest
      in concat (map (digit_group digest) [0..<6]))"

definition compute_provisioning_verification_number :: "ext \<Rightarrow> bytes \<Rightarrow> string res" where
  "compute_provisioning_verification_number X key =
     bind_res (validate_key key) (\<lambda>_. Inr (iterated_verification X PROVISIONING_VERIFICATION_LABEL_V1 key))"

definition compute_two_key_verification_number :: "ext \<Rightarrow> bytes \<Rightarrow> bytes \<Rightarrow> string res" where
  "compute_two_key_verification_number X new_device_ephemeral primary_ephemeral =
     bind_res (validate_key new_device_ephemeral) (\<lambda>_.
     bind_res (validate_key primary_ephemeral) (\<lambda>_.
     Inr (iterated_verification X PROVISIONING_VERIFICATION_LABEL_V2 (new_device_ephemeral @ primary_ephemeral))))"

section \<open>Decimal text\<close>

text \<open>The ASCII digits.\<close>

definition decimal :: "char \<Rightarrow> bool" where
  "decimal c \<longleftrightarrow> 48 \<le> (of_char c :: nat) \<and> (of_char c :: nat) \<le> 57"

lemma decimal_digit: "d < 10 \<Longrightarrow> decimal (digit d)"
  by (simp add: decimal_def digit_def)

lemma show_nat_decimal: "c \<in> set (show_nat n) \<Longrightarrow> decimal c"
proof (induction n rule: show_nat.induct)
  case (1 n)
  then show ?case by (cases "n < 10") (auto simp: show_nat.simps [of n] decimal_digit)
qed

lemma show_nat_length: "n < 10 ^ Suc k \<Longrightarrow> length (show_nat n) \<le> Suc k"
proof (induction k arbitrary: n)
  case 0
  then show ?case by (simp add: show_nat.simps)
next
  case (Suc k)
  then have "n div 10 < 10 ^ Suc k" by (simp add: less_mult_imp_div_less mult.commute)
  from Suc.IH [OF this] show ?case by (subst show_nat.simps) simp
qed

lemma show_padded_text:
  assumes "n < 10 ^ Suc k"
  shows "length (show_padded (Suc k) n) = Suc k" and "c \<in> set (show_padded (Suc k) n) \<Longrightarrow> decimal c"
  using show_nat_length [OF assms] show_nat_decimal decimal_digit [of 0] by (auto simp: show_padded_def Let_def)

definition five_digits :: "string \<Rightarrow> bool" where
  "five_digits s \<longleftrightarrow> length s = 5 \<and> list_all decimal s"

definition verification_text :: "string \<Rightarrow> bool" where
  "verification_text s \<longleftrightarrow> (\<exists>a b c d e f. list_all five_digits [a, b, c, d, e, f] \<and>
     s = a @ '' '' @ b @ '' '' @ c @ '' '' @ d @ '' '' @ e @ '' '' @ f)"

lemma digit_group_text: "\<exists>a. five_digits a \<and> digit_group digest g = (if g > 0 then '' '' else []) @ a"
proof -
  define v where "v = (from_be [digest ! (g * 4), digest ! (g * 4 + 1), digest ! (g * 4 + 2), digest ! (g * 4 + 3)] :: u32)"
  have "unat (v mod 100000) < 10 ^ Suc 4" by (simp add: unat_mod)
  then have "five_digits (show_padded 5 (unat (v mod 100000)))"
    using show_padded_text [of "unat (v mod 100000)" 4] by (simp add: five_digits_def list_all_iff)
  then show ?thesis by (auto simp: digit_group_def v_def Let_def)
qed

lemma groups_text: "verification_text (concat (map (digit_group digest) [0..<6]))"
proof -
  have "\<exists>a. \<forall>g. five_digits (a g) \<and> digit_group digest g = (if g > 0 then '' '' else []) @ a g"
    using digit_group_text by (intro choice allI)
  then obtain a where a: "\<And>g. five_digits (a g)" "\<And>g. digit_group digest g = (if g > 0 then '' '' else []) @ a g" by blast
  have six: "[0..<6] = [0, 1, 2, 3, 4, 5]" by (simp add: upt_rec)
  show ?thesis
    unfolding verification_text_def six
    by (rule exI [of _ "a 0"], rule exI [of _ "a 1"], rule exI [of _ "a 2"], rule exI [of _ "a 3"], rule exI [of _ "a 4"], rule exI [of _ "a 5"])
      (simp add: a)
qed

lemma verification_text_length: "verification_text s \<Longrightarrow> length s = 35"
  by (auto simp: verification_text_def five_digits_def)

definition valid_key :: "bytes \<Rightarrow> bool" where
  "valid_key k \<longleftrightarrow> length k = 32 \<and> k \<noteq> zeros 32"

lemma all_zero: "list_all (\<lambda>b. b = 0) k \<longleftrightarrow> k = zeros (length k)"
  by (induction k) (simp_all add: zeros_def)

lemma validate_key_valid: "validate_key k = (if valid_key k then Inr () else Inl InvalidKey)"
  by (auto simp: validate_key_def valid_key_def PUBLIC_KEY_LEN_def all_zero)

section \<open>Properties\<close>

text \<open>
  C35. Verification numbers. For every pair of 32-byte keys that are not all zero the number has
  its promised type, six groups of five decimal digits with a space between; any other input
  is an invalid key, and never reaches the text. The same holds of the one-key number.
\<close>

theorem verification_number_type:
  "(case compute_provisioning_verification_number X k of
      Inr s \<Rightarrow> valid_key k \<and> verification_text s \<and> length s = 35
    | Inl e \<Rightarrow> \<not> valid_key k \<and> e = InvalidKey) \<and>
   (case compute_two_key_verification_number X k k' of
      Inr s \<Rightarrow> valid_key k \<and> valid_key k' \<and> verification_text s \<and> length s = 35
    | Inl e \<Rightarrow> \<not> (valid_key k \<and> valid_key k') \<and> e = InvalidKey)"
proof -
  have "verification_text (iterated_verification X l i)" for l i by (simp add: iterated_verification_def Let_def groups_text)
  then show ?thesis
    using verification_text_length
    by (simp add: compute_provisioning_verification_number_def compute_two_key_verification_number_def validate_key_valid)
qed

text \<open>
  C34. Device linking. The identity key the primary encrypts for the new device's public key
  arrives unchanged, in a payload of 60 bytes more; the ephemeral key in the payload is the
  one that its commitment opens to; a payload below the minimum is refused; and whatever
  the new device accepts was encrypted under the key it shares with the holder of the
  ephemeral key in front of the payload.
\<close>

theorem provisioning_transfer:
  assumes "x25519_ok X" "chacha_ok X" "hash_lens X" and "length nonce = 12"
    and "x_dh X primary (x_public X device) \<noteq> zeros 32"
  shows "(\<exists>payload. encrypt_provisioning_payload X err nonce primary (x_public X device) identity = Inr payload \<and>
      decrypt_provisioning_payload X err device payload = Inr identity \<and>
      length payload = 60 + length identity \<and>
      verify_provisioning_commitment X (compute_provisioning_commitment X (x_public X primary)) (take 32 payload)) \<and>
    (length p < 60 \<longrightarrow> decrypt_provisioning_payload X err device p = Inl (DecryptionFailed ''provisioning payload too short'')) \<and>
    (decrypt_provisioning_payload X err device p = Inr m \<longrightarrow>
      x_dh X device (take 32 p) \<noteq> zeros 32 \<and>
      chacha_seal X (derive_provisioning_key X (x_dh X device (take 32 p))) (take 12 (drop 32 p)) [] m = Some (drop 44 p))"
proof -
  have dh: "x_dh X device (x_public X primary) = x_dh X primary (x_public X device)" by (rule x25519D(1) [OF assms(1)])
  have len: "length (x_public X primary) = 32" by (rule x25519D(2) [OF assms(1)])
  have key: "length (derive_provisioning_key X s) = 32" for s using assms(3) by (simp add: derive_provisioning_key_def hash_lens_def)
  note sizes = PUBLIC_KEY_LEN_def PROVISIONING_NONCE_LEN_def MIN_PAYLOAD_LEN_def
  obtain c where c: "chacha_seal X (derive_provisioning_key X (x_dh X primary (x_public X device))) nonce [] identity = Some c"
    using chachaD(1) [OF assms(2)] by blast
  then have "\<exists>payload. encrypt_provisioning_payload X err nonce primary (x_public X device) identity = Inr payload \<and>
      decrypt_provisioning_payload X err device payload = Inr identity \<and>
      length payload = 60 + length identity \<and>
      verify_provisioning_commitment X (compute_provisioning_commitment X (x_public X primary)) (take 32 payload)"
    using chachaD(2,3) [OF assms(2) c] assms(4,5) dh len key
    by (simp add: encrypt_provisioning_payload_def decrypt_provisioning_payload_def verify_provisioning_commitment_def to_array_def sizes Let_def)
  moreover have "x_dh X device (take 32 p) \<noteq> zeros 32 \<and>
      chacha_seal X (derive_provisioning_key X (x_dh X device (take 32 p))) (take 12 (drop 32 p)) [] m = Some (drop 44 p)"
    if "decrypt_provisioning_payload X err device p = Inr m"
    using that chachaD(4) [OF assms(2)]
    by (auto simp: decrypt_provisioning_payload_def outcome_iffs sizes Let_def split: if_splits)
  ultimately show ?thesis by (simp add: decrypt_provisioning_payload_def sizes)
qed

theorem provisioning_transfer_witness:
  "\<exists>payload. encrypt_provisioning_payload demo_ext [] (zeros 12) (replicate 32 1) (x_public demo_ext (replicate 32 2)) (replicate 32 9) = Inr payload \<and>
     decrypt_provisioning_payload demo_ext [] (replicate 32 2) payload = Inr (replicate 32 9) \<and> length payload = 92"
proof -
  have "length (zeros 12) = 12" "x_dh demo_ext (replicate 32 1) (x_public demo_ext (replicate 32 2)) \<noteq> zeros 32" by code_simp+
  from provisioning_transfer [OF demo_x25519 demo_chacha demo_hash_lens this, THEN conjunct1, of "[]" "replicate 32 9"]
  show ?thesis by auto
qed

end
