(* ===== verification/Trust.thy ===== *)
theory Trust
  imports Certificate Outcome Field_Codec
begin

text \<open>
  \<open>hushwire/trust_root.rs\<close> and \<open>hushwire/envelope.rs\<close>: the server's trust root with its two
  implementations of the trait \<open>TrustRoot\<close>, and the verification of signed envelopes against it.
  The serde format of a 32-byte array is a codec parameter; the clock and the callback that
  checks the sender's signature are arguments.
\<close>

section \<open>The trait\<close>

text \<open>
  A trust root gives its key bytes and can be written and read back. What is read back is
  well-formed and has the same key.
\<close>

locale trust_root =
  fixes ok :: "'x \<Rightarrow> bool"
    and wf :: "'x \<Rightarrow> 't \<Rightarrow> bool"
    and key_bytes :: "'t \<Rightarrow> bytes"
    and store :: "'x \<Rightarrow> 't \<Rightarrow> string + bytes"
    and load :: "'x \<Rightarrow> bytes \<Rightarrow> string + 't"
  assumes store_total: "ok X \<Longrightarrow> \<exists>b. store X t = Inr b"
    and load_store: "ok X \<Longrightarrow> wf X t \<Longrightarrow> store X t = Inr b \<Longrightarrow> load X b = Inr t"
    and load_wf: "load X b = Inr t \<Longrightarrow> wf X t"
    and same_key: "ok X \<Longrightarrow> store X t = store X t' \<Longrightarrow> key_bytes t = key_bytes t'"
begin

lemma stored: "ok X \<Longrightarrow> wf X t \<Longrightarrow> \<exists>b. store X t = Inr b \<and> load X b = Inr t"
  using store_total load_store by blast

lemma reread: "ok X \<Longrightarrow> load X b = Inr t \<Longrightarrow> store X t = Inr b' \<Longrightarrow> load X b' = Inr t"
  using load_store load_wf by blast

end

section \<open>The two trust roots\<close>

datatype ed25519_trust_root = Ed25519TrustRoot (verifying_key: bytes)

definition ed25519_trust_root_new :: "bytes \<Rightarrow> ed25519_trust_root" where
  "ed25519_trust_root_new vk = Ed25519TrustRoot vk"

text \<open>\<open>err\<close> is the text of the signature crate's error.\<close>

definition ed25519_trust_root_from_bytes :: "ext \<Rightarrow> string \<Rightarrow> bytes \<Rightarrow> string + ed25519_trust_root" where
  "ed25519_trust_root_from_bytes X err bs = (if ed_point X bs then Inr (Ed25519TrustRoot bs) else Inl err)"

definition ed25519_public_key_bytes :: "ed25519_trust_root \<Rightarrow> bytes" where
  "ed25519_public_key_bytes t = verifying_key t"

definition ed25519_trust_root_serialize :: "bytes codec \<Rightarrow> ed25519_trust_root \<Rightarrow> string + bytes" where
  "ed25519_trust_root_serialize c t = enc c (verifying_key t)"

definition ed25519_trust_root_deserialize :: "ext \<Rightarrow> string \<Rightarrow> bytes codec \<Rightarrow> bytes \<Rightarrow> string + ed25519_trust_root" where
  "ed25519_trust_root_deserialize X err c b =
     (case dec c b of Inl e \<Rightarrow> Inl e | Inr bs \<Rightarrow> ed25519_trust_root_from_bytes X err bs)"

datatype mock_trust_root = MockTrustRoot (mock_bytes: bytes)

definition mock_trust_root_new :: "bytes \<Rightarrow> mock_trust_root" where
  "mock_trust_root_new bs = MockTrustRoot bs"

definition mock_zeroed :: mock_trust_root where
  "mock_zeroed = MockTrustRoot (zeros 32)"

definition mock_public_key_bytes :: "mock_trust_root \<Rightarrow> bytes" where
  "mock_public_key_bytes t = mock_bytes t"

definition mock_trust_root_serialize :: "bytes codec \<Rightarrow> mock_trust_root \<Rightarrow> string + bytes" where
  "mock_trust_root_serialize c t = enc c (mock_bytes t)"

definition mock_trust_root_deserialize :: "bytes codec \<Rightarrow> bytes \<Rightarrow> string + mock_trust_root" where
  "mock_trust_root_deserialize c b = (case dec c b of Inl e \<Rightarrow> Inl e | Inr bs \<Rightarrow> Inr (mock_trust_root_new bs))"

lemma codec_inject: "codec_ok c \<Longrightarrow> enc c x = enc c y \<Longrightarrow> x = y"
  unfolding codec_ok_def by (metis Inr_inject)

interpretation ed25519_root: trust_root
  "\<lambda>(X, c). codec_ok c" "\<lambda>(X, c) t. ed_point X (verifying_key t)" ed25519_public_key_bytes
  "\<lambda>(X, c). ed25519_trust_root_serialize c" "\<lambda>(X, c). ed25519_trust_root_deserialize X err c" for err
  by unfold_locales
    (auto simp: ed25519_trust_root_serialize_def ed25519_trust_root_deserialize_def ed25519_trust_root_from_bytes_def ed25519_public_key_bytes_def
      codec_ok_enc codec_okD codec_inject split: sum.splits if_splits)

interpretation mock_root: trust_root
  codec_ok "\<lambda>_ _. True" mock_public_key_bytes mock_trust_root_serialize mock_trust_root_deserialize
  by unfold_locales
    (auto simp: mock_trust_root_serialize_def mock_trust_root_deserialize_def mock_public_key_bytes_def mock_trust_root_new_def
      codec_ok_enc codec_okD codec_inject split: sum.splits)

section \<open>Envelopes\<close>

type_synonym i64 = "64 word"

record envelope_verification_input =
  cert_signing_bytes :: bytes
  cert_server_signature :: bytes
  cert_expires_at_epoch_secs :: i64
  cert_user_id :: bytes
  envelope_sender_id :: bytes
  envelope_signing_bytes :: bytes
  sender_identity_key :: bytes
  sender_signature :: bytes

definition verify_envelope ::
  "ext \<Rightarrow> envelope_verification_input \<Rightarrow> bytes \<Rightarrow> (bytes \<Rightarrow> bytes \<Rightarrow> bytes \<Rightarrow> bool) \<Rightarrow> bool \<Rightarrow> i64 \<Rightarrow> unit res" where
  "verify_envelope X inp server_key verify_sender_sig check_expiry now =
     bind_res (to_array InvalidSignature 64 (cert_server_signature inp)) (\<lambda>cert_sig.
     if \<not> ed_verify X server_key (cert_signing_bytes inp) cert_sig then Inl (InvalidCertificate ''invalid server signature'')
     else if check_expiry \<and> sint (cert_expires_at_epoch_secs inp) \<le> sint now then Inl ExpiredCertificate
     else if cert_user_id inp \<noteq> envelope_sender_id inp
     then Inl (InvalidCertificate ''certificate user_id does not match sender_id'')
     else if \<not> verify_sender_sig (sender_identity_key inp) (envelope_signing_bytes inp) (sender_signature inp) then Inl InvalidSignature
     else Inr ())"

lemma verify_envelope_Inr:
  "verify_envelope X inp key cb chk now = Inr () \<longleftrightarrow>
     length (cert_server_signature inp) = 64 \<and> ed_verify X key (cert_signing_bytes inp) (cert_server_signature inp) \<and>
     (chk \<longrightarrow> sint now < sint (cert_expires_at_epoch_secs inp)) \<and> cert_user_id inp = envelope_sender_id inp \<and>
     cb (sender_identity_key inp) (envelope_signing_bytes inp) (sender_signature inp)"
  by (auto simp: verify_envelope_def outcome_iffs)

section \<open>Properties\<close>

text \<open>
  C36. The chain of trust of an envelope. With a trust root read back from storage, an
  envelope is accepted exactly when the server's signature covers the certificate, the
  certificate has not expired (where expiry is checked), its user is the claimed sender and
  the sender's signature covers the payload. The stored root is the one that was
  written; bytes that are no curve point never become a trust root; an envelope accepted
  once is accepted at every earlier time and from history.
\<close>

theorem envelope_chain:
  assumes "codec_ok c" and "ed_point X key"
  shows "\<exists>b. ed25519_trust_root_serialize c (ed25519_trust_root_new key) = Inr b \<and>
    (\<exists>t. ed25519_trust_root_deserialize X err c b = Inr t \<and>
      (\<forall>inp cb chk now.
        (verify_envelope X inp (ed25519_public_key_bytes t) cb chk now = Inr () \<longleftrightarrow>
          length (cert_server_signature inp) = 64 \<and> ed_verify X key (cert_signing_bytes inp) (cert_server_signature inp) \<and>
          (chk \<longrightarrow> sint now < sint (cert_expires_at_epoch_secs inp)) \<and> cert_user_id inp = envelope_sender_id inp \<and>
          cb (sender_identity_key inp) (envelope_signing_bytes inp) (sender_signature inp)) \<and>
        (\<forall>now'. verify_envelope X inp (ed25519_public_key_bytes t) cb True now = Inr () \<and> sint now' \<le> sint now \<longrightarrow>
          verify_envelope X inp (ed25519_public_key_bytes t) cb chk now' = Inr ()))) \<and>
    (\<forall>b t. ed25519_trust_root_deserialize X err c b = Inr t \<longrightarrow> ed_point X (ed25519_public_key_bytes t))"
proof -
  obtain b where b: "ed25519_trust_root_serialize c (ed25519_trust_root_new key) = Inr b"
    "ed25519_trust_root_deserialize X err c b = Inr (ed25519_trust_root_new key)"
    using ed25519_root.stored [of "(X, c)" "ed25519_trust_root_new key" err] assms by (auto simp: ed25519_trust_root_new_def)
  have "\<forall>b t. ed25519_trust_root_deserialize X err c b = Inr t \<longrightarrow> ed_point X (ed25519_public_key_bytes t)"
    using ed25519_root.load_wf [of err "(X, c)"] by (simp add: ed25519_public_key_bytes_def)
  then show ?thesis
    using b verify_envelope_Inr [of X]
    by (intro exI [of _ b] conjI exI [of _ "ed25519_trust_root_new key"] allI)
      (auto simp: ed25519_public_key_bytes_def ed25519_trust_root_new_def)
qed

definition demo_envelope :: envelope_verification_input where
  "demo_envelope =
     \<lparr>cert_signing_bytes = [1], cert_server_signature = ed_sign demo_ext (replicate 32 1) [1], cert_expires_at_epoch_secs = 10,
      cert_user_id = [7], envelope_sender_id = [7], envelope_signing_bytes = [2], sender_identity_key = [3], sender_signature = [4]\<rparr>"

definition demo_bytes_codec :: "bytes codec" where
  "demo_bytes_codec = field_codec (\<lambda>b. [b]) (\<lambda>fs. Some (hd fs))"

theorem envelope_chain_witness:
  "\<exists>b t. ed25519_trust_root_serialize demo_bytes_codec (ed25519_trust_root_new (ed_public demo_ext (replicate 32 1))) = Inr b \<and>
     ed25519_trust_root_deserialize demo_ext [] demo_bytes_codec b = Inr t \<and>
     verify_envelope demo_ext demo_envelope (ed25519_public_key_bytes t) (\<lambda>k d s. s = [4]) True 9 = Inr ()"
proof -
  have c: "codec_ok demo_bytes_codec" unfolding demo_bytes_codec_def by (rule field_codec_ok) simp
  have p: "ed_point demo_ext (ed_public demo_ext (replicate 32 1))" by (rule ed25519D(2) [OF demo_ed25519])
  from envelope_chain [OF c p, of "[]"] show ?thesis
  proof (elim exE conjE, goal_cases)
    case (1 b t)
    have "verify_envelope demo_ext demo_envelope (ed25519_public_key_bytes t) (\<lambda>k d s. s = [4]) True 9 = Inr ()"
      unfolding 1(4) [THEN spec, THEN spec, THEN spec, THEN spec, THEN conjunct1, of demo_envelope "\<lambda>k d s. s = [4]" True 9]
      by (simp add: demo_envelope_def ed25519D [OF demo_ed25519])
    with 1 show ?case by blast
  qed
qed

end
