(* ===== verification/Braid_Sizes.thy ===== *)
theory Braid_Sizes
  imports Braid_Local
begin

text \<open>
  The \<open>expect\<close> and slice panics of the braid are unreachable, whatever a peer sends: every
  decoder a state holds was made for the length the state machine later splits at, and
  only ever collects full codewords, so a completed message has exactly that length.
\<close>

section \<open>Panics\<close>

fun panics :: "'a res \<Rightarrow> bool" where
  "panics (Inl (Panic _)) = True"
| "panics _ = False"

lemma panics_Inr [simp]: "\<not> panics (Inr x)"
  by simp

lemma panics_Inl: "panics (Inl e) \<longleftrightarrow> (\<exists>m. e = Panic m)"
  by (cases e) auto

text \<open>Documented of \<open>reed-solomon-simd\<close>: restored shards are as long as the ones supplied.\<close>

definition rs_sized :: "ext \<Rightarrow> bool" where
  "rs_sized X \<longleftrightarrow>
     (\<forall>k r present recovery m n. rs_decode X k r present recovery = Inr m \<longrightarrow>
        (\<forall>(i, v) \<in> set present \<union> set recovery. length v = n) \<longrightarrow>
        (\<forall>(i, v) \<in> set m. length v = n))"

lemma demo_rs_sized: "rs_sized demo_ext"
  by (force simp: rs_sized_def demo_ext_def split_beta split: if_splits dest!: hd_in_set)

section \<open>Decoders\<close>

definition sized_decoder :: "nat \<Rightarrow> decoder \<Rightarrow> bool" where
  "sized_decoder n d \<longleftrightarrow>
     dec_len d = n \<and> data_shards d = data_shards_for n \<and>
     (\<forall>(i, v) \<in> set (received d). length v = CHUNK_BYTES)"

lemma sized_decoder_new [simp]: "sized_decoder n (decoder_new n)"
  by (simp add: sized_decoder_def decoder_new_def)

lemma sized_decoder_reset [simp]: "sized_decoder n d \<Longrightarrow> sized_decoder n (decoder_reset d)"
  by (simp add: sized_decoder_def decoder_reset_def)

lemma sized_add_chunk:
  assumes "sized_decoder n d" and "add_chunk d c = Inr d'"
  shows "sized_decoder n d'"
  using assms set_btree_insert_pairs [of "chunk_index c" "chunk_data c" "received d"]
  by (fastforce simp: sized_decoder_def add_chunk_def split: if_splits option.splits)

lemma sized_add_msg_chunk:
  "sized_decoder n d \<Longrightarrow> add_msg_chunk d msg = Inr d' \<Longrightarrow> sized_decoder n d'"
  by (auto simp: add_msg_chunk_def split: option.splits intro: sized_add_chunk)

lemma length_gather:
  assumes "gather rcv restored is = Inr out"
    and "\<forall>(i, v) \<in> set rcv. length v = n" and "\<forall>(i, v) \<in> set restored. length v = n"
  shows "length out = length is * n"
  using assms
proof (induction rcv restored "is" arbitrary: out rule: gather.induct)
  case (2 rcv restored i "is")
  then show ?case
    by (fastforce split: option.splits sum.splits dest!: map_of_SomeD)
qed simp

lemma restored_sized:
  assumes "rs_sized X" and "sized_decoder n d" and "restored_shards X d = Inr m"
  shows "\<forall>(i, v) \<in> set m. length v = CHUNK_BYTES"
  using assms unfolding restored_shards_def Let_def
  apply (auto split: if_splits sum.splits)
  apply (unfold rs_sized_def sized_decoder_def)
  apply (elim allE impE, assumption)
   apply auto
  done

lemma decoder_message_length:
  assumes "rs_sized X" and "sized_decoder n d" and "decoder_message X d = Inr (Some m)"
  shows "length m = n"
proof -
  obtain restored out where r: "restored_shards X d = Inr restored"
    and g: "gather (received d) restored [0..<data_shards d] = Inr out"
    and m: "m = take (dec_len d) out"
    using assms(3) by (auto simp: decoder_message_def split: if_splits sum.splits)
  have "length out = data_shards d * CHUNK_BYTES"
    using length_gather [OF g _ restored_sized [OF assms(1,2) r]] assms(2) by (simp add: sized_decoder_def)
  with m assms(2) data_shards_for_ge [of n] show ?thesis by (simp add: sized_decoder_def)
qed

lemma decoder_message_no_panic: "\<not> panics (decoder_message X d)"
proof -
  have g: "\<not> panics (gather rcv restored is)" for rcv restored "is"
    by (induction rcv restored "is" rule: gather.induct)
      (auto simp: erasure_err_def panics_Inl split: option.splits sum.splits)
  show ?thesis
    using g [of "received d"]
    by (auto simp: decoder_message_def restored_shards_def Let_def erasure_err_def panics_Inl
        split: sum.splits if_splits; metis panics_Inl)
qed

section \<open>States\<close>

text \<open>What the states that split a completed message need of their decoder.\<close>

fun state_sized :: "ext \<Rightarrow> state \<Rightarrow> bool" where
  "state_sized X (EkSentCt1Received _ _ _ _ ct2_dec) = sized_decoder (ct2_len X + MAC_SIZE) ct2_dec"
| "state_sized X (NoHeaderReceived _ _ hdr_dec) = sized_decoder (pk1_len X + MAC_SIZE) hdr_dec"
| "state_sized X _ = True"

lemma encoder_new_no_panic: "encoder_new X data \<noteq> Inl (Panic m)"
  by (auto simp: encoder_new_def erasure_err_def Let_def split: sum.splits)

lemma add_msg_chunk_no_panic: "add_msg_chunk d msg \<noteq> Inl (Panic m)"
  by (auto simp: add_msg_chunk_def add_chunk_def proto_err_def erasure_err_def split: option.splits)

lemma kem_no_panic:
  "public_key_parts X kp \<noteq> Inl (Panic m)" "validate_public_key X pk1 pk2 \<noteq> Inl (Panic m)"
  "encapsulate1 X pk1 r \<noteq> Inl (Panic m)" "encapsulate2 X st pk2 \<noteq> Inl (Panic m)"
  "decapsulate X kp ct1 ct2 \<noteq> Inl (Panic m)" "build_ct2_encoder X a e st pk2 ct1 \<noteq> Inl (Panic m)"
proof -
  show e: "encapsulate2 X st pk2 \<noteq> Inl (Panic m)"
    by (simp add: encapsulate2_def size_err_def)
  show "build_ct2_encoder X a e st pk2 ct1 \<noteq> Inl (Panic m)"
    using e by (auto simp: build_ct2_encoder_def Let_def encoder_new_no_panic split: sum.splits)
qed (auto simp: public_key_parts_def validate_public_key_def encapsulate1_def decapsulate_def
    kem_err_def size_err_def split: sum.splits)

lemma decoder_message_not_Panic: "decoder_message X d \<noteq> Inl (Panic m)"
  using decoder_message_no_panic [of X d] by auto

lemmas braid_no_panic = encoder_new_no_panic add_msg_chunk_no_panic kem_no_panic decoder_message_not_Panic

lemma state_send_no_panic: "state_send X rng st \<noteq> Inl (Panic m)"
  by (cases st) (auto simp: send_defs msg_defs Let_def split_beta braid_no_panic proto_err_def
      split: sum.splits)

lemma state_send_sized:
  "state_send X rng st = Inr (st', out) \<Longrightarrow> state_sized X st \<Longrightarrow> state_sized X st'"
  by (cases st) (auto simp: send_defs Let_def split_beta split: sum.splits)

lemma sized_add_reset:
  "sized_decoder n d \<Longrightarrow> add_msg_chunk d msg = Inr d' \<Longrightarrow> sized_decoder n (decoder_reset d')"
  using sized_add_msg_chunk by simp

lemma state_receive_sized:
  assumes "state_receive X st msg = Inr (st', out)" and "state_sized X st"
  shows "state_sized X st'"
  using assms
  by (cases st)
    (simp_all add: recv_defs Let_def split: if_splits sum.splits option.splits prod.splits;
      fastforce intro: sized_add_msg_chunk [OF sized_decoder_new] sized_add_msg_chunk sized_add_reset)+

lemma split_at_sized:
  assumes "rs_sized X" and "sized_decoder (k + n) d" and "decoder_message X d = Inr (Some m)"
  shows "split_at k m \<noteq> Inl e"
  using decoder_message_length [OF assms] by (simp add: split_at_def)

lemma state_receive_no_panic:
  assumes "rs_sized X" and "state_sized X st"
  shows "state_receive X st msg \<noteq> Inl (Panic m)"
  using assms(2)
  by (cases st)
    (auto simp: recv_defs Let_def braid_no_panic
      split: sum.splits option.splits
      dest: sized_add_msg_chunk split_at_sized [OF assms(1)])

lemma braid_send_sized:
  "state_sized X (braid_phase b) \<Longrightarrow> state_sized X (braid_phase (fst (braid_send X rng b)))"
  by (cases "braid_send X rng b"; cases "snd (braid_send X rng b)"; simp only: fst_conv snd_conv)
    (auto simp: braid_send_Inr braid_send_Inl intro: state_send_sized)

lemma braid_receive_sized:
  "state_sized X (braid_phase b) \<Longrightarrow> state_sized X (braid_phase (fst (braid_receive X b msg)))"
  by (cases "braid_receive X b msg"; cases "snd (braid_receive X b msg)"; simp only: fst_conv snd_conv)
    (auto simp: braid_receive_Inr braid_receive_Inl intro: state_receive_sized)

lemma braid_send_no_panic: "snd (braid_send X rng b) \<noteq> Inl (Panic m)"
  by (cases "braid_send X rng b") (auto simp: braid_send_Inl state_send_no_panic)

lemma braid_receive_no_panic:
  "rs_sized X \<Longrightarrow> state_sized X (braid_phase b) \<Longrightarrow> snd (braid_receive X b msg) \<noteq> Inl (Panic m)"
  by (cases "braid_receive X b msg") (auto simp: braid_receive_Inl state_receive_no_panic)

end
