(* ===== verification/Braid_Wedge.thy ===== *)
theory Braid_Wedge
  imports Braid_Sizes
begin

text \<open>
  The codewords of the encapsulation key are not authenticated one by one, and the decoder
  that collects them keeps the first codeword of every index. The decoders of the header and
  of the second ciphertext are emptied when what they yield does not verify; the one of the
  key is not, so a single forged codeword that arrives first stays in it for good.
\<close>

section \<open>A decoder with a forged codeword\<close>

abbreviation block_of :: "bytes \<Rightarrow> nat \<Rightarrow> bytes" where
  "block_of m i \<equiv> take CHUNK_BYTES (drop (i * CHUNK_BYTES) m)"

definition holds_garbage :: "bytes \<Rightarrow> decoder \<Rightarrow> bool" where
  "holds_garbage ek d \<longleftrightarrow>
     (\<exists>i v. map_of (received d) (of_nat i) = Some v \<and> i < data_shards d \<and>
        Suc i * CHUNK_BYTES \<le> length ek \<and> v \<noteq> block_of ek i)"

lemma gather_block:
  assumes "gather rcv restored is = Inr out" and "i < length is" and "map_of rcv (of_nat (is ! i)) = Some v"
    and "\<forall>(i, v) \<in> set rcv. length v = n" and "\<forall>(i, v) \<in> set restored. length v = n"
  shows "take n (drop (i * n) out) = v"
  using assms
proof (induction rcv restored "is" arbitrary: i out rule: gather.induct)
  case (2 rcv restored j js)
  from "2.prems"(1) obtain bs rest where
    b: "(case map_of rcv (of_nat j) of Some d \<Rightarrow> Some d | None \<Rightarrow> map_of restored j) = Some bs"
    and r: "gather rcv restored js = Inr rest" and out: "out = bs @ rest"
    by (auto split: option.splits sum.splits)
  from b "2.prems"(4,5) have len: "length bs = n" by (fastforce split: option.splits dest: map_of_SomeD)
  show ?case
  proof (cases i)
    case 0
    then show ?thesis using b out len "2.prems"(3) by simp
  next
    case (Suc k)
    have "take n (drop (k * n) rest) = v"
      using "2.IH" [OF _ r] "2.prems"(2-5) Suc b by (auto split: option.splits)
    then show ?thesis using out len Suc by simp
  qed
qed simp

lemma garbage_never_decodes:
  assumes "rs_sized X" and "sized_decoder (length ek) d" and "holds_garbage ek d"
  shows "decoder_message X d \<noteq> Inr (Some ek)"
proof
  assume m: "decoder_message X d = Inr (Some ek)"
  obtain restored out where r: "restored_shards X d = Inr restored"
    and g: "gather (received d) restored [0..<data_shards d] = Inr out"
    and ek: "ek = take (dec_len d) out"
    using m by (auto simp: decoder_message_def split: if_splits sum.splits)
  obtain i v where i: "map_of (received d) (of_nat i) = Some v" "i < data_shards d"
    "Suc i * CHUNK_BYTES \<le> length ek" "v \<noteq> block_of ek i"
    using assms(3) by (auto simp: holds_garbage_def)
  have "block_of out i = v"
    using gather_block [OF g _ _ _ restored_sized [OF assms(1,2) r], of i v] i assms(2)
    by (simp add: sized_decoder_def)
  moreover have "block_of out i = block_of ek i"
    using i(3) ek by (auto simp: take_drop min_def add.commute split: if_splits)
  ultimately show False using i(4) by simp
qed

lemma add_msg_chunk_keeps_garbage:
  assumes "holds_garbage ek d" and "add_msg_chunk d m = Inr d'"
  shows "holds_garbage ek d'"
  using assms
  by (fastforce simp: holds_garbage_def add_msg_chunk_def add_chunk_def split: option.splits if_splits)

section \<open>A wedged party\<close>

text \<open>The header pins the key: no other bytes pass the check against it.\<close>

definition pins :: "ext \<Rightarrow> bytes \<Rightarrow> bytes \<Rightarrow> bool" where
  "pins X header ek \<longleftrightarrow> (\<forall>v. validate_public_key X header v = Inr () \<longrightarrow> v = ek)"

definition stuck_on :: "ext \<Rightarrow> bytes \<Rightarrow> decoder \<Rightarrow> bool" where
  "stuck_on X header d \<longleftrightarrow> (\<exists>ek. pins X header ek \<and> sized_decoder (length ek) d \<and> holds_garbage ek d)"

fun wedged :: "ext \<Rightarrow> state \<Rightarrow> bool" where
  "wedged X (Ct1Sampled _ _ header _ _ _ ek_dec) = stuck_on X header ek_dec"
| "wedged X (Ct1Acknowledged _ _ _ header _ ek_dec) = stuck_on X header ek_dec"
| "wedged X _ = False"

lemma stuck_on_rejects:
  assumes "rs_sized X" and "stuck_on X header d" and "decoder_message X d = Inr (Some v)"
  shows "validate_public_key X header v \<noteq> Inr ()"
  using assms garbage_never_decodes by (auto simp: stuck_on_def pins_def)

lemma stuck_on_add:
  "stuck_on X header d \<Longrightarrow> add_msg_chunk d m = Inr d' \<Longrightarrow> stuck_on X header d'"
  unfolding stuck_on_def using add_msg_chunk_keeps_garbage sized_add_msg_chunk by blast

lemma state_send_wedged:
  "wedged X st \<Longrightarrow> state_send X rng st = Inr (st', m, out) \<Longrightarrow>
   wedged X st' \<and> state_epoch st' = state_epoch st \<and> out = None"
  by (cases st) (auto simp: send_defs msg_defs Let_def split_beta)

lemma state_receive_wedged:
  assumes "rs_sized X" and "wedged X st" and "state_receive X st m = Inr (st', out)"
  shows "wedged X st' \<and> state_epoch st' = state_epoch st \<and> out = None"
  using assms(2,3)
  by (cases st)
    (auto simp: recv_defs Let_def split: if_splits sum.splits option.splits
      dest: stuck_on_add stuck_on_rejects [OF assms(1)])

section \<open>Property\<close>

datatype braid_call = CallSend "nat \<Rightarrow> bytes" | CallReceive message

fun braid_apply :: "ext \<Rightarrow> braid_call \<Rightarrow> braid_state \<Rightarrow> braid_state" where
  "braid_apply X (CallSend rng) b = fst (braid_send X rng b)"
| "braid_apply X (CallReceive m) b = fst (braid_receive X b m)"

lemma braid_call_wedged:
  assumes "rs_sized X" and "wedged X (braid_phase b)"
  shows "wedged X (braid_phase (braid_apply X c b)) \<and>
    state_epoch (braid_phase (braid_apply X c b)) = state_epoch (braid_phase b)"
proof (cases c)
  case (CallSend rng)
  obtain b' r where br: "braid_send X rng b = (b', r)" by (metis surj_pair)
  show ?thesis
  proof (cases r)
    case (Inl e)
    then show ?thesis using br CallSend assms(2) braid_send_Inl [of X rng b b' e] by simp
  next
    case (Inr out)
    then have "state_send X rng (braid_phase b) = Inr (braid_phase b', send_msg out, send_output_key out)"
      using br braid_send_Inr [of X rng b b' out] by simp
    with state_send_wedged [OF assms(2) this] br CallSend show ?thesis by simp
  qed
next
  case (CallReceive m)
  obtain b' r where br: "braid_receive X b m = (b', r)" by (metis surj_pair)
  show ?thesis
  proof (cases r)
    case (Inl e)
    then show ?thesis using br CallReceive assms(2) braid_receive_Inl [of X b m b' e] by simp
  next
    case (Inr out)
    then have "state_receive X (braid_phase b) m = Inr (braid_phase b', recv_output_key out)"
      using br braid_receive_Inr [of X b m b' out] by simp
    with state_receive_wedged [OF assms this] br CallReceive show ?thesis by simp
  qed
qed

lemma braid_calls_wedged:
  assumes "rs_sized X" and "wedged X (braid_phase b)"
  shows "wedged X (braid_phase (fold (braid_apply X) calls b)) \<and>
    state_epoch (braid_phase (fold (braid_apply X) calls b)) = state_epoch (braid_phase b)"
  using assms(2) braid_call_wedged [OF assms(1)] by (induction calls arbitrary: b) auto

lemma length_btree_insert_le: "length (btree_insert k v m) \<le> Suc (length m)"
  by (induction k v m rule: btree_insert.induct) auto

lemma forged_codeword_sticks:
  assumes "sized_decoder (length ek) d" and "length (chunk_data c) = CHUNK_BYTES"
    and "map_of (received d) (chunk_index c) = None"
    and "Suc (unat (chunk_index c)) * CHUNK_BYTES \<le> length ek"
    and "chunk_data c \<noteq> block_of ek (unat (chunk_index c))" and "msg_chunk m = Some c"
  shows "\<exists>d'. add_msg_chunk d m = Inr d' \<and> sized_decoder (length ek) d' \<and> holds_garbage ek d' \<and>
    length (received d') \<le> Suc (length (received d)) \<and> data_shards d' = data_shards d"
proof -
  have "unat (chunk_index c) < data_shards d"
    using assms(1,4) data_shards_for_ge [of "length ek"]
    by (simp add: sized_decoder_def CHUNK_BYTES_def)
  then have "add_msg_chunk d m = Inr (d\<lparr>received := btree_insert (chunk_index c) (chunk_data c) (received d)\<rparr>)"
    using assms(2,3,6) by (simp add: add_msg_chunk_def add_chunk_def total_shards_def)
  moreover from this have "sized_decoder (length ek) (d\<lparr>received := btree_insert (chunk_index c) (chunk_data c) (received d)\<rparr>)"
    using sized_add_msg_chunk [OF assms(1)] by blast
  moreover have "length (btree_insert (chunk_index c) (chunk_data c) (received d)) \<le> Suc (length (received d))"
    by (rule length_btree_insert_le)
  ultimately show ?thesis
    using assms(4,5) \<open>unat (chunk_index c) < data_shards d\<close>
    by (auto simp: holds_garbage_def intro!: exI [of _ "unat (chunk_index c)"])
qed

text \<open>
  C30. One forged key codeword stalls the braid. Suppose a party waiting for the encapsulation
  key takes in one codeword with the wrong bytes, early enough not to complete the key. Then
  whatever arrives afterwards, every honest codeword included, and whatever it sends, the party
  never accepts the key and never leaves the epoch: unlike those of the header and of the
  ciphertext, this decoder is not emptied when its content fails the check. (The header pins
  the key: other bytes do not pass the check against it.)
\<close>

theorem braid_forged_key_stalls:
  assumes "rs_sized X" and "pins X header ek"
    and "braid_phase b = Ct1Sampled epoch auth header encaps_secret ct1 ct1_enc d"
    and "sized_decoder (length ek) d" and "Suc (length (received d)) < data_shards d"
    and "length (chunk_data c) = CHUNK_BYTES"
    and "map_of (received d) (chunk_index c) = None"
    and "Suc (unat (chunk_index c)) * CHUNK_BYTES \<le> length ek"
    and "chunk_data c \<noteq> block_of ek (unat (chunk_index c))"
  shows "state_epoch (braid_phase (fold (braid_apply X) calls (fst (braid_receive X b (message_carrying epoch Ek c))))) = epoch \<and>
    (\<forall>e a k t ek' enc'. braid_phase (fold (braid_apply X) calls (fst (braid_receive X b (message_carrying epoch Ek c))))
       \<notin> {EkReceivedCt1Sampled e a k t ek' enc', Ct2Sampled e a enc'})"
proof -
  let ?m = "message_carrying epoch Ek c"
  have "msg_chunk ?m = Some c" by (simp add: message_carrying_def)
  then obtain d' where d': "add_msg_chunk d ?m = Inr d'" "sized_decoder (length ek) d'" "holds_garbage ek d'"
    "length (received d') \<le> Suc (length (received d))" "data_shards d' = data_shards d"
    using forged_codeword_sticks [OF assms(4,6-9)] by blast
  then have "decoder_message X d' = Inr None" using assms(5) by (simp add: decoder_message_def has_message_def)
  then have "state_receive X (braid_phase b) ?m = Inr (Ct1Sampled epoch auth header encaps_secret ct1 ct1_enc d', None)"
    using assms(3) d'(1) by (simp add: recv_ct1_sampled_def message_carrying_def)
  then have p: "braid_phase (fst (braid_receive X b ?m)) = Ct1Sampled epoch auth header encaps_secret ct1 ct1_enc d'"
    by (simp add: braid_receive_def transition_def Let_def)
  then have "wedged X (braid_phase (fst (braid_receive X b (message_carrying epoch Ek c))))"
    using d'(2,3) assms(2) by (auto simp: stuck_on_def)
  from braid_calls_wedged [OF assms(1) this, of calls] p show ?thesis by auto
qed

definition demo_two_block_ext :: ext where
  "demo_two_block_ext = demo_ext\<lparr>kem_pk2_len := 64,
     kem_validate := (\<lambda>_ v. if v = replicate 64 7 then Inr () else Inl ''InvalidPublicKey'')\<rparr>"

theorem braid_forged_key_stalls_witness:
  "state_epoch (braid_phase (fold (braid_apply demo_two_block_ext)
      [CallReceive (message_carrying 1 Ek \<lparr>chunk_index = 0, chunk_data = replicate 32 7\<rparr>),
       CallReceive (message_carrying 1 EkCt1Ack \<lparr>chunk_index = 1, chunk_data = replicate 32 7\<rparr>)]
      (fst (braid_receive demo_two_block_ext
         \<lparr>braid_phase = Ct1Sampled 1 (auth_init demo_two_block_ext 1 []) [] [] [] \<lparr>shards = [], cursor = 0\<rparr> (decoder_new 64)\<rparr>
         (message_carrying 1 Ek \<lparr>chunk_index = 0, chunk_data = replicate 32 9\<rparr>))))) = 1"
proof -
  have "rs_sized demo_two_block_ext"
    using demo_rs_sized by (simp add: rs_sized_def demo_two_block_ext_def)
  moreover have "pins demo_two_block_ext [] (replicate 64 7)"
    by (simp add: pins_def validate_public_key_def demo_two_block_ext_def split: if_splits)
  moreover have "Suc (length (received (decoder_new 64))) < data_shards (decoder_new 64)"
    by (simp add: decoder_new_def data_shards_for_def div_ceil_def CHUNK_BYTES_def)
  moreover have "sized_decoder (length (replicate 64 (7 :: u8))) (decoder_new 64)" by simp
  ultimately have "state_epoch (braid_phase (fold (braid_apply demo_two_block_ext) calls
      (fst (braid_receive demo_two_block_ext
         \<lparr>braid_phase = Ct1Sampled 1 (auth_init demo_two_block_ext 1 []) [] [] [] \<lparr>shards = [], cursor = 0\<rparr> (decoder_new 64)\<rparr>
         (message_carrying 1 Ek \<lparr>chunk_index = 0, chunk_data = replicate 32 9\<rparr>))))) = 1" for calls
    using braid_forged_key_stalls [of demo_two_block_ext "[]" "replicate 64 7"
        "\<lparr>braid_phase = Ct1Sampled 1 (auth_init demo_two_block_ext 1 []) [] [] [] \<lparr>shards = [], cursor = 0\<rparr> (decoder_new 64)\<rparr>"
        1 "auth_init demo_two_block_ext 1 []" "[]" "[]" "\<lparr>shards = [], cursor = 0\<rparr>" "decoder_new 64"
        "\<lparr>chunk_index = 0, chunk_data = replicate 32 9\<rparr>"]
    by (simp only: braid_state.select_convs chunk.select_convs) (simp add: CHUNK_BYTES_def decoder_new_def)
  then show ?thesis .
qed

end
