(* ===== verification/Session_Life.thy ===== *)
theory Session_Life
  imports Session_Contract Braid_Sizes
begin

text \<open>
  A session under arbitrary input: \<open>session_life X H s\<close> says that \<open>s\<close> is reached from one
  of the three constructors by calls of the session's own methods, each with any message,
  any identity keys and any random bytes, forged ones included; failed calls count. No
  panic of the code is reachable in such a life.
\<close>

inductive session_life :: "ext \<Rightarrow> message_header codec \<Rightarrow> ratchet_session \<Rightarrow> bool" for X H where
  life_alice: "session_life X H (initialize_alice X dh ss bob_dh)"
| life_alice_prekey: "session_life X H (initialize_alice_with_prekey X dh ss bob_dh initial)"
| life_bob: "session_life X H (initialize_bob X ss keypair)"
| life_encrypt: "session_life X H s \<Longrightarrow> session_life X H (fst (encrypt X H rng nonce pt a b s))"
| life_encrypt_message:
    "session_life X H s \<Longrightarrow> session_life X H (fst (encrypt_message X H rng nonce pt a b s))"
| life_encrypt_prekey:
    "session_life X H s \<Longrightarrow> session_life X H (fst (encrypt_prekey_message X H rng nonce pt a b initial s))"
| life_decrypt: "session_life X H s \<Longrightarrow> session_life X H (fst (decrypt X H new_dh msg a b s))"

section \<open>The post-quantum half\<close>

abbreviation spqr_sized :: "ext \<Rightarrow> spqr_state \<Rightarrow> bool" where
  "spqr_sized X s \<equiv> state_sized X (braid_phase (spqr_braid s))"

lemma spqr_init_sized: "spqr_sized X (spqr_init X ss d)"
  by (simp add: spqr_init_def Let_def split_beta init_sender_def init_receiver_def split: direction.splits)

text \<open>Only the braid's own send and receive touch it.\<close>

lemma spqr_braid_kept [simp]:
  "spqr_braid (fst (add_epoch X e k s)) = spqr_braid s"
  "spqr_braid (clear_old_epochs se s) = spqr_braid s"
  "spqr_braid (drop_previous_send se s) = spqr_braid s"
  "spqr_braid (fst (take_send_key X se s)) = spqr_braid s"
  "spqr_braid (fst (derive_receive_key X e n s)) = spqr_braid s"
  using derive_receive_key_moved [of s X e n]
  by (auto simp: add_epoch_def clear_old_epochs_def drop_previous_send_def take_send_key_def
      only_recv_moved_def Let_def split_beta split: option.splits)

lemmas spqr_error_defs = non_consecutive_error_def no_chain_error_def replay_error_def mismatch_error_def

lemma spqr_steps_no_panic:
  "snd (add_epoch X e k s) \<noteq> Inl (Panic m)" "snd (take_send_key X e s) \<noteq> Inl (Panic m)"
  "snd (skip_message_keys X e n s) \<noteq> Inl (Panic m)" "snd (advance_recv X e n s) \<noteq> Inl (Panic m)"
  by (auto simp: add_epoch_def take_send_key_def skip_message_keys_def advance_recv_def spqr_error_defs
      Let_def split_beta split: option.splits)

lemma derive_receive_key_no_panic: "snd (derive_receive_key X e n s) \<noteq> Inl (Panic m)"
proof -
  let ?t = "fst (try_skipped e n s)"
  let ?k = "skip_message_keys X e (saturating_sub n 1) ?t"
  have "snd (derive_receive_key X e n s) \<in>
      {snd (advance_recv X e n (fst ?k))} \<union> range Inr \<union> range (\<lambda>c. Inl (replay_error e n c)) \<union>
      {Inl er | er. snd ?k = Inl er}"
    by (auto simp: derive_receive_key_def Let_def split: prod.splits option.splits sum.splits if_splits)
  then show ?thesis
    using spqr_steps_no_panic(3) [of X e "saturating_sub n 1" ?t m]
      spqr_steps_no_panic(4) [of X e n "fst ?k" m]
    by (auto simp: spqr_error_defs)
qed

text \<open>The secret a send brings in, and the key it then takes.\<close>

definition send_absorbed :: "ext \<Rightarrow> scka_send \<Rightarrow> spqr_state \<Rightarrow> spqr_state \<times> unit res" where
  "send_absorbed X sent s =
     (case send_output_key sent of
        None \<Rightarrow> (s, Inr ())
      | Some es \<Rightarrow>
          (case add_epoch X (es_epoch es) (es_secret es) s of
             (s, Inl e) \<Rightarrow> (s, Inl e)
           | (s, Inr _) \<Rightarrow> (clear_old_epochs (sending_epoch sent) s, Inr ())))"

lemma send_absorbed_keeps:
  "spqr_braid (fst (send_absorbed X sent s)) = spqr_braid s" (is ?braid)
  "snd (send_absorbed X sent s) \<noteq> Inl (Panic m)" (is ?calm)
proof -
  have "?braid \<and> ?calm"
  proof (cases "send_output_key sent")
    case (Some es)
    obtain t u where tu: "add_epoch X (es_epoch es) (es_secret es) s = (t, u)" by (metis surj_pair)
    then have "spqr_braid t = spqr_braid s" "u \<noteq> Inl (Panic m)"
      using spqr_braid_kept(1) [of X "es_epoch es" "es_secret es" s]
        spqr_steps_no_panic(1) [of X "es_epoch es" "es_secret es" s m] by simp_all
    then show ?thesis using Some tu by (cases u) (simp_all add: send_absorbed_def)
  qed (simp add: send_absorbed_def)
  then show ?braid ?calm by simp_all
qed

lemma ratchet_send_key_cases:
  obtains (braid) e where "snd (braid_send X rng (spqr_braid s)) = Inl e"
      "ratchet_send_key X rng s = (s\<lparr>spqr_braid := fst (braid_send X rng (spqr_braid s))\<rparr>, Inl e)"
  | (absorb) sent e t where
      "send_absorbed X sent (s\<lparr>spqr_braid := fst (braid_send X rng (spqr_braid s))\<rparr>) = (t, Inl e)"
      "ratchet_send_key X rng s = (t, Inl e)"
  | (take_key) sent t where
      "send_absorbed X sent (s\<lparr>spqr_braid := fst (braid_send X rng (spqr_braid s))\<rparr>) = (t, Inr ())"
      "ratchet_send_key X rng s =
         map_prod id (map_sum id (Pair (send_msg sent)))
           (take_send_key X (sending_epoch sent) (drop_previous_send (sending_epoch sent) t))"
proof -
  obtain b r where br: "braid_send X rng (spqr_braid s) = (b, r)" by (metis surj_pair)
  show ?thesis
  proof (cases r)
    case (Inl e)
    then show ?thesis using br by (intro braid) (simp_all add: ratchet_send_key_def)
  next
    case (Inr sent)
    obtain t u where tu: "send_absorbed X sent (s\<lparr>spqr_braid := b\<rparr>) = (t, u)" by (metis surj_pair)
    have k: "ratchet_send_key X rng s =
        (case u of
           Inl e \<Rightarrow> (t, Inl e)
         | Inr _ \<Rightarrow> (case take_send_key X (sending_epoch sent) (drop_previous_send (sending_epoch sent) t) of
             (s, Inl e) \<Rightarrow> (s, Inl e)
           | (s, Inr (pq_n, pq_mk)) \<Rightarrow> (s, Inr (send_msg sent, pq_n, pq_mk))))"
      using br Inr tu by (simp add: ratchet_send_key_def send_absorbed_def Let_def)
    show ?thesis
    proof (cases u)
      case (Inl e)
      then show ?thesis using k tu br by (intro absorb [of sent t e]) simp_all
    next
      case (Inr x)
      then show ?thesis using k tu br
        by (intro take_key [of sent t]) (auto split: prod.splits sum.splits)
    qed
  qed
qed

lemma ratchet_send_key_braid:
  "spqr_braid (fst (ratchet_send_key X rng s)) = fst (braid_send X rng (spqr_braid s))"
proof (cases rule: ratchet_send_key_cases [of X rng s])
  case (absorb sent e t)
  then show ?thesis
    using send_absorbed_keeps(1) [of X sent "s\<lparr>spqr_braid := fst (braid_send X rng (spqr_braid s))\<rparr>"] by simp
next
  case (take_key sent t)
  then show ?thesis
    using send_absorbed_keeps(1) [of X sent "s\<lparr>spqr_braid := fst (braid_send X rng (spqr_braid s))\<rparr>"] by simp
qed simp

lemma ratchet_send_key_no_panic: "snd (ratchet_send_key X rng s) \<noteq> Inl (Panic m)"
proof (cases rule: ratchet_send_key_cases [of X rng s])
  case (braid e)
  then show ?thesis using braid_send_no_panic by auto
next
  case (absorb sent e t)
  then show ?thesis
    using send_absorbed_keeps(2) [of X sent "s\<lparr>spqr_braid := fst (braid_send X rng (spqr_braid s))\<rparr>" m] by simp
next
  case (take_key sent t)
  then show ?thesis
    using spqr_steps_no_panic(2) [of X "sending_epoch sent" "drop_previous_send (sending_epoch sent) t" m]
    by (cases "snd (take_send_key X (sending_epoch sent) (drop_previous_send (sending_epoch sent) t))") auto
qed

lemma ratchet_receive_key_braid:
  "spqr_braid (fst (ratchet_receive_key X msg n s)) = fst (braid_receive X (spqr_braid s) msg)"
proof -
  obtain b r where br: "braid_receive X (spqr_braid s) msg = (b, r)" by (metis surj_pair)
  have add: "add_epoch X e k (s\<lparr>spqr_braid := b\<rparr>) = (t, u) \<Longrightarrow> spqr_braid t = b" for e k t u
    using spqr_braid_kept(1) [of X e k "s\<lparr>spqr_braid := b\<rparr>"] by simp
  show ?thesis
    using br by (auto simp: ratchet_receive_key_def Let_def dest: add split: sum.splits option.splits prod.splits)
qed

lemma ratchet_receive_key_no_panic:
  assumes "rs_sized X" and "spqr_sized X s"
  shows "snd (ratchet_receive_key X msg n s) \<noteq> Inl (Panic m)"
proof -
  obtain b r where br: "braid_receive X (spqr_braid s) msg = (b, r)" by (metis surj_pair)
  with braid_receive_no_panic [OF assms, of msg m] have "r \<noteq> Inl (Panic m)" by simp
  moreover have "add_epoch X e k t \<noteq> (u, Inl (Panic m))" for e k t u
    using spqr_steps_no_panic(1) [of X e k t m] by auto
  ultimately show ?thesis
    using br by (auto simp: ratchet_receive_key_def Let_def derive_receive_key_no_panic
        split: sum.splits option.splits prod.splits)
qed

section \<open>The whole session\<close>

lemma resolve_ec_key_no_panic: "snd (resolve_ec_key X d h s) \<noteq> Inl (Panic m)"
proof -
  have skip: "skip_receiving_messages X n t \<noteq> (u, Inl (Panic m))" for n t u
    by (auto simp: skip_receiving_messages_def Let_def split_beta split: option.splits)
  have "ratchet_if_new X d h t \<noteq> (u, Inl (Panic m))" for t u
    using skip by (auto simp: ratchet_if_new_def Let_def split: prod.splits sum.splits option.splits)
  moreover have "snd (take_receiving_key X n t) \<noteq> Inl (Panic m)" for n t
    using skip by (auto simp: take_receiving_key_def Let_def split: prod.splits sum.splits option.splits)
  ultimately show ?thesis
    by (auto simp: resolve_ec_key_def split: prod.splits sum.splits option.splits)
qed

abbreviation valid_identity :: "ext \<Rightarrow> identity_public_key \<Rightarrow> bool" where
  "valid_identity X pk \<equiv> ed_point X (identity_public_bytes pk)"

lemma aead_no_panic: "aead_encrypt X k n pt ad \<noteq> Inl (Panic m)" "aead_decrypt X k ct ad \<noteq> Inl (Panic m)"
  by (auto simp: aead_encrypt_def aead_decrypt_def Let_def split: option.splits)

lemma build_ad_valid:
  "valid_identity X a \<Longrightarrow> valid_identity X b \<Longrightarrow> \<exists>ad. build_ad X a b h = Inr ad"
  by (simp add: build_ad_def to_x25519_def)

lemma seal_message_no_panic:
  assumes "codec_ok H" and "valid_identity X a" and "valid_identity X b"
  shows "seal_message X H nonce pt a b h ec pq \<noteq> Inl (Panic m)"
proof -
  obtain hb where hb: "header_serialize H h = Inr hb" using header_round_trip [OF assms(1)] by blast
  obtain ad where "build_ad X a b hb = Inr ad" using build_ad_valid [OF assms(2,3)] by blast
  with hb show ?thesis by (auto simp: seal_message_def Let_def aead_no_panic split: sum.splits)
qed

lemma unpad_no_panic: "unpad bs \<noteq> Inl (Panic m)"
proof -
  have "unpad_from bs n \<noteq> Inl (Panic m)" for n
    by (induction bs n rule: unpad_from.induct) auto
  then show ?thesis by (simp add: unpad_def)
qed

lemma open_message_no_panic: "open_message X ad ct ec pq \<noteq> Inl (Panic m)"
  by (auto simp: open_message_def Let_def aead_no_panic unpad_no_panic split: sum.splits)

lemma encrypt_raw_spqr: "rs_spqr (fst (encrypt_raw X H rng nonce pt a b s)) = fst (ratchet_send_key X rng (rs_spqr s))"
  by (auto simp: encrypt_raw_def Let_def split_beta split: prod.splits sum.splits option.splits)

lemma decrypt_spqr:
  "rs_spqr (fst (decrypt X H d msg a b s)) \<in>
     insert (rs_spqr s) (range (\<lambda>h :: message_header. fst (ratchet_receive_key X (h_braid_msg h) (h_pq_message_number h) (rs_spqr s))))"
proof (cases "header_deserialize H (rm_header msg)")
  case (Inr h)
  obtain t r where tr: "resolve_ec_key X d h s = (t, r)" by (metis surj_pair)
  then have "rs_spqr t = rs_spqr s" using resolve_ec_key_spqr by (metis fst_conv)
  then have "rs_spqr (fst (decrypt X H d msg a b s)) \<in>
      {rs_spqr s, fst (ratchet_receive_key X (h_braid_msg h) (h_pq_message_number h) (rs_spqr s))}"
    using Inr tr
    by (cases r; cases "build_ad X a b (rm_header msg)") (auto simp: decrypt_def split: prod.splits sum.splits)
  then show ?thesis by auto
qed (simp add: decrypt_def)

lemma session_life_sized: "session_life X H s \<Longrightarrow> spqr_sized X (rs_spqr s)"
proof (induction rule: session_life.induct)
  case (life_encrypt s rng nonce pt a b)
  then show ?case
    by (simp add: encrypt_def encrypt_raw_spqr ratchet_send_key_braid braid_send_sized)
next
  case (life_encrypt_message s rng nonce pt a b)
  have "rs_spqr (fst (encrypt_message X H rng nonce pt a b s)) = rs_spqr (fst (encrypt_raw X H rng nonce pt a b s))"
    by (auto simp: encrypt_message_def split: prod.splits sum.splits option.splits)
  with life_encrypt_message show ?case
    by (simp add: encrypt_raw_spqr ratchet_send_key_braid braid_send_sized)
next
  case (life_encrypt_prekey s rng nonce pt a b initial)
  have "fst (encrypt_prekey_message X H rng nonce pt a b initial s) = fst (encrypt X H rng nonce pt a b s)"
    by (auto simp: encrypt_prekey_message_def split: prod.splits sum.splits)
  with life_encrypt_prekey show ?case
    by (simp add: encrypt_def encrypt_raw_spqr ratchet_send_key_braid braid_send_sized)
next
  case (life_decrypt s new_dh msg a b)
  from decrypt_spqr [of X H new_dh msg a b s] show ?case
  proof (rule insertE)
    assume "rs_spqr (fst (decrypt X H new_dh msg a b s)) = rs_spqr s"
    with life_decrypt show ?case by simp
  next
    assume "rs_spqr (fst (decrypt X H new_dh msg a b s)) \<in>
      range (\<lambda>h :: message_header. fst (ratchet_receive_key X (h_braid_msg h) (h_pq_message_number h) (rs_spqr s)))"
    with life_decrypt.IH show ?case
      by (elim rangeE) (simp only: ratchet_receive_key_braid braid_receive_sized)
  qed
qed (simp_all add: initialize_alice_def initialize_alice_with_prekey_def initialize_bob_def Let_def
    spqr_new_sender_def spqr_new_receiver_def spqr_init_sized)

lemma decrypt_no_panic:
  assumes "rs_sized X" and "spqr_sized X (rs_spqr s)" and "valid_identity X a" and "valid_identity X b"
  shows "snd (decrypt X H d msg a b s) \<noteq> Inl (Panic m)"
proof (cases "header_deserialize H (rm_header msg)")
  case (Inl e)
  then show ?thesis by (auto simp: decrypt_def header_deserialize_def split: sum.splits)
next
  case (Inr h)
  obtain ad where ad: "build_ad X a b (rm_header msg) = Inr ad" using build_ad_valid [OF assms(3,4)] by blast
  obtain t r where tr: "resolve_ec_key X d h s = (t, r)" by (metis surj_pair)
  then have t: "rs_spqr t = rs_spqr s" "r \<noteq> Inl (Panic m)"
    using resolve_ec_key_spqr resolve_ec_key_no_panic by (metis fst_conv, metis snd_conv)
  show ?thesis
    using Inr ad tr t ratchet_receive_key_no_panic [OF assms(1,2), of "h_braid_msg h" "h_pq_message_number h" m]
    by (auto simp: decrypt_def open_message_no_panic split: prod.splits sum.splits)
qed

lemma encrypt_raw_no_panic:
  assumes "codec_ok H" and "valid_identity X a" and "valid_identity X b"
  shows "snd (encrypt_raw X H rng nonce pt a b s) \<noteq> Inl (Panic m)"
proof -
  obtain q r where qr: "ratchet_send_key X rng (rs_spqr s) = (q, r)" by (metis surj_pair)
  then have "r \<noteq> Inl (Panic m)" using ratchet_send_key_no_panic by (metis snd_conv)
  then show ?thesis
    using qr by (auto simp: encrypt_raw_def Let_def split_beta seal_message_no_panic [OF assms]
        split: prod.splits sum.splits option.splits)
qed

lemma encrypt_message_no_panic:
  assumes "codec_ok H" and "valid_identity X a" and "valid_identity X b"
  shows "snd (encrypt_message X H rng nonce pt a b s) \<noteq> Inl (Panic m)"
proof -
  obtain t r where tr: "encrypt_raw X H rng nonce pt a b s = (t, r)" by (metis surj_pair)
  then have "r \<noteq> Inl (Panic m)" using encrypt_raw_no_panic [OF assms] by (metis snd_conv)
  then show ?thesis using tr by (auto simp: encrypt_message_def split: sum.splits option.splits)
qed

lemma process_initial_message_no_panic:
  "valid_identity X (im_identity_key im) \<Longrightarrow> process_initial_message X bob spk opk dk im \<noteq> Inl (Panic m)"
  by (auto simp: process_initial_message_def to_x25519_def Let_def split: option.splits)

lemma decrypt_prekey_message_no_panic:
  assumes "rs_sized X" and "valid_identity X (pm_identity_key msg)" and "valid_identity X (public_key X us)"
  shows "decrypt_prekey_message X H d msg us spk spk_pub opk seed \<noteq> Inl (Panic m)"
proof -
  have bob: "spqr_sized X (rs_spqr (initialize_bob X ss kp))" for ss kp
    using session_life_sized [OF life_bob] .
  have dec: "decrypt X H d msg' a b (initialize_bob X ss kp) \<noteq> (t, Inl (Panic m))"
    if "valid_identity X a" "valid_identity X b" for msg' a b ss kp t
    using decrypt_no_panic [OF assms(1) bob that, where H = H and d = d and msg = msg' and m = m] by (metis snd_conv)
  show ?thesis
    using assms(2,3) process_initial_message_no_panic [where X = X and m = m]
    by (auto simp: decrypt_prekey_message_def Let_def dec split: sum.splits prod.splits)
qed

section \<open>Property\<close>

lemma not_panicsI: "(\<And>m. r \<noteq> Inl (Panic m)) \<Longrightarrow> \<not> panics r"
  by (cases r) (auto simp: panics_Inl)

text \<open>
  C6. No panic from the network. Whatever a session has been through, forged and failed
  messages included, decrypting any message, encrypting any plaintext and accepting any first
  message never reach one of the panics of the code: the slice splits of the braid, the
  \<open>expect\<close> on the header encoding, the \<open>expect\<close> on an identity key, as long as the identity
  keys are the validated points their type stands for.
\<close>

theorem session_never_panics:
  assumes "session_life X H s" and "rs_sized X" and "codec_ok H"
    and "valid_identity X them" and "valid_identity X (public_key X us)"
  shows "\<not> panics (snd (decrypt X H new_dh msg them (public_key X us) s)) \<and>
    \<not> panics (snd (encrypt_message X H rng nonce plaintext (public_key X us) them s)) \<and>
    (pm_identity_key first = them \<longrightarrow>
       \<not> panics (decrypt_prekey_message X H new_dh first us spk spk_public opk kyber_seed))"
proof (intro conjI impI not_panicsI)
  note sized = session_life_sized [OF assms(1)]
  show "snd (decrypt X H new_dh msg them (public_key X us) s) \<noteq> Inl (Panic m)" for m
    by (rule decrypt_no_panic [OF assms(2) sized assms(4,5)])
  show "snd (encrypt_message X H rng nonce plaintext (public_key X us) them s) \<noteq> Inl (Panic m)" for m
    by (rule encrypt_message_no_panic [OF assms(3,5,4)])
  show "decrypt_prekey_message X H new_dh first us spk spk_public opk kyber_seed \<noteq> Inl (Panic m)"
    if "pm_identity_key first = them" for m
    using decrypt_prekey_message_no_panic [OF assms(2) _ assms(5)] assms(4) that by blast
qed

theorem session_never_panics_witness:
  "\<not> panics (snd (decrypt demo_ext demo_header_codec [] \<lparr>rm_header = [1], rm_ciphertext = []\<rparr>
      (IdentityPublicKey []) (public_key demo_ext demo_bob)
      (fst (decrypt demo_ext demo_header_codec [] \<lparr>rm_header = [1, 1, 0], rm_ciphertext = [5]\<rparr>
        (IdentityPublicKey [7]) (IdentityPublicKey [8]) (initialize_bob demo_ext (zeros 32) ([], []))))))"
proof -
  have "session_life demo_ext demo_header_codec
      (fst (decrypt demo_ext demo_header_codec [] \<lparr>rm_header = [1, 1, 0], rm_ciphertext = [5]\<rparr>
        (IdentityPublicKey [7]) (IdentityPublicKey [8]) (initialize_bob demo_ext (zeros 32) ([], []))))"
    by (intro session_life.intros)
  from session_never_panics [OF this demo_rs_sized demo_header_codec_ok, of "IdentityPublicKey []" demo_bob]
  show ?thesis by (simp add: demo_ext_def)
qed

end
