(* ===== verification/Session_Forgery.thy ===== *)
theory Session_Forgery
  imports Session_Life
begin

text \<open>
  What a message that fails authentication does to a session. The header is acted on before
  the AEAD tag is checked, and an error does not undo it: the session a call leaves behind
  does not depend on the ciphertext, so a header that anyone can write moves the ratchet.
\<close>

lemma decrypt_ignores_ciphertext:
  "fst (decrypt X H d (msg\<lparr>rm_ciphertext := c\<rparr>) a b s) = fst (decrypt X H d msg a b s)"
  by (auto simp: decrypt_def split: sum.splits prod.splits)

text \<open>A header that the skip bound lets through to the ratchet step.\<close>

definition reaches_ratchet :: "message_header \<Rightarrow> ratchet_session \<Rightarrow> bool" where
  "reaches_ratchet h s \<longleftrightarrow>
     rs_dh_remote s \<noteq> Some (h_dh_public_key h) \<and>
     map_of (rs_skipped s) (h_message_number h, dh_public_key_bytes (h_dh_public_key h)) = None \<and>
     (case rs_receiving_chain s of
        None \<Rightarrow> True
      | Some c \<Rightarrow> h_previous_chain_length h < cs_message_number c \<or>
                  h_previous_chain_length h - cs_message_number c \<le> MAX_SKIP)"

definition same_ratchet :: "ratchet_session \<Rightarrow> ratchet_session \<Rightarrow> bool" where
  "same_ratchet s t \<longleftrightarrow>
     rs_dh_remote s = rs_dh_remote t \<and> rs_dh_self s = rs_dh_self t \<and> rs_root_key s = rs_root_key t \<and>
     rs_sending_chain s = rs_sending_chain t"

lemma skip_receiving_same_ratchet: "same_ratchet (fst (skip_receiving_messages X n s)) s"
  by (simp add: skip_receiving_messages_def same_ratchet_def Let_def split_beta split: option.splits)

lemma take_receiving_same_ratchet: "same_ratchet (fst (take_receiving_key X n s)) s"
proof -
  obtain c where "fst (take_receiving_key X n s) = (fst (skip_receiving_messages X n s))\<lparr>rs_receiving_chain := c\<rparr>"
    using take_receiving_key_cases by blast
  then show ?thesis using skip_receiving_same_ratchet [of X n s] by (simp add: same_ratchet_def)
qed

lemma ratchet_if_new_step:
  assumes "reaches_ratchet h s"
  shows "\<exists>t. same_ratchet t s \<and> ratchet_if_new X d h s = (perform_dh_ratchet_step X d h t, Inr ())"
proof -
  have "snd (skip_receiving_messages X (h_previous_chain_length h) s) = Inr ()"
    using assms
    by (auto simp: reaches_ratchet_def skip_receiving_messages_def Let_def split_beta not_less split: option.splits)
  then have "skip_receiving_messages X (h_previous_chain_length h) s
      = (fst (skip_receiving_messages X (h_previous_chain_length h) s), Inr ())"
    by (simp add: prod_eq_iff)
  then show ?thesis
    using assms skip_receiving_same_ratchet [of X "h_previous_chain_length h" s]
    by (intro exI [of _ "fst (skip_receiving_messages X (h_previous_chain_length h) s)"] conjI)
      (auto simp: ratchet_if_new_def reaches_ratchet_def Let_def split: option.splits prod.splits)
qed

lemma decrypt_after_ratchet:
  assumes "header_deserialize H (rm_header msg) = Inr h" and "valid_identity X a" and "valid_identity X b"
    and "reaches_ratchet h s"
  shows "\<exists>t. same_ratchet t s \<and> same_ratchet (fst (decrypt X H d msg a b s)) (perform_dh_ratchet_step X d h t)"
proof -
  obtain ad where ad: "build_ad X a b (rm_header msg) = Inr ad" using build_ad_valid [OF assms(2,3)] by blast
  obtain t where t: "same_ratchet t s" "ratchet_if_new X d h s = (perform_dh_ratchet_step X d h t, Inr ())"
    using ratchet_if_new_step [OF assms(4)] by blast
  let ?p = "perform_dh_ratchet_step X d h t"
  have r: "resolve_ec_key X d h s = take_receiving_key X (h_message_number h) ?p"
    using assms(4) t(2) by (simp add: resolve_ec_key_def try_remove_by_dh_def reaches_ratchet_def)
  obtain u k where u: "take_receiving_key X (h_message_number h) ?p = (u, k)" by (metis surj_pair)
  have "same_ratchet (fst (decrypt X H d msg a b s)) u"
    using assms(1) ad r u
    by (cases k) (simp_all add: decrypt_def same_ratchet_def split_beta split: sum.splits)
  with take_receiving_same_ratchet [of X "h_message_number h" ?p] u t(1) show ?thesis
    by (intro exI [of _ t]) (simp add: same_ratchet_def)
qed

text \<open>
  C8. A forged header moves the ratchet. For any message whose header carries a ratchet key
  the session has not seen, whatever its ciphertext and although the call then fails, the
  session is left on the ratchet of that header: its remote key is the one of the header, its
  own ratchet key is replaced, and its root and sending chain are derived from both. The peer,
  who never sent that key, has neither.
\<close>

theorem session_forgery_ratchets:
  assumes "header_deserialize H (rm_header msg) = Inr h"
    and "valid_identity X them" and "valid_identity X us" and "reaches_ratchet h s"
  shows "let s' = fst (decrypt X H new_dh (msg\<lparr>rm_ciphertext := c\<rparr>) them us s);
             forged = dh_public_key_bytes (h_dh_public_key h);
             rk = kdf_rk X (rs_root_key s) (x_dh X (rs_dh_self s) forged);
             rk2 = kdf_rk X (rk_root_key rk) (x_dh X new_dh forged)
         in rs_dh_remote s' = Some (h_dh_public_key h) \<and> rs_dh_self s' = new_dh \<and>
            rs_root_key s' = rk_root_key rk2 \<and> rs_sending_chain s' = Some (chain_new (rk_chain_key rk2))"
proof -
  obtain t where "same_ratchet t s"
    "same_ratchet (fst (decrypt X H new_dh msg them us s)) (perform_dh_ratchet_step X new_dh h t)"
    using decrypt_after_ratchet [OF assms] by blast
  then show ?thesis
    by (simp add: decrypt_ignores_ciphertext Let_def same_ratchet_def perform_dh_ratchet_step_def)
qed

definition demo_forged_header :: message_header where
  "demo_forged_header =
     \<lparr>h_dh_public_key = DhPublicKey (replicate 32 9), h_previous_chain_length = 0, h_message_number = 0,
      h_braid_msg = message_idle 1, h_pq_message_number = 1\<rparr>"

theorem session_forgery_ratchets_witness:
  "\<exists>hb. header_serialize demo_header_codec demo_forged_header = Inr hb \<and>
     rs_dh_remote (initialize_alice demo_ext (replicate 32 1) (zeros 32) (replicate 32 2)) = Some (DhPublicKey (replicate 32 2)) \<and>
     rs_dh_remote (fst (decrypt demo_ext demo_header_codec (replicate 32 5) \<lparr>rm_header = hb, rm_ciphertext = []\<rparr>
       (IdentityPublicKey (zeros 32)) (IdentityPublicKey (zeros 32))
       (initialize_alice demo_ext (replicate 32 1) (zeros 32) (replicate 32 2)))) = Some (DhPublicKey (replicate 32 9))"
proof -
  let ?alice = "initialize_alice demo_ext (replicate 32 1) (zeros 32) (replicate 32 2)"
  obtain hb where hb: "header_serialize demo_header_codec demo_forged_header = Inr hb"
    "header_deserialize demo_header_codec hb = Inr demo_forged_header"
    using header_round_trip [OF demo_header_codec_ok] by blast
  have "reaches_ratchet demo_forged_header ?alice"
    by (simp add: reaches_ratchet_def demo_forged_header_def initialize_alice_def skipped_new_def Let_def)
  moreover have "valid_identity demo_ext (IdentityPublicKey (zeros 32))" by (simp add: demo_ext_def)
  ultimately show ?thesis
    using hb session_forgery_ratchets [of demo_header_codec "\<lparr>rm_header = hb, rm_ciphertext = []\<rparr>" demo_forged_header
        demo_ext "IdentityPublicKey (zeros 32)" "IdentityPublicKey (zeros 32)" ?alice "replicate 32 5" "[]"]
    by (simp add: Let_def demo_forged_header_def initialize_alice_def)
qed

end
