(* ===== verification/Stores.thy ===== *)
theory Stores
  imports Keys
begin

text \<open>
  \<open>protocol/stores.rs\<close>: what the application must persist. The record types are records; a
  trait is the record of its methods over the type \<open>'s\<close> of its implementation, which is
  outside the crate. A \<open>&self\<close> method reads the store, a \<open>&mut self\<close> method returns the
  store it leaves behind; awaiting a method is calling it. What the comments of a trait
  promise is its law (\<open>..._store_ok\<close>); an in-memory implementation shows each law can hold.
\<close>

section \<open>Records\<close>

datatype store_direction = Sending | Receiving

record pre_key_record =
  pkr_id :: pre_key_id
  pkr_public_key :: dh_public_key
  pkr_private_key :: bytes

record signed_pre_key_record =
  spr_id :: signed_pre_key_id
  spr_public_key :: dh_public_key
  spr_private_key :: bytes
  spr_signature :: bytes
  spr_timestamp :: timestamp

record kyber_pre_key_record =
  kpr_id :: kyber_pre_key_id
  kpr_public_key :: bytes
  kpr_secret_key :: bytes
  kpr_signature :: bytes
  kpr_timestamp :: timestamp
  kpr_is_last_resort :: bool

record session_record =
  sess_data :: bytes
  sess_previous_states :: "bytes list"

record sender_key_record =
  skr_data :: bytes

record sesame_user_record =
  sur_data :: bytes

section \<open>Traits\<close>

record 's identity_key_store =
  get_identity_key_pair :: "'s \<Rightarrow> identity_key_pair res"
  get_local_registration_id :: "'s \<Rightarrow> registration_id res"
  save_identity :: "protocol_address \<Rightarrow> identity_public_key \<Rightarrow> 's \<Rightarrow> 's \<times> bool res"
  is_trusted_identity :: "protocol_address \<Rightarrow> identity_public_key \<Rightarrow> store_direction \<Rightarrow> 's \<Rightarrow> bool res"
  get_identity :: "protocol_address \<Rightarrow> 's \<Rightarrow> identity_public_key option res"

record 's pre_key_store =
  get_pre_key :: "pre_key_id \<Rightarrow> 's \<Rightarrow> pre_key_record res"
  save_pre_key :: "pre_key_id \<Rightarrow> pre_key_record \<Rightarrow> 's \<Rightarrow> 's \<times> unit res"
  remove_pre_key :: "pre_key_id \<Rightarrow> 's \<Rightarrow> 's \<times> unit res"

record 's signed_pre_key_store =
  get_signed_pre_key :: "signed_pre_key_id \<Rightarrow> 's \<Rightarrow> signed_pre_key_record res"
  save_signed_pre_key :: "signed_pre_key_id \<Rightarrow> signed_pre_key_record \<Rightarrow> 's \<Rightarrow> 's \<times> unit res"

record 's kyber_pre_key_store =
  get_kyber_pre_key :: "kyber_pre_key_id \<Rightarrow> 's \<Rightarrow> kyber_pre_key_record res"
  save_kyber_pre_key :: "kyber_pre_key_id \<Rightarrow> kyber_pre_key_record \<Rightarrow> 's \<Rightarrow> 's \<times> unit res"
  mark_kyber_pre_key_used :: "kyber_pre_key_id \<Rightarrow> 's \<Rightarrow> 's \<times> unit res"

record 's session_store =
  load_session :: "protocol_address \<Rightarrow> 's \<Rightarrow> session_record option res"
  store_session :: "protocol_address \<Rightarrow> session_record \<Rightarrow> 's \<Rightarrow> 's \<times> unit res"

record 's sender_key_store =
  store_sender_key :: "protocol_address \<Rightarrow> bytes \<Rightarrow> sender_key_record \<Rightarrow> 's \<Rightarrow> 's \<times> unit res"
  load_sender_key :: "protocol_address \<Rightarrow> bytes \<Rightarrow> 's \<Rightarrow> sender_key_record option res"

record 's sesame_store =
  load_user_record :: "uuid \<Rightarrow> 's \<Rightarrow> sesame_user_record option res"
  store_user_record :: "uuid \<Rightarrow> sesame_user_record \<Rightarrow> 's \<Rightarrow> 's \<times> unit res"
  remove_user_record :: "uuid \<Rightarrow> 's \<Rightarrow> 's \<times> unit res"
  list_users :: "'s \<Rightarrow> uuid list res"

section \<open>Laws\<close>

text \<open>A stored record is the one loaded afterwards, and storing leaves other keys alone.\<close>

definition stores_under :: "('k \<Rightarrow> 's \<Rightarrow> 'r) \<Rightarrow> ('v \<Rightarrow> 'r) \<Rightarrow> ('k \<Rightarrow> 'v \<Rightarrow> 's \<Rightarrow> 's \<times> unit res) \<Rightarrow> bool" where
  "stores_under load found save \<longleftrightarrow>
     (\<forall>k v st. snd (save k v st) = Inr () \<and>
        (\<forall>j. load j (fst (save k v st)) = (if j = k then found v else load j st)))"

definition session_store_ok :: "'s session_store \<Rightarrow> bool" where
  "session_store_ok S \<longleftrightarrow> stores_under (load_session S) (\<lambda>r. Inr (Some r)) (store_session S)"

definition sender_key_store_ok :: "'s sender_key_store \<Rightarrow> bool" where
  "sender_key_store_ok S \<longleftrightarrow>
     stores_under (\<lambda>(a, d). load_sender_key S a d) (\<lambda>r. Inr (Some r)) (\<lambda>(a, d). store_sender_key S a d)"

definition sesame_store_ok :: "'s sesame_store \<Rightarrow> bool" where
  "sesame_store_ok S \<longleftrightarrow>
     stores_under (load_user_record S) (\<lambda>r. Inr (Some r)) (store_user_record S) \<and>
     (\<forall>u st. snd (remove_user_record S u st) = Inr () \<and>
        (\<forall>v. load_user_record S v (fst (remove_user_record S u st)) =
           (if v = u then Inr None else load_user_record S v st)))"

text \<open>A removed one-time prekey is no longer served.\<close>

definition pre_key_store_ok :: "'s pre_key_store \<Rightarrow> bool" where
  "pre_key_store_ok S \<longleftrightarrow>
     stores_under (get_pre_key S) Inr (save_pre_key S) \<and>
     (\<forall>k st. snd (remove_pre_key S k st) = Inr () \<and> \<not> is_ok (get_pre_key S k (fst (remove_pre_key S k st))) \<and>
        (\<forall>j. j \<noteq> k \<longrightarrow> get_pre_key S j (fst (remove_pre_key S k st)) = get_pre_key S j st))"

definition signed_pre_key_store_ok :: "'s signed_pre_key_store \<Rightarrow> bool" where
  "signed_pre_key_store_ok S \<longleftrightarrow> stores_under (get_signed_pre_key S) Inr (save_signed_pre_key S)"

text \<open>Marking a last-resort Kyber prekey as used is a no-op.\<close>

definition kyber_pre_key_store_ok :: "'s kyber_pre_key_store \<Rightarrow> bool" where
  "kyber_pre_key_store_ok S \<longleftrightarrow>
     stores_under (get_kyber_pre_key S) Inr (save_kyber_pre_key S) \<and>
     (\<forall>k st r. get_kyber_pre_key S k st = Inr r \<and> kpr_is_last_resort r \<longrightarrow>
        get_kyber_pre_key S k (fst (mark_kyber_pre_key_used S k st)) = Inr r)"

text \<open>Saving reports whether it replaced a different key; an unknown identity is trusted.\<close>

definition identity_key_store_ok :: "'s identity_key_store \<Rightarrow> bool" where
  "identity_key_store_ok S \<longleftrightarrow>
     (\<forall>a k st known. get_identity S a st = Inr known \<longrightarrow>
        snd (save_identity S a k st) = Inr (known \<noteq> None \<and> known \<noteq> Some k) \<and>
        get_identity S a (fst (save_identity S a k st)) = Inr (Some k)) \<and>
     (\<forall>a k d st. get_identity S a st = Inr None \<longrightarrow> is_trusted_identity S a k d st = Inr True)"

section \<open>An in-memory implementation\<close>

definition demo_session_store :: "(protocol_address \<times> session_record) list session_store" where
  "demo_session_store =
     \<lparr>load_session = (\<lambda>a st. Inr (map_of st a)),
      store_session = (\<lambda>a r st. (AList.update a r st, Inr ()))\<rparr>"

lemma demo_session_store_ok: "session_store_ok demo_session_store"
  by (simp add: session_store_ok_def stores_under_def demo_session_store_def update_conv')


definition demo_pre_key_store :: "(pre_key_id \<times> pre_key_record) list pre_key_store" where
  "demo_pre_key_store =
     \<lparr>get_pre_key = (\<lambda>k st. case map_of st k of None \<Rightarrow> Inl (Serialization ''no prekey'') | Some r \<Rightarrow> Inr r),
      save_pre_key = (\<lambda>k r st. (AList.update k r st, Inr ())),
      remove_pre_key = (\<lambda>k st. (AList.delete k st, Inr ()))\<rparr>"

lemma demo_pre_key_store_ok: "pre_key_store_ok demo_pre_key_store"
  by (auto simp: pre_key_store_ok_def stores_under_def demo_pre_key_store_def update_conv' delete_conv' is_ok_def)

definition demo_kyber_pre_key_store :: "(kyber_pre_key_id \<times> kyber_pre_key_record) list kyber_pre_key_store" where
  "demo_kyber_pre_key_store =
     \<lparr>get_kyber_pre_key = (\<lambda>k st. case map_of st k of None \<Rightarrow> Inl (Serialization ''no Kyber prekey'') | Some r \<Rightarrow> Inr r),
      save_kyber_pre_key = (\<lambda>k r st. (AList.update k r st, Inr ())),
      mark_kyber_pre_key_used = (\<lambda>k st.
        (case map_of st k of
           Some r \<Rightarrow> if kpr_is_last_resort r then st else AList.delete k st
         | None \<Rightarrow> st, Inr ()))\<rparr>"

lemma demo_kyber_pre_key_store_ok: "kyber_pre_key_store_ok demo_kyber_pre_key_store"
  by (auto simp: kyber_pre_key_store_ok_def stores_under_def demo_kyber_pre_key_store_def update_conv'
      split: option.splits)

definition demo_signed_pre_key_store :: "(signed_pre_key_id \<times> signed_pre_key_record) list signed_pre_key_store" where
  "demo_signed_pre_key_store =
     \<lparr>get_signed_pre_key = (\<lambda>k st. case map_of st k of None \<Rightarrow> Inl (Serialization ''no signed prekey'') | Some r \<Rightarrow> Inr r),
      save_signed_pre_key = (\<lambda>k r st. (AList.update k r st, Inr ()))\<rparr>"

lemma demo_signed_pre_key_store_ok: "signed_pre_key_store_ok demo_signed_pre_key_store"
  by (simp add: signed_pre_key_store_ok_def stores_under_def demo_signed_pre_key_store_def update_conv')

definition demo_sesame_store :: "(uuid \<times> sesame_user_record) list sesame_store" where
  "demo_sesame_store =
     \<lparr>load_user_record = (\<lambda>u st. Inr (map_of st u)),
      store_user_record = (\<lambda>u r st. (AList.update u r st, Inr ())),
      remove_user_record = (\<lambda>u st. (AList.delete u st, Inr ())),
      list_users = (\<lambda>st. Inr (map fst st))\<rparr>"

lemma demo_sesame_store_ok: "sesame_store_ok demo_sesame_store"
  by (simp add: sesame_store_ok_def stores_under_def demo_sesame_store_def update_conv' delete_conv')

definition demo_identity_key_store :: "(protocol_address \<times> identity_public_key) list identity_key_store" where
  "demo_identity_key_store =
     \<lparr>get_identity_key_pair = (\<lambda>_. Inr (IdentityKeyPair (zeros 32))),
      get_local_registration_id = (\<lambda>_. Inr (RegistrationId 1)),
      save_identity = (\<lambda>a k st. (AList.update a k st, Inr (map_of st a \<noteq> None \<and> map_of st a \<noteq> Some k))),
      is_trusted_identity = (\<lambda>a k _ st. Inr (map_of st a = None \<or> map_of st a = Some k)),
      get_identity = (\<lambda>a st. Inr (map_of st a))\<rparr>"

lemma demo_identity_key_store_ok: "identity_key_store_ok demo_identity_key_store"
  by (simp add: identity_key_store_ok_def demo_identity_key_store_def update_conv')

end
