(* ===== verification/Persistence.thy ===== *)
theory Persistence
  imports Stores Session_Contract Sender_Key
begin

text \<open>
  Sessions and sender keys live in the application's store between calls: each call loads
  the stored bytes, rebuilds the state, works on it and stores it again. \<open>persisted\<close> is
  what makes that invisible: a state read back is the state written, up to a part
  (\<open>view\<close>) that no operation looks at. \<open>live_run\<close> keeps the state in memory,
  \<open>stored_run\<close> goes through the store for every call; the two answer alike.
\<close>

section \<open>Runs in memory and through a store\<close>

fun live_run :: "('op \<Rightarrow> 's \<Rightarrow> 's \<times> 'out) \<Rightarrow> 'op list \<Rightarrow> 's \<Rightarrow> 's \<times> 'out list" where
  "live_run step [] s = (s, [])"
| "live_run step (p # ps) s =
     (let (s, out) = step p s; (s, outs) = live_run step ps s in (s, out # outs))"

fun live_states :: "('op \<Rightarrow> 's \<Rightarrow> 's \<times> 'out) \<Rightarrow> 'op list \<Rightarrow> 's \<Rightarrow> 's list" where
  "live_states step [] s = []"
| "live_states step (p # ps) s = fst (step p s) # live_states step ps (fst (step p s))"

record ('k, 'st) blob_store =
  load_blob :: "'k \<Rightarrow> 'st \<Rightarrow> bytes option res"
  store_blob :: "'k \<Rightarrow> bytes \<Rightarrow> 'st \<Rightarrow> 'st \<times> unit res"

definition blob_store_ok :: "('k, 'st) blob_store \<Rightarrow> bool" where
  "blob_store_ok B \<longleftrightarrow> stores_under (load_blob B) (\<lambda>b. Inr (Some b)) (store_blob B)"

text \<open>One call through the store; \<open>None\<close> when there is nothing stored or a step fails.\<close>

definition stored_step ::
  "('op \<Rightarrow> 's \<Rightarrow> 's \<times> 'out) \<Rightarrow> ('s \<Rightarrow> bytes res) \<Rightarrow> (bytes \<Rightarrow> 's res) \<Rightarrow> ('k, 'st) blob_store \<Rightarrow> 'k \<Rightarrow>
   'op \<Rightarrow> 'st \<Rightarrow> ('st \<times> 'out) option" where
  "stored_step step save restore B k p st =
     (case load_blob B k st of
        Inr (Some blob) \<Rightarrow>
          (case restore blob of
             Inr s \<Rightarrow>
               (let (s, out) = step p s
                in case save s of
                     Inr blob \<Rightarrow>
                       (case store_blob B k blob st of
                          (st, Inr _) \<Rightarrow> Some (st, out)
                        | (st, Inl _) \<Rightarrow> None)
                   | Inl _ \<Rightarrow> None)
           | Inl _ \<Rightarrow> None)
      | _ \<Rightarrow> None)"

fun stored_run ::
  "('op \<Rightarrow> 's \<Rightarrow> 's \<times> 'out) \<Rightarrow> ('s \<Rightarrow> bytes res) \<Rightarrow> (bytes \<Rightarrow> 's res) \<Rightarrow> ('k, 'st) blob_store \<Rightarrow> 'k \<Rightarrow>
   'op list \<Rightarrow> 'st \<Rightarrow> ('st \<times> 'out list) option" where
  "stored_run step save restore B k [] st = Some (st, [])"
| "stored_run step save restore B k (p # ps) st =
     (case stored_step step save restore B k p st of
        None \<Rightarrow> None
      | Some (st, out) \<Rightarrow> map_option (\<lambda>(st, outs). (st, out # outs)) (stored_run step save restore B k ps st))"

locale persisted =
  fixes step :: "'op \<Rightarrow> 's \<Rightarrow> 's \<times> 'out"
    and save :: "'s \<Rightarrow> bytes res"
    and restore :: "bytes \<Rightarrow> 's res"
    and view :: "'s \<Rightarrow> 's"
    and savable :: "'s \<Rightarrow> bool"
  assumes step_view: "step p (view s) = map_prod view id (step p s)"
    and restore_save: "savable s \<Longrightarrow> \<exists>blob. save s = Inr blob \<and> restore blob = Inr (view s)"
    and save_view: "save (view s) = save s"
begin

lemma stored_step_live:
  assumes "blob_store_ok B" and "load_blob B k st = Inr (Some blob)" and "restore blob = Inr (view s)"
    and "step p s = (s', out)" and "savable s'"
  shows "\<exists>st' blob'. stored_step step save restore B k p st = Some (st', out) \<and>
           load_blob B k st' = Inr (Some blob') \<and> restore blob' = Inr (view s') \<and>
           (\<forall>j. j \<noteq> k \<longrightarrow> load_blob B j st' = load_blob B j st)"
proof -
  obtain blob' where b: "save s' = Inr blob'" "restore blob' = Inr (view s')"
    using restore_save [OF assms(5)] by blast
  obtain st' where st: "store_blob B k blob' st = (st', Inr ())" and
    l: "\<And>j. load_blob B j st' = (if j = k then Inr (Some blob') else load_blob B j st)"
    using assms(1) unfolding blob_store_ok_def stores_under_def by (metis prod.collapse)
  have "step p (view s) = (view s', out)" using step_view [of p s] assms(4) by simp
  then have "stored_step step save restore B k p st = Some (st', out)"
    using assms(2,3) b st by (simp add: stored_step_def save_view)
  with b l show ?thesis by simp
qed

lemma stored_run_live:
  assumes "blob_store_ok B" and "load_blob B k st = Inr (Some blob)" and "restore blob = Inr (view s)"
    and "\<forall>t \<in> set (live_states step ps s). savable t"
  shows "\<exists>st' blob'. stored_run step save restore B k ps st = Some (st', snd (live_run step ps s)) \<and>
           load_blob B k st' = Inr (Some blob') \<and> restore blob' = Inr (view (fst (live_run step ps s))) \<and>
           (\<forall>j. j \<noteq> k \<longrightarrow> load_blob B j st' = load_blob B j st)"
  using assms(2-)
proof (induction ps arbitrary: s st blob)
  case (Cons p ps)
  obtain s1 out where s1: "step p s = (s1, out)" by (metis surj_pair)
  with Cons.prems(3) have "savable s1" "\<forall>t \<in> set (live_states step ps s1). savable t" by simp_all
  with stored_step_live [OF assms(1) Cons.prems(1,2) s1] obtain st1 blob1 where
    st1: "stored_step step save restore B k p st = Some (st1, out)" "load_blob B k st1 = Inr (Some blob1)"
      "restore blob1 = Inr (view s1)" "\<forall>j. j \<noteq> k \<longrightarrow> load_blob B j st1 = load_blob B j st" by blast
  with Cons.IH [OF st1(2,3)] \<open>\<forall>t \<in> set (live_states step ps s1). savable t\<close>
  show ?case using s1 by (auto simp: split_beta)
qed simp

text \<open>Starting from a state that was just stored.\<close>

lemma stored_run_from_save:
  assumes "blob_store_ok B" and "savable s" and "save s = Inr blob"
    and "\<forall>t \<in> set (live_states step ps s). savable t"
  shows "map_option snd (stored_run step save restore B k ps (fst (store_blob B k blob st)))
           = Some (snd (live_run step ps s))"
proof -
  have "load_blob B k (fst (store_blob B k blob st)) = Inr (Some blob)"
    using assms(1) by (simp add: blob_store_ok_def stores_under_def)
  moreover have "restore blob = Inr (view s)" using restore_save [OF assms(2)] assms(3) by auto
  ultimately show ?thesis using stored_run_live [OF assms(1) _ _ assms(4)] by fastforce
qed

end

section \<open>Sessions\<close>

text \<open>The bytes of a \<open>SessionStore\<close>; a session written by a call has no archived states.\<close>

definition session_blobs :: "'st session_store \<Rightarrow> (protocol_address, 'st) blob_store" where
  "session_blobs S =
     \<lparr>load_blob = (\<lambda>a st. map_sum id (map_option sess_data) (load_session S a st)),
      store_blob = (\<lambda>a b. store_session S a \<lparr>sess_data = b, sess_previous_states = []\<rparr>)\<rparr>"

lemma session_blobs_ok: "session_store_ok S \<Longrightarrow> blob_store_ok (session_blobs S)"
  by (simp add: session_store_ok_def blob_store_ok_def stores_under_def session_blobs_def)

datatype session_call =
    CallEncrypt "nat \<Rightarrow> bytes" bytes bytes
  | CallDecrypt bytes ratchet_message

datatype session_reply =
    Encrypted "encrypted_output res"
  | Decrypted "bytes res"

fun session_step ::
  "ext \<Rightarrow> message_header codec \<Rightarrow> identity_public_key \<Rightarrow> identity_public_key \<Rightarrow> session_call \<Rightarrow>
   ratchet_session \<Rightarrow> ratchet_session \<times> session_reply" where
  "session_step X H us them (CallEncrypt rng nonce plaintext) s =
     map_prod id Encrypted (encrypt_message X H rng nonce plaintext us them s)"
| "session_step X H us them (CallDecrypt new_dh msg) s =
     map_prod id Decrypted (decrypt X H new_dh msg them us s)"

abbreviation untagged :: "ratchet_session \<Rightarrow> ratchet_session" where
  "untagged s \<equiv> s\<lparr>rs_initial_root_id := 0\<rparr>"

lemma skip_receiving_messages_untagged:
  "skip_receiving_messages X n (untagged s) = map_prod untagged id (skip_receiving_messages X n s)"
  by (simp add: skip_receiving_messages_def Let_def split_beta split: option.splits)

lemma ratchet_if_new_untagged:
  "ratchet_if_new X d h (untagged s) = map_prod untagged id (ratchet_if_new X d h s)"
  by (simp add: ratchet_if_new_def skip_receiving_messages_untagged perform_dh_ratchet_step_def Let_def
      split: prod.splits sum.splits option.splits)

lemma take_receiving_key_untagged:
  "take_receiving_key X n (untagged s) = map_prod untagged id (take_receiving_key X n s)"
  by (simp add: take_receiving_key_def skip_receiving_messages_untagged Let_def
      split: prod.splits sum.splits option.splits)

lemma resolve_ec_key_untagged:
  "resolve_ec_key X d h (untagged s) = map_prod untagged id (resolve_ec_key X d h s)"
  by (simp add: resolve_ec_key_def ratchet_if_new_untagged take_receiving_key_untagged
      split: prod.splits sum.splits option.splits)

lemma decrypt_untagged: "decrypt X H d msg a b (untagged s) = map_prod untagged id (decrypt X H d msg a b s)"
  by (simp add: decrypt_def resolve_ec_key_untagged split: prod.splits sum.splits)

lemma encrypt_message_untagged:
  "encrypt_message X H rng nonce pt a b (untagged s) = map_prod untagged id (encrypt_message X H rng nonce pt a b s)"
proof -
  have "encrypt_raw X H rng nonce pt a b (untagged s) = map_prod untagged id (encrypt_raw X H rng nonce pt a b s)"
    by (simp add: encrypt_raw_def Let_def split_beta split: prod.splits sum.splits option.splits)
  then show ?thesis by (simp add: encrypt_message_def split: prod.splits sum.splits option.splits)
qed

lemma session_step_untagged:
  "session_step X H us them p (untagged s) = map_prod untagged id (session_step X H us them p s)"
  by (cases p) (simp_all add: decrypt_untagged encrypt_message_untagged prod.map_comp comp_def)

definition session_savable :: "serialized_state codec \<Rightarrow> ratchet_session \<Rightarrow> bool" where
  "session_savable C s \<longleftrightarrow> codec_inverts C (serialized_of s) \<and> skipped_ok (rs_skipped s)"

interpretation kept_session: persisted "session_step X H us them" "session_serialize C" "session_deserialize C"
  untagged "session_savable C" for X H us them C
proof
  show "session_step X H us them p (untagged s) = map_prod untagged id (session_step X H us them p s)" for p s
    by (rule session_step_untagged)
  show "\<exists>blob. session_serialize C s = Inr blob \<and> session_deserialize C blob = Inr (untagged s)"
    if "session_savable C s" for s
    using session_round_trip that by (simp add: session_savable_def)
  show "session_serialize C (untagged s) = session_serialize C s" for s
    by (simp add: session_serialize_def serialized_of_def)
qed

section \<open>Sender keys\<close>

definition sender_key_blobs :: "'st sender_key_store \<Rightarrow> (protocol_address \<times> bytes, 'st) blob_store" where
  "sender_key_blobs S =
     \<lparr>load_blob = (\<lambda>(a, d) st. map_sum id (map_option skr_data) (load_sender_key S a d st)),
      store_blob = (\<lambda>(a, d) b. store_sender_key S a d \<lparr>skr_data = b\<rparr>)\<rparr>"

lemma sender_key_blobs_ok: "sender_key_store_ok S \<Longrightarrow> blob_store_ok (sender_key_blobs S)"
  by (auto simp: sender_key_store_ok_def blob_store_ok_def stores_under_def sender_key_blobs_def)

datatype group_call =
    CallGroupEncrypt bytes bytes bytes
  | CallGroupDecrypt sender_key_message

datatype group_reply =
    GroupEncrypted "sender_key_message res"
  | GroupDecrypted "bytes res"

fun group_step :: "ext \<Rightarrow> group_call \<Rightarrow> sender_key_state \<Rightarrow> sender_key_state \<times> group_reply" where
  "group_step X (CallGroupEncrypt nonce group_id plaintext) s =
     map_prod id GroupEncrypted (group_encrypt X nonce group_id plaintext s)"
| "group_step X (CallGroupDecrypt m) s = map_prod id GroupDecrypted (group_decrypt X m s)"

text \<open>The stored bytes of a sender key are a versioned record, as those of a session.\<close>

interpretation kept_group: persisted "group_step X" "serialize C" "deserialize C" id "codec_inverts C" for X C
  by unfold_locales (auto simp: prod.map_id0 dest: deserialize_serialize_at)

section \<open>Properties\<close>

definition demo_alice :: ratchet_session where
  "demo_alice = initialize_alice demo_ext (replicate 32 1) (zeros 32) (replicate 32 2)"

definition demo_address :: protocol_address where
  "demo_address = \<lparr>user_id = zeros 16, device_id = DeviceId 1\<rparr>"

lemma session_step_skipped_ok:
  assumes "skipped_ok (rs_skipped s)"
  shows "skipped_ok (rs_skipped (fst (session_step X H us them p s)))"
proof (cases p)
  case (CallEncrypt rng nonce pt)
  have "rs_skipped (fst (encrypt_message X H rng nonce pt us them s)) = rs_skipped (fst (encrypt_raw X H rng nonce pt us them s))"
    by (auto simp: encrypt_message_def split: prod.splits sum.splits option.splits)
  with CallEncrypt show ?thesis using assms encrypt_raw_skipped by simp
next
  case (CallDecrypt d msg)
  then show ?thesis using decrypt_skipped_ok [OF assms] by simp
qed

lemma live_states_skipped_ok:
  "skipped_ok (rs_skipped s) \<Longrightarrow> t \<in> set (live_states (session_step X H us them) ps s) \<Longrightarrow> skipped_ok (rs_skipped t)"
  by (induction ps arbitrary: s) (auto dest: session_step_skipped_ok)

text \<open>
  C7. Persistence is invisible. A session that is written to the application's store after
  every call and rebuilt from the stored bytes before the next one answers every sequence of
  encryptions and decryptions, hostile messages included, exactly as the session that stays in
  memory. (The codec inverts the states of the run.)
\<close>

theorem session_persistence:
  assumes "session_store_ok S" and "skipped_ok (rs_skipped s)"
    and "\<forall>t \<in> set (s # live_states (session_step X H us them) calls s). codec_inverts C (serialized_of t)"
    and "session_serialize C s = Inr blob"
  shows "map_option snd
      (stored_run (session_step X H us them) (session_serialize C) (session_deserialize C) (session_blobs S) address calls
         (fst (store_session S address \<lparr>sess_data = blob, sess_previous_states = []\<rparr> st)))
    = Some (snd (live_run (session_step X H us them) calls s))"
proof -
  have "session_savable C s" "\<forall>t \<in> set (live_states (session_step X H us them) calls s). session_savable C t"
    using assms(2,3) live_states_skipped_ok [OF assms(2)] by (simp_all add: session_savable_def)
  from kept_session.stored_run_from_save [OF session_blobs_ok [OF assms(1)] this(1) assms(4) this(2), of address st]
  show ?thesis by (simp add: session_blobs_def)
qed

theorem session_persistence_witness:
  "\<exists>C blob out. session_serialize C demo_alice = Inr blob \<and>
    map_option snd
      (stored_run (session_step demo_ext demo_header_codec (IdentityPublicKey (zeros 32)) (IdentityPublicKey (zeros 32)))
         (session_serialize C) (session_deserialize C) (session_blobs demo_session_store) demo_address
         [CallEncrypt zeros (zeros 24) [1, 2, 3]]
         (fst (store_session demo_session_store demo_address \<lparr>sess_data = blob, sess_previous_states = []\<rparr> [])))
    = Some [out]"
proof -
  let ?call = "CallEncrypt zeros (zeros 24) [1, 2, 3]"
  let ?step = "session_step demo_ext demo_header_codec (IdentityPublicKey (zeros 32)) (IdentityPublicKey (zeros 32))"
  define t where "t = serialized_of (fst (?step ?call demo_alice))"
  define C :: "serialized_state codec" where
    "C = \<lparr>enc = (\<lambda>st. Inr (if st = t then [1] else [0])), dec = (\<lambda>b. Inr (if b = [1] then t else serialized_of demo_alice))\<rparr>"
  have inv: "\<forall>u \<in> set (demo_alice # live_states ?step [?call] demo_alice). codec_inverts C (serialized_of u)"
    by (simp add: C_def codec_inverts_def t_def)
  moreover have ok: "skipped_ok (rs_skipped demo_alice)"
    by (simp add: demo_alice_def initialize_alice_def Let_def)
  moreover obtain blob where blob: "session_serialize C demo_alice = Inr blob"
    using session_round_trip [of C demo_alice] inv ok by auto
  ultimately have "map_option snd
      (stored_run ?step (session_serialize C) (session_deserialize C) (session_blobs demo_session_store) demo_address [?call]
         (fst (store_session demo_session_store demo_address \<lparr>sess_data = blob, sess_previous_states = []\<rparr> [])))
    = Some (snd (live_run ?step [?call] demo_alice))"
    by (intro session_persistence [OF demo_session_store_ok])
  with blob show ?thesis by (simp add: split_beta) blast
qed


definition state_fields :: "sender_key_state \<Rightarrow> bytes list" where
  "state_fields s =
     [gs_chain_key s, u32_be (gs_iteration s), if is_sender s then [1] else [],
      case auth_mode s of Hmac \<Rightarrow> [] | Signed \<Rightarrow> [1],
      case signing_public s of None \<Rightarrow> [] | Some k \<Rightarrow> 1 # k,
      case signing_private s of None \<Rightarrow> [] | Some k \<Rightarrow> 1 # k] @
     map (\<lambda>(n, mk). u32_be n @ mk) (skipped_message_keys s)"

definition optional_field :: "bytes \<Rightarrow> bytes option" where
  "optional_field f = (case f of [] \<Rightarrow> None | _ # k \<Rightarrow> Some k)"

fun fields_state :: "bytes list \<Rightarrow> sender_key_state option" where
  "fields_state (ck # n # sender # mode # pk # sk # keys) =
     Some \<lparr>gs_chain_key = ck, gs_iteration = from_be n, is_sender = (sender \<noteq> []),
           auth_mode = (if mode = [] then Hmac else Signed),
           signing_public = optional_field pk, signing_private = optional_field sk,
           skipped_message_keys = map (\<lambda>f. (from_be (take 4 f), drop 4 f)) keys\<rparr>"
| "fields_state _ = None"

definition demo_state_codec :: "sender_key_state codec" where
  "demo_state_codec = field_codec state_fields fields_state"

lemma demo_state_codec_ok: "codec_ok demo_state_codec"
  unfolding demo_state_codec_def
proof (rule field_codec_ok)
  have "length (u32_be n) = 4" for n by (simp add: u32_be_def be_bytes_def)
  then have "map ((\<lambda>f. (from_be (take 4 f), drop 4 f)) \<circ> (\<lambda>(n, mk). u32_be n @ mk)) keys = keys" for keys :: "(u32 \<times> bytes) list"
    by (induction keys) auto
  then show "fields_state (state_fields s) = Some s" for s
    by (auto simp: state_fields_def optional_field_def split: sender_key_auth.splits option.splits)
qed

definition demo_sender_key_store :: "((protocol_address \<times> bytes) \<times> sender_key_record) list sender_key_store" where
  "demo_sender_key_store =
     \<lparr>store_sender_key = (\<lambda>a d r st. (AList.update (a, d) r st, Inr ())),
      load_sender_key = (\<lambda>a d st. Inr (map_of st (a, d)))\<rparr>"

lemma demo_sender_key_store_ok: "sender_key_store_ok demo_sender_key_store"
  by (auto simp: sender_key_store_ok_def stores_under_def demo_sender_key_store_def update_conv')


end
