(* ===== verification/Spec2Isabelle.thy ===== *)
theory Spec2Isabelle
  imports Session_Contract Skip_Bounds Sesame_Contract Sender_Key_Contract Sealed_Sender Org_Metadata Recovery Provisioning Trust
    Braid_Wedge Session_Forgery Persistence
begin

text \<open>
  A verification development of \<open>hushwire-crypto\<close>, a Signal-style messaging library with a
  post-quantum ratchet. Paths below are relative to \<open>src/src/\<close> of the repository.

  \<^bold>\<open>The program.\<close> Two devices run a handshake (\<open>protocol/pqxdh.rs\<close>) on a published prekey bundle
  and obtain a shared secret. From it each builds a session (\<open>protocol/ratchet/mod.rs\<close>): a
  Diffie-Hellman ratchet with symmetric chains, next to a sparse post-quantum ratchet
  (\<open>protocol/ratchet/spqr.rs\<close>) whose epochs come from the braid (\<open>protocol/braid\<close>), which
  streams KEM keys and ciphertexts in erasure-coded chunks inside the message headers. Every
  message key mixes one key of each ratchet. On top, \<open>protocol/sesame\<close> chooses among the
  sessions with each device of a user, \<open>protocol/sender_key\<close> carries group messages, and
  \<open>protocol/sealed_sender\<close> hides who sent a message. \<open>hushwire/\<close> has the application's own
  pieces: organization metadata, recovery, provisioning, trust root, envelopes, storage key.

  \<^bold>\<open>Conventions.\<close> Machine integers are words of their width; byte strings are lists of 8-bit words.
  A fallible function returns \<open>'a res\<close>, an error of \<open>CryptoError\<close> or a value; a panic is the
  error \<open>Panic\<close>. A method on \<open>&mut self\<close> returns the new state next to its result, also when
  it fails. Random bytes and the clock are arguments. The third-party crates (curves, hashes,
  ciphers, KEMs, Reed-Solomon) are the functions of one record, \<open>ext\<close>, and every law used of
  them is a named hypothesis (\<open>ed25519_ok\<close>, \<open>x25519_ok\<close>, \<open>xchacha_ok\<close>, \<open>kem_ok\<close> and so on); \<open>demo_ext\<close>
  satisfies them all and carries the witnesses. The postcard format is a \<open>codec\<close>
  parameter; \<open>Field_Codec\<close> has concrete ones. BIP39 and Argon2 are the record \<open>app_crates\<close>.
  An AEAD in these laws is an exact inverse pair: decryption accepts what encryption
  produced under that key, nonce and associated data and nothing else. Secrecy and
  computational hardness are outside the development.

  \<^bold>\<open>Foundations.\<close>
  \<^item> \<open>Prelude\<close>, \<open>External\<close>, \<open>Foundation\<close>: words, bytes and formatting; the crates; \<open>error.rs\<close>,
    \<open>types.rs\<close>, \<open>address.rs\<close>, \<open>serialization.rs\<close>. \<open>Outcome\<close>: the \<open>?\<close> operator and unframed postcard.
  \<^item> \<open>Interfaces\<close>: the locales between components. \<open>kv_map\<close> (the maps), \<open>sym_chain\<close> and
    \<open>stepped_chain\<close> (a hash chain and its key schedule), \<open>key_receiver\<close> (any-order, once-only
    delivery), \<open>sealed_box\<close> (encryption that opens to what was sealed and nothing else). They are
    interpreted on the chains of the session, of the post-quantum ratchet and of sender keys,
    on the receivers of the latter two, and on the boxes of \<open>aead.rs\<close>, \<open>metadata.rs\<close> and
    \<open>recovery.rs\<close>. \<open>Trust\<close> has \<open>trust_root\<close>, the trait of that name, interpreted on both
    implementations; \<open>Sesame_Contract\<close> has \<open>level_register\<close>, interpreted on device records;
    \<open>Persistence\<close> has \<open>persisted\<close>, interpreted on sessions and on sender keys.
  \<^item> \<open>Padding\<close>, \<open>Kdf\<close>, \<open>Aead\<close>, \<open>Keys\<close>: \<open>primitives/\<close>, each with its round trips and lengths.

  \<^bold>\<open>The braid.\<close> \<open>Erasure\<close>, \<open>Braid_Kem\<close>, \<open>Braid_Auth\<close> and \<open>Braid_Machine\<close> model the four files of
  \<open>protocol/braid\<close>; the eleven states are one datatype, \<open>braid_send\<close> and \<open>braid_receive\<close> are the
  public operations. \<open>Braid_Local\<close> holds for any input: failed operations change nothing, the
  epoch moves as it should, nothing is accepted without its MAC. \<open>Braid_System\<close> is a step
  relation of two parties over a network that loses, reorders and repeats messages;
  \<open>Braid_Honest\<close>, \<open>Braid_Progress\<close> and \<open>Braid_Agreement\<close> show that the parties agree on every
  epoch's secret, stay in lockstep, never reject an honest message and can always finish the epoch.
  \<open>Braid_Sizes\<close> shows that no input makes the braid panic, as every decoder was made for the length
  its message is split at. \<open>Braid_Wedge\<close> shows what a forged codeword of the encapsulation key does:
  its decoder is never emptied, so the party stays in its epoch for good.

  \<^bold>\<open>The ratchets and sessions.\<close> \<open>Spqr\<close> models \<open>spqr.rs\<close>. \<open>Spqr_Keys\<close> and \<open>Spqr_Epochs\<close> treat one party,
  \<open>Spqr_Life\<close> arbitrary input (epochs in step; which epochs pruning leaves behind), \<open>Spqr_Honest\<close>
  and \<open>Spqr_Agreement\<close> two parties (same keys, delivery in any order). \<open>Pqxdh\<close> models
  \<open>prekey.rs\<close> and \<open>pqxdh.rs\<close> with the agreement of both sides and the refusals. \<open>Ratchet_Chain\<close> and
  \<open>Session\<close> model \<open>ratchet/chain.rs\<close>, \<open>skipped.rs\<close>, \<open>header.rs\<close> and \<open>mod.rs\<close>. \<open>Session_Ec\<close>,
  \<open>Session_System\<close> and \<open>Session_Agreement\<close> relate two sessions to one key schedule; \<open>Session_Contract\<close>
  states integrity, delivery, sending, establishment, storage and the bound on stored
  keys. \<open>Skip_Bounds\<close> bounds the skip loops for every counter. \<open>Session_Life\<close> takes a session through
  arbitrary calls, forged and failed ones included: none of them panics. \<open>Session_Forgery\<close> shows
  what a forged header still does: the ratchet moves before the tag is checked, and stays moved.

  \<^bold>\<open>Storage.\<close> \<open>Stores\<close> models \<open>protocol/stores.rs\<close>: the stored records, and each trait as the record of
  its methods, a parameter, since every implementation is the application's; what the comments
  promise is the law of the trait, and an in-memory implementation satisfies each. \<open>Persistence\<close>
  shows that a session, or a sender key, that is written to the store after every call and rebuilt
  before the next answers as the one kept in memory.

  \<^bold>\<open>Above the session.\<close> \<open>Sesame\<close> and \<open>Sesame_Contract\<close>: device records, convergence after a
  simultaneous establishment as a step relation, reconciliation of the device list, lifetimes.
  \<open>Sender_Key\<close> and \<open>Sender_Key_Contract\<close>: group messages in any order, once, authenticated.
  \<open>Certificate\<close> and \<open>Sealed_Sender\<close>: the certificate chain, sealing, and what unsealing proves.
  \<open>Org_Metadata\<close>, \<open>Recovery\<close> (with the storage key), \<open>Provisioning\<close> and \<open>Trust\<close> (with envelopes): the
  modules of \<open>hushwire/\<close>. This theory composes sealed sender with the session.

  \<^bold>\<open>Bounds.\<close> No model uses fuel: the loops are structural or have a termination proof on the
  distance of their 32-bit counters. Statements about runs assume fewer steps than the
  counters can count (below \<open>2 ^ 32\<close> messages, \<open>2 ^ 64\<close> epochs), beyond which the code's
  increments would overflow, and that the ratchet keys drawn in the run have distinct
  public keys.

  \<^bold>\<open>Not modelled.\<close> \<open>lib.rs\<close>, \<open>prelude.rs\<close> and the \<open>mod.rs\<close> files of \<open>protocol\<close>, \<open>primitives\<close>, \<open>braid\<close>, \<open>hushwire\<close> and \<open>org\<close>
  only declare modules; \<open>sesame/convergence.rs\<close> is documentation and tests. Wiping of memory,
  constant-time comparison and \<open>Debug\<close> of secret types beyond their redaction have no
  functional content. A storage method is called, not awaited: nothing in the crate interleaves with it. The
  remaining accessors return a field. The tests are not modelled.
\<close>

text \<open>
  C4. A session under sealed sender. In an honest run of two sessions, a letter that the
  sender's device seals for its peer, with the certificate the trust root issued, unseals
  there to the sender's identity and to the very message of the letter; decrypting that
  message as coming from the identity that unsealing reported yields the plaintext. The
  bounds are those of delivery in a session.
\<close>

theorem sealed_letter_delivery:
  assumes "session_run_ok R" and "session_reach R n S" and "n < 2 ^ 32 - 2002" and "inj_on (pub R) {..2 * n + 2}"
    and "l \<in> letters S (other p)" and "(lt_chain l, lt_number l) \<notin> got S p"
    and "room_for (gens S p) (lt_chain l) (lt_number l) (lt_previous l) (ends S p)"
    and "header_deserialize (sr_codec R) (rm_header (lt_message l)) = Inr h"
    and "spqr_now (rs_spqr (ends S p)) \<le> unat (msg_epoch (h_braid_msg h)) + 1"
    and "\<not> spqr_spent (rs_spqr (ends S p)) (pq_at h)"
    and "\<forall>c. recv_chain (rs_spqr (ends S p)) (fst (pq_at h)) = Some c \<longrightarrow>
           unat (h_pq_message_number h) \<le> unat (sc_n c) + unat MAX_SKIP + 1"
    and "ed25519_ok (sr_ext R)" "identity_dh_ok (sr_ext R)" and "sealed_codecs_ok C" and "codec_ok M"
    and "sr_ident R (other p) = public_key (sr_ext R) sender" "length (identity_seed sender) = 32"
    and "sr_ident R p = public_key (sr_ext R) recipient" "length (identity_seed recipient) = 32"
    and "nonce24 n1" "nonce24 n2" and "now < expiration"
  shows "\<exists>content b m s'.
     enc M (lt_message l) = Inr content \<and>
     seal (sr_ext R) C eph n1 n2 sender
       (sender_certificate_new (sr_ext R) uuid device (sr_ident R (other p)) expiration server_key
         (server_certificate_new (sr_ext R) key_id server_key))
       content (sr_ident R p) = Inr b \<and>
     unseal (sr_ext R) C b recipient (ed_public (sr_ext R) server_key) now = Inr m \<and>
     um_sender_uuid m = uuid \<and> um_sender_device_id m = device \<and> dec M (um_content m) = Inr (lt_message l) \<and>
     decrypt (sr_ext R) (sr_codec R) (sr_sec R (gens S p + 2)) (lt_message l) (um_sender_identity m) (sr_ident R p) (ends S p)
       = (s', Inr (lt_plaintext l))"
proof -
  note run = session_run_okD [OF assms(1)]
  obtain content where content: "enc M (lt_message l) = Inr content" "dec M content = Inr (lt_message l)"
    using codec_ok_enc [OF assms(15)] codec_okD [OF assms(15)] by blast
  let ?cert = "sender_certificate_new (sr_ext R) uuid device (sr_ident R (other p)) expiration server_key
    (server_certificate_new (sr_ext R) key_id server_key)"
  have "validate (sr_ext R) ?cert (ed_public (sr_ext R) server_key) now = Inr ()" by (rule issued_valid [OF assms(12,22)])
  from unseal_seal [OF assms(12) run(2) assms(13) run(3) assms(14,17,19,20,21) this]
  obtain b where "seal (sr_ext R) C eph n1 n2 sender ?cert content (sr_ident R p) = Inr b"
    "unseal (sr_ext R) C b recipient (ed_public (sr_ext R) server_key) now =
       Inr \<lparr>um_sender_uuid = uuid, um_sender_device_id = device, um_sender_identity = sr_ident R (other p), um_content = content\<rparr>"
    using assms(16,18) by (auto simp: sender_certificate_new_def)
  moreover obtain s' where "decrypt (sr_ext R) (sr_codec R) (sr_sec R (gens S p + 2)) (lt_message l) (sr_ident R (other p)) (sr_ident R p) (ends S p)
      = (s', Inr (lt_plaintext l))"
    using letter_deliverable [OF assms(1-11)] by blast
  ultimately show ?thesis using content
    by - (rule exI [of _ content], rule exI [of _ b],
        rule exI [of _ "\<lparr>um_sender_uuid = uuid, um_sender_device_id = device, um_sender_identity = sr_ident R (other p), um_content = content\<rparr>"],
        rule exI [of _ s'], simp)
qed

definition demo_message_codec :: "ratchet_message codec" where
  "demo_message_codec = field_codec (\<lambda>m. [rm_header m, rm_ciphertext m]) (\<lambda>fs. Some \<lparr>rm_header = fs ! 0, rm_ciphertext = fs ! 1\<rparr>)"

theorem sealed_letter_delivery_witness:
  "\<exists>S l b m s'. session_reach demo_session_run 1 S \<and> l \<in> letters S Alice \<and>
     unseal demo_ext demo_codecs b (IdentityKeyPair (zeros 32)) (ed_public demo_ext (replicate 32 1)) (Timestamp 9) = Inr m \<and>
     dec demo_message_codec (um_content m) = Inr (lt_message l) \<and>
     decrypt demo_ext demo_header_codec (sr_sec demo_session_run (gens S Bob + 2)) (lt_message l) (um_sender_identity m)
       (IdentityPublicKey (zeros 32)) (ends S Bob) = (s', Inr [1, 2, 3])"
proof -
  have j: "inj_on (pub demo_session_run) {..2 * 1 + 2}" using demo_pub_inj by simp
  have x: "sr_ext demo_session_run = demo_ext" by (simp add: demo_session_run_def spqr_demo_run_ok(2))
  obtain S l h where d: "session_reach demo_session_run 1 S" "l \<in> letters S (other Bob)" "lt_plaintext l = [1, 2, 3]"
    "(lt_chain l, lt_number l) \<notin> got S Bob" "room_for (gens S Bob) (lt_chain l) (lt_number l) (lt_previous l) (ends S Bob)"
    "header_deserialize (sr_codec demo_session_run) (rm_header (lt_message l)) = Inr h"
    and h: "msg_epoch (h_braid_msg h) = 1" "h_pq_message_number h = 1"
    and b: "rs_spqr (ends S Bob) = spqr_init demo_ext (zeros 32) B2A"
    using demo_letter by blast
  note f = spqr_first_receivable [of demo_ext "zeros 32"]
  have p: "pq_at h = (0, 1)" using h by (simp add: pq_at_def saturating_sub_def)
  have M: "codec_ok demo_message_codec" unfolding demo_message_codec_def by (rule field_codec_ok) simp
  have laws: "ed25519_ok (sr_ext demo_session_run)" "identity_dh_ok (sr_ext demo_session_run)"
    using demo_ed25519 demo_identity_dh by (simp_all add: x)
  have id: "sr_ident demo_session_run q = public_key (sr_ext demo_session_run) (IdentityKeyPair (zeros 32))" for q
    by (simp add: demo_session_run_def public_key_def spqr_demo_run_ok(2)) (simp add: demo_ext_def fit_id)
  have "\<exists>content b m s'.
     enc demo_message_codec (lt_message l) = Inr content \<and>
     seal (sr_ext demo_session_run) demo_codecs [] (zeros 24) (zeros 24) (IdentityKeyPair (zeros 32))
       (sender_certificate_new (sr_ext demo_session_run) (SenderUuid []) (DeviceId 1) (sr_ident demo_session_run (other Bob)) (Timestamp 10) (replicate 32 1)
         (server_certificate_new (sr_ext demo_session_run) (ServerKeyId 1) (replicate 32 1)))
       content (sr_ident demo_session_run Bob) = Inr b \<and>
     unseal (sr_ext demo_session_run) demo_codecs b (IdentityKeyPair (zeros 32)) (ed_public (sr_ext demo_session_run) (replicate 32 1)) (Timestamp 9) = Inr m \<and>
     um_sender_uuid m = SenderUuid [] \<and> um_sender_device_id m = DeviceId 1 \<and> dec demo_message_codec (um_content m) = Inr (lt_message l) \<and>
     decrypt (sr_ext demo_session_run) (sr_codec demo_session_run) (sr_sec demo_session_run (gens S Bob + 2)) (lt_message l) (um_sender_identity m)
       (sr_ident demo_session_run Bob) (ends S Bob) = (s', Inr (lt_plaintext l))"
    by (rule sealed_letter_delivery [OF demo_session_run_ok d(1) _ j d(2,4,5,6) _ _ _ laws demo_codecs_ok M id _ id])
      (use f h b p in \<open>simp_all add: nonce24_def NONCE_SIZE_def less_timestamp_def\<close>)
  then show ?thesis using d(1-3) unfolding x other.simps by (fastforce simp: demo_session_run_def)
qed

end
